(* ===== verification/Prelude.thy ===== *)
theory Prelude
  imports Main "HOL-Library.AList" "HOL-Library.Word"
begin

text \<open>
  Shared vocabulary of the development.

  Machine integers keep their width: \<^verbatim>\<open>u64\<close> is \<^typ>\<open>64 word\<close>, whose addition wraps exactly as
  a Rust release build does.  A \<^verbatim>\<open>HashMap\<close> (or \<^verbatim>\<open>DashMap\<close>) is an association list: lookup is
  \<^const>\<open>map_of\<close>, insertion \<^const>\<open>AList.update\<close>, removal \<^const>\<open>AList.delete\<close>.  A list fixes one
  iteration order; the theorems quantify over all lists, so they hold for every order the
  hash table may produce.  \<open>hwf\<close> says that no key occurs twice.
  Time stamps (\<^verbatim>\<open>Instant\<close>) and durations are natural numbers; Rust's saturating
  \<^verbatim>\<open>Instant::duration_since\<close> is subtraction on \<^typ>\<open>nat\<close>.
\<close>

type_synonym u8 = "8 word"
type_synonym u16 = "16 word"
type_synonym u32 = "32 word"
type_synonym u64 = "64 word"
type_synonym instant = nat
type_synonym duration = nat

named_theorems hmap_simps
named_theorems inv_defs

section \<open>Hash maps\<close>

type_synonym ('k, 'v) hashmap = "('k \<times> 'v) list"

abbreviation hget :: "('k, 'v) hashmap \<Rightarrow> 'k \<Rightarrow> 'v option" where
  "hget \<equiv> map_of"

abbreviation hput :: "'k \<Rightarrow> 'v \<Rightarrow> ('k, 'v) hashmap \<Rightarrow> ('k, 'v) hashmap" where
  "hput \<equiv> AList.update"

abbreviation hdel :: "'k \<Rightarrow> ('k, 'v) hashmap \<Rightarrow> ('k, 'v) hashmap" where
  "hdel \<equiv> AList.delete"

definition hkeys :: "('k, 'v) hashmap \<Rightarrow> 'k list" where
  "hkeys m = map fst m"

definition hvalues :: "('k, 'v) hashmap \<Rightarrow> 'v list" where
  "hvalues m = map snd m"

definition hretain :: "('k \<Rightarrow> 'v \<Rightarrow> bool) \<Rightarrow> ('k, 'v) hashmap \<Rightarrow> ('k, 'v) hashmap" where
  "hretain P m = filter (\<lambda>(k, v). P k v) m"

definition hwf :: "('k, 'v) hashmap \<Rightarrow> bool" where
  "hwf m = distinct (map fst m)"

lemma hget_hput [simp, hmap_simps]:
  "hget (hput k v m) = (map_of m)(k \<mapsto> v)"
  by (rule update_conv')

lemma hget_hdel [simp, hmap_simps]:
  "hget (hdel k m) = (map_of m)(k := None)"
  by (rule delete_conv')

lemma hdel_absent: "hget m k = None \<Longrightarrow> hdel k m = m"
  by (simp add: map_of_eq_None_iff delete_idem)

lemma hwf_Nil [simp]: "hwf []"
  by (simp add: hwf_def)

lemma hwf_hput [simp]: "hwf m \<Longrightarrow> hwf (hput k v m)"
  unfolding hwf_def by (rule distinct_update)

lemma hwf_hdel [simp]: "hwf m \<Longrightarrow> hwf (hdel k m)"
  unfolding hwf_def by (rule distinct_delete)

lemma hwf_hretain [simp]: "hwf m \<Longrightarrow> hwf (hretain P m)"
  by (simp add: hwf_def hretain_def distinct_map inj_on_def)

lemma hwf_filter [simp]: "hwf m \<Longrightarrow> hwf (filter P m)"
  by (simp add: hwf_def distinct_map inj_on_def)

lemma hget_eq_Some_iff: "hwf m \<Longrightarrow> hget m k = Some v \<longleftrightarrow> (k, v) \<in> set m"
  by (simp add: hwf_def)

lemma set_hkeys: "k \<in> set (hkeys m) \<longleftrightarrow> hget m k \<noteq> None"
  unfolding hkeys_def using map_of_eq_None_iff[of m k] by auto

lemma set_hvalues: "hwf m \<Longrightarrow> v \<in> set (hvalues m) \<longleftrightarrow> (\<exists>k. hget m k = Some v)"
  unfolding hvalues_def by (force simp: hget_eq_Some_iff)

lemma hget_filter:
  "hwf m \<Longrightarrow> hget (filter P m) k =
     (case hget m k of None \<Rightarrow> None | Some v \<Rightarrow> if P (k, v) then Some v else None)"
  by (induction m) (auto simp: hwf_def map_of_eq_None_iff split: option.splits)

lemma hget_hretain [hmap_simps]:
  "hwf m \<Longrightarrow> hget (hretain P m) k =
     (case hget m k of None \<Rightarrow> None | Some v \<Rightarrow> if P k v then Some v else None)"
  by (simp add: hretain_def hget_filter split: option.splits)

lemma hretain_Some:
  "hwf m \<Longrightarrow> hget (hretain P m) k = Some v \<longleftrightarrow> hget m k = Some v \<and> P k v"
  by (auto simp: hget_hretain split: option.splits)

lemma hget_not_in: "k \<notin> fst ` set m \<Longrightarrow> hget m k = None"
  by (simp add: map_of_eq_None_iff)

lemma set_ball_hget:
  "hwf m \<Longrightarrow> (\<forall>(k, v) \<in> set m. Q k v) \<longleftrightarrow> (\<forall>k v. hget m k = Some v \<longrightarrow> Q k v)"
  by (auto simp: hget_eq_Some_iff)

lemma set_bex_hget:
  "hwf m \<Longrightarrow> (\<exists>(k, v) \<in> set m. Q k v) \<longleftrightarrow> (\<exists>k v. hget m k = Some v \<and> Q k v)"
  by (auto simp: hget_eq_Some_iff Bex_def)

lemma length_hput:
  "hwf m \<Longrightarrow> length (hput k v m) = (if hget m k = None then Suc (length m) else length m)"
  by (induction m) (auto simp: hwf_def)

lemma length_hdel_le: "length (hdel k m) \<le> length m"
  by (simp add: AList.delete_eq)

lemma length_hdel:
  "hwf m \<Longrightarrow> hget m k \<noteq> None \<Longrightarrow> Suc (length (hdel k m)) = length m"
proof (induction m)
  case (Cons p m)
  then show ?case
  proof (cases "fst p = k")
    case True
    with Cons.prems have "k \<notin> fst ` set m" by (auto simp: hwf_def)
    then have "hdel k m = m" by (simp add: delete_idem)
    with True show ?thesis by (cases p) simp
  next
    case False
    with Cons show ?thesis by (cases p) (auto simp: hwf_def)
  qed
qed simp

section \<open>Inverse maps\<close>

definition inverse_maps :: "('k \<Rightarrow> 'v option) \<Rightarrow> ('v \<Rightarrow> 'k option) \<Rightarrow> bool" where
  "inverse_maps f g = (\<forall>k v. f k = Some v \<longleftrightarrow> g v = Some k)"

lemma inverse_maps_empty [simp]: "inverse_maps Map.empty Map.empty"
  by (simp add: inverse_maps_def)

lemma inverse_maps_iff:
  "inverse_maps f g \<longleftrightarrow>
     (\<forall>k v. f k = Some v \<longrightarrow> g v = Some k) \<and> (\<forall>v k. g v = Some k \<longrightarrow> f k = Some v)"
  unfolding inverse_maps_def by blast

lemma inverse_mapsD:
  "inverse_maps f g \<Longrightarrow> f k = Some v \<Longrightarrow> g v = Some k"
  "inverse_maps f g \<Longrightarrow> g v = Some k \<Longrightarrow> f k = Some v"
  by (auto simp: inverse_maps_def)

lemma inverse_maps_inj:
  "inverse_maps f g \<Longrightarrow> f k = Some v \<Longrightarrow> f k' = Some v \<Longrightarrow> k = k'"
  by (metis inverse_mapsD(1) option.inject)

lemma inverse_maps_upd:
  "inverse_maps f g \<Longrightarrow> f k = None \<Longrightarrow> g v = None \<Longrightarrow> inverse_maps (f(k \<mapsto> v)) (g(v \<mapsto> k))"
  by (auto simp: inverse_maps_def) (metis option.distinct(1))

lemma inverse_maps_del:
  "inverse_maps f g \<Longrightarrow> f k = Some v \<Longrightarrow> inverse_maps (f(k := None)) (g(v := None))"
  by (auto simp: inverse_maps_def) (metis option.inject)

section \<open>Words\<close>

lemma unat_add_one:
  fixes n :: "'a::len word"
  assumes "n \<noteq> - 1"
  shows "unat (n + 1) = Suc (unat n)"
proof -
  have "1 + n \<noteq> 0" using assms by (metis add_eq_0_iff2 add.commute)
  then show ?thesis using unatSuc[of n] by (simp add: add.commute)
qed

lemma word_less_add_one:
  fixes n v :: "'a::len word"
  shows "n \<noteq> - 1 \<Longrightarrow> v < n \<Longrightarrow> v < n + 1"
  by (simp add: word_less_nat_alt unat_add_one)

lemma word_add_one_gt:
  fixes n :: "'a::len word"
  shows "n \<noteq> - 1 \<Longrightarrow> n < n + 1"
  by (simp add: word_less_nat_alt unat_add_one)

lemma word_add_one_pos:
  fixes n :: "'a::len word"
  shows "n \<noteq> - 1 \<Longrightarrow> 0 < n + 1"
  by (simp add: word_less_nat_alt unat_add_one)

lemma u64_max_eq: "(- 1 :: u64) = 18446744073709551615"
  by simp

lemma u64_room: "unat (n :: u64) + 1 < 2 ^ 64 \<Longrightarrow> n \<noteq> - 1"
  unfolding u64_max_eq by auto

section \<open>Options\<close>

lemma option_bind_Some_iff:
  "Option.bind x f = Some y \<longleftrightarrow> (\<exists>z. x = Some z \<and> f z = Some y)"
  by (cases x) auto

section \<open>Decimal text\<close>

text \<open>The standard library's decimal rendering of an unsigned integer, and the digits it uses.\<close>

definition digit_char :: "nat \<Rightarrow> char" where
  "digit_char d = char_of (48 + d)"

definition digit_value :: "char \<Rightarrow> nat option" where
  "digit_value c = (let n = of_char c :: nat in if 48 \<le> n \<and> n \<le> 57 then Some (n - 48) else None)"

fun dec_string :: "nat \<Rightarrow> string" where
  "dec_string n = (if n < 10 then [digit_char n] else dec_string (n div 10) @ [digit_char (n mod 10)])"

declare dec_string.simps [simp del]

definition dec_value :: "string \<Rightarrow> nat option" where
  "dec_value cs = (if cs = [] then None
     else fold (\<lambda>c acc. Option.bind acc (\<lambda>n. map_option (\<lambda>d. n * 10 + d) (digit_value c))) cs (Some 0))"

lemma digit_value_digit_char [simp]: "d < 10 \<Longrightarrow> digit_value (digit_char d) = Some d"
  by (simp add: digit_value_def digit_char_def Let_def)

lemma dec_string_not_Nil [simp]: "dec_string n \<noteq> []"
  by (subst dec_string.simps) simp

lemma dec_value_dec_string [simp]: "dec_value (dec_string n) = Some n"
proof (induction n rule: dec_string.induct)
  case (1 n)
  show ?case
  proof (cases "n < 10")
    case True
    then show ?thesis by (simp add: dec_string.simps[of n] dec_value_def)
  next
    case False
    then have "dec_value (dec_string (n div 10)) = Some (n div 10)" using 1 by simp
    then show ?thesis using False
      by (simp add: dec_string.simps[of n] dec_value_def)
  qed
qed

lemma dec_string_inj: "dec_string m = dec_string n \<Longrightarrow> m = n"
  by (metis dec_value_dec_string option.inject)

lemma dec_string_digits: "c \<in> set (dec_string n) \<Longrightarrow> \<exists>d < 10. c = digit_char d"
proof (induction n rule: dec_string.induct)
  case (1 n)
  then show ?case
    by (cases "n < 10") (auto simp: dec_string.simps[of n] intro: exI[of _ "n mod 10"])
qed

end
