(* ===== verification/Registry.thy ===== *)
theory Registry
  imports Prelude
begin

text \<open>
  The contract of an identifier registry: a table that hands out client-visible identifiers for
  backend identifiers, returns the existing identifier when the backend one is already bound, and
  resolves in both directions.  \<^verbatim>\<open>HandleMap::insert\<close> and \<^verbatim>\<open>SlotMap::register\<close> both keep it; the
  clients register whole lists (the slot list at start-up, the result of a find), and what they rely
  on is proved here once.
\<close>

locale registry =
  fixes inv :: "'s \<Rightarrow> bool"
    and room :: "nat \<Rightarrow> 's \<Rightarrow> bool"
    and reg :: "'b \<Rightarrow> 's \<Rightarrow> 'v \<times> 's"
    and res :: "'s \<Rightarrow> 'v \<Rightarrow> 'b option"
    and rev_res :: "'s \<Rightarrow> 'b \<Rightarrow> 'v option"
  assumes res_rev: "inv s \<Longrightarrow> res s v = Some b \<longleftrightarrow> rev_res s b = Some v"
    and reg_inv: "inv s \<Longrightarrow> room (Suc n) s \<Longrightarrow> inv (snd (reg b s))"
    and reg_room: "inv s \<Longrightarrow> room (Suc n) s \<Longrightarrow> room n (snd (reg b s))"
    and reg_res: "inv s \<Longrightarrow> room (Suc n) s \<Longrightarrow> res (snd (reg b s)) (fst (reg b s)) = Some b"
    and reg_keeps: "inv s \<Longrightarrow> room (Suc n) s \<Longrightarrow> res s v = Some c \<Longrightarrow>
      res (snd (reg b s)) v = Some c"
    and reg_known: "inv s \<Longrightarrow> rev_res s b = Some v \<Longrightarrow> reg b s = (v, s)"
begin

fun reg_all :: "'b list \<Rightarrow> 's \<Rightarrow> 'v list \<times> 's" where
  "reg_all [] s = ([], s)"
| "reg_all (b # bs) s =
     (let (v, s1) = reg b s; (vs, s2) = reg_all bs s1 in (v # vs, s2))"

lemma reg_all_length: "length (fst (reg_all bs s)) = length bs"
  by (induction bs arbitrary: s) (auto simp: case_prod_beta Let_def)

lemma reg_all_inv: "inv s \<Longrightarrow> room (length bs) s \<Longrightarrow> inv (snd (reg_all bs s))"
proof (induction bs arbitrary: s)
  case (Cons b bs)
  then show ?case
    using Cons.IH[of "snd (reg b s)"] reg_inv[of s "length bs" b] reg_room[of s "length bs" b]
    by (simp add: case_prod_beta Let_def)
qed simp

lemma reg_all_keeps:
  "inv s \<Longrightarrow> room (length bs) s \<Longrightarrow> res s v = Some c \<Longrightarrow> res (snd (reg_all bs s)) v = Some c"
proof (induction bs arbitrary: s)
  case (Cons b bs)
  then show ?case
    using Cons.IH[of "snd (reg b s)"] reg_inv[of s "length bs" b] reg_room[of s "length bs" b]
      reg_keeps[of s "length bs" v c b]
    by (simp add: case_prod_beta Let_def)
qed simp

lemma reg_all_res:
  "inv s \<Longrightarrow> room (length bs) s \<Longrightarrow>
   list_all2 (\<lambda>b v. res (snd (reg_all bs s)) v = Some b) bs (fst (reg_all bs s))"
proof (induction bs arbitrary: s)
  case (Cons b bs)
  let ?s1 = "snd (reg b s)"
  have i: "inv ?s1" "room (length bs) ?s1"
    using Cons.prems reg_inv reg_room by auto
  have "res (snd (reg_all bs ?s1)) (fst (reg b s)) = Some b"
    using reg_all_keeps[OF i] reg_res Cons.prems by auto
  then show ?case using Cons.IH[OF i] by (simp add: case_prod_beta Let_def)
qed simp

lemma res_inj: "inv s \<Longrightarrow> res s v = Some b \<Longrightarrow> res s w = Some b \<Longrightarrow> v = w"
  using res_rev by (metis option.inject)

end

end
