(* ===== verification/Handle_Map.thy ===== *)
theory Handle_Map
  imports Registry
begin

text \<open>
  \<^verbatim>\<open>crates/server/src/server/handle_map.rs\<close>: the per-context table between the handles a client
  sees and the handles of the PKCS#11 module.  A handle whose close is in flight is \<^emph>\<open>suspended\<close>: it
  no longer resolves, but the raw handle is retained until the close settles.

  The theory models every operation, proves that the live table is a bijection whose identifiers
  are never zero and never reissued (while fewer than \<open>2 ^ 64 - 1\<close> have been issued), and refines
  the three hash maps to one abstract table of bindings.
\<close>

datatype BackendHandle = BackendHandle (bh_raw: u64)
datatype VirtualHandle = VirtualHandle (vh_raw: u64)

record HandleMap =
  hm_next_id :: u64
  hm_virtual_to_backend :: "(VirtualHandle, BackendHandle) hashmap"
  hm_backend_to_virtual :: "(BackendHandle, VirtualHandle) hashmap"
  hm_suspended :: "(VirtualHandle, BackendHandle) hashmap"

section \<open>Operations\<close>

definition handle_map_new :: HandleMap where
  "handle_map_new =
     \<lparr>hm_next_id = 1, hm_virtual_to_backend = [], hm_backend_to_virtual = [], hm_suspended = []\<rparr>"

definition handle_map_insert :: "BackendHandle \<Rightarrow> HandleMap \<Rightarrow> VirtualHandle \<times> HandleMap" where
  "handle_map_insert backend m =
     (case hget (hm_backend_to_virtual m) backend of
        Some existing \<Rightarrow> (existing, m)
      | None \<Rightarrow>
          let virt = VirtualHandle (hm_next_id m) in
          (virt, m\<lparr>hm_next_id := hm_next_id m + 1,
                   hm_virtual_to_backend := hput virt backend (hm_virtual_to_backend m),
                   hm_backend_to_virtual := hput backend virt (hm_backend_to_virtual m)\<rparr>))"

definition handle_map_resolve :: "HandleMap \<Rightarrow> VirtualHandle \<Rightarrow> BackendHandle option" where
  "handle_map_resolve m virt = hget (hm_virtual_to_backend m) virt"

definition handle_map_resolve_backend :: "HandleMap \<Rightarrow> BackendHandle \<Rightarrow> VirtualHandle option" where
  "handle_map_resolve_backend m backend = hget (hm_backend_to_virtual m) backend"

definition detach_reverse :: "VirtualHandle \<Rightarrow> BackendHandle \<Rightarrow> HandleMap \<Rightarrow> HandleMap" where
  "detach_reverse virt backend m =
     (if hget (hm_backend_to_virtual m) backend = Some virt
      then m\<lparr>hm_backend_to_virtual := hdel backend (hm_backend_to_virtual m)\<rparr> else m)"

definition handle_map_remove :: "VirtualHandle \<Rightarrow> HandleMap \<Rightarrow> BackendHandle option \<times> HandleMap" where
  "handle_map_remove virt m =
     (let (backend, m1) =
        (case hget (hm_virtual_to_backend m) virt of
           Some b \<Rightarrow> (Some b, m\<lparr>hm_virtual_to_backend := hdel virt (hm_virtual_to_backend m)\<rparr>)
         | None \<Rightarrow> (hget (hm_suspended m) virt,
                    m\<lparr>hm_suspended := hdel virt (hm_suspended m)\<rparr>))
      in case backend of
           Some b \<Rightarrow> (Some b, detach_reverse virt b m1)
         | None \<Rightarrow> (None, m1))"

definition handle_map_suspend :: "VirtualHandle \<Rightarrow> HandleMap \<Rightarrow> BackendHandle option \<times> HandleMap" where
  "handle_map_suspend virt m =
     (case hget (hm_virtual_to_backend m) virt of
        None \<Rightarrow> (None, m)
      | Some backend \<Rightarrow>
          let m1 = detach_reverse virt backend
                     (m\<lparr>hm_virtual_to_backend := hdel virt (hm_virtual_to_backend m)\<rparr>)
          in (Some backend, m1\<lparr>hm_suspended := hput virt backend (hm_suspended m1)\<rparr>))"

definition handle_map_suspended_backend :: "HandleMap \<Rightarrow> VirtualHandle \<Rightarrow> BackendHandle option" where
  "handle_map_suspended_backend m virt = hget (hm_suspended m) virt"

definition handle_map_is_proven_gone :: "HandleMap \<Rightarrow> VirtualHandle \<Rightarrow> bool" where
  "handle_map_is_proven_gone m virt =
     (handle_map_resolve m virt = None \<and> handle_map_suspended_backend m virt = None)"

definition handle_map_reactivate_suspended ::
  "VirtualHandle \<Rightarrow> BackendHandle \<Rightarrow> HandleMap \<Rightarrow> bool \<times> HandleMap" where
  "handle_map_reactivate_suspended virt expected m =
     (if handle_map_suspended_backend m virt \<noteq> Some expected then (False, m)
      else if (case hget (hm_backend_to_virtual m) expected of
                 None \<Rightarrow> False | Some bound \<Rightarrow> bound \<noteq> virt) then (False, m)
      else (True,
            m\<lparr>hm_suspended := hdel virt (hm_suspended m),
              hm_virtual_to_backend := hput virt expected (hm_virtual_to_backend m),
              hm_backend_to_virtual := hput expected virt (hm_backend_to_virtual m)\<rparr>))"

definition handle_map_clear :: "HandleMap \<Rightarrow> HandleMap" where
  "handle_map_clear m =
     m\<lparr>hm_virtual_to_backend := [], hm_backend_to_virtual := [], hm_suspended := []\<rparr>"

definition handle_map_virtual_handles :: "HandleMap \<Rightarrow> VirtualHandle list" where
  "handle_map_virtual_handles m = hkeys (hm_virtual_to_backend m)"

definition handle_map_backend_handles :: "HandleMap \<Rightarrow> BackendHandle list" where
  "handle_map_backend_handles m =
     remdups (hvalues (hm_virtual_to_backend m) @ hvalues (hm_suspended m))"

definition handle_map_references_backend :: "HandleMap \<Rightarrow> BackendHandle \<Rightarrow> bool" where
  "handle_map_references_backend m backend =
     (hget (hm_backend_to_virtual m) backend \<noteq> None
      \<or> list_ex (\<lambda>b. b = backend) (hvalues (hm_suspended m)))"

section \<open>The invariant\<close>

text \<open>
  The two live maps are inverse to each other, a suspended handle is not live, and every
  identifier in use is non-zero and below the next one to issue.
\<close>

definition issued :: "HandleMap \<Rightarrow> VirtualHandle \<Rightarrow> bool" where
  "issued m virt = (0 < vh_raw virt \<and> vh_raw virt < hm_next_id m)"

definition handle_map_inv :: "HandleMap \<Rightarrow> bool" where
  "handle_map_inv m =
     (hwf (hm_virtual_to_backend m) \<and> hwf (hm_backend_to_virtual m) \<and> hwf (hm_suspended m)
      \<and> (\<forall>(v, b) \<in> set (hm_virtual_to_backend m). hget (hm_backend_to_virtual m) b = Some v)
      \<and> (\<forall>(b, v) \<in> set (hm_backend_to_virtual m). hget (hm_virtual_to_backend m) v = Some b)
      \<and> (\<forall>(v, b) \<in> set (hm_suspended m). hget (hm_virtual_to_backend m) v = None)
      \<and> (\<forall>(v, b) \<in> set (hm_virtual_to_backend m). issued m v)
      \<and> (\<forall>(v, b) \<in> set (hm_suspended m). issued m v)
      \<and> 0 < hm_next_id m)"

lemma handle_map_inv_iff:
  "handle_map_inv m \<longleftrightarrow>
     hwf (hm_virtual_to_backend m) \<and> hwf (hm_backend_to_virtual m) \<and> hwf (hm_suspended m)
     \<and> inverse_maps (hget (hm_virtual_to_backend m)) (hget (hm_backend_to_virtual m))
     \<and> (\<forall>v b. hget (hm_suspended m) v = Some b \<longrightarrow> hget (hm_virtual_to_backend m) v = None)
     \<and> (\<forall>v b. hget (hm_virtual_to_backend m) v = Some b \<longrightarrow> issued m v)
     \<and> (\<forall>v b. hget (hm_suspended m) v = Some b \<longrightarrow> issued m v)
     \<and> 0 < hm_next_id m"
proof (cases "hwf (hm_virtual_to_backend m) \<and> hwf (hm_backend_to_virtual m) \<and> hwf (hm_suspended m)")
  case True
  then have wf: "hwf (hm_virtual_to_backend m)" "hwf (hm_backend_to_virtual m)" "hwf (hm_suspended m)"
    by auto
  show ?thesis
    unfolding handle_map_inv_def inverse_maps_iff set_ball_hget[OF wf(1)] set_ball_hget[OF wf(2)]
      set_ball_hget[OF wf(3)] by (simp only: conj_assoc)
next
  case False
  then show ?thesis unfolding handle_map_inv_def by argo
qed

lemma handle_map_inv_wf:
  assumes "handle_map_inv m"
  shows "hwf (hm_virtual_to_backend m)" "hwf (hm_backend_to_virtual m)" "hwf (hm_suspended m)"
    "0 < hm_next_id m"
  using assms unfolding handle_map_inv_iff by simp_all

lemma handle_map_inv_inverse:
  "handle_map_inv m \<Longrightarrow>
   inverse_maps (hget (hm_virtual_to_backend m)) (hget (hm_backend_to_virtual m))"
  unfolding handle_map_inv_iff by simp

lemma handle_map_inv_reverse:
  "handle_map_inv m \<Longrightarrow> hget (hm_virtual_to_backend m) v = Some b \<Longrightarrow>
   hget (hm_backend_to_virtual m) b = Some v"
  by (rule inverse_mapsD(1)[OF handle_map_inv_inverse])

lemma handle_map_inv_forward:
  "handle_map_inv m \<Longrightarrow> hget (hm_backend_to_virtual m) b = Some v \<Longrightarrow>
   hget (hm_virtual_to_backend m) v = Some b"
  by (rule inverse_mapsD(2)[OF handle_map_inv_inverse])

lemma handle_map_inv_suspended:
  "handle_map_inv m \<Longrightarrow> hget (hm_suspended m) v = Some b \<Longrightarrow> hget (hm_virtual_to_backend m) v = None"
  unfolding handle_map_inv_iff by simp

lemma handle_map_inv_live:
  "handle_map_inv m \<Longrightarrow> hget (hm_virtual_to_backend m) v = Some b \<Longrightarrow> hget (hm_suspended m) v = None"
  by (metis handle_map_inv_suspended not_Some_eq)

lemma handle_map_inv_issued:
  "handle_map_inv m \<Longrightarrow> hget (hm_virtual_to_backend m) v = Some b \<Longrightarrow> issued m v"
  "handle_map_inv m \<Longrightarrow> hget (hm_suspended m) v = Some b \<Longrightarrow> issued m v"
  unfolding handle_map_inv_iff by simp_all

lemma issued_cong: "hm_next_id m = hm_next_id m' \<Longrightarrow> issued m v = issued m' v"
  by (simp add: issued_def)

lemma handle_map_invI:
  assumes "hwf (hm_virtual_to_backend m)" "hwf (hm_backend_to_virtual m)" "hwf (hm_suspended m)"
    and "inverse_maps (hget (hm_virtual_to_backend m)) (hget (hm_backend_to_virtual m))"
    and "\<And>v b. hget (hm_suspended m) v = Some b \<Longrightarrow> hget (hm_virtual_to_backend m) v = None"
    and "\<And>v b. hget (hm_virtual_to_backend m) v = Some b \<Longrightarrow> issued m v"
    and "\<And>v b. hget (hm_suspended m) v = Some b \<Longrightarrow> issued m v"
    and "0 < hm_next_id m"
  shows "handle_map_inv m"
  using assms unfolding handle_map_inv_iff by simp

lemma issued_fresh: "\<not> issued m (VirtualHandle (hm_next_id m))"
  by (simp add: issued_def)

lemma handle_map_inv_next:
  assumes "handle_map_inv m"
  shows "hget (hm_virtual_to_backend m) (VirtualHandle (hm_next_id m)) = None"
    and "hget (hm_suspended m) (VirtualHandle (hm_next_id m)) = None"
  using handle_map_inv_issued[OF assms] issued_fresh[of m] by (metis not_Some_eq)+

lemma handle_map_new_inv: "handle_map_inv handle_map_new"
  by (simp add: handle_map_inv_def handle_map_new_def)

text \<open>The branches of the mutators under the invariant, as simplification rules.\<close>

lemma handle_map_insert_known:
  "hget (hm_backend_to_virtual m) b = Some v \<Longrightarrow> handle_map_insert b m = (v, m)"
  by (simp add: handle_map_insert_def)

lemma handle_map_insert_new:
  "hget (hm_backend_to_virtual m) b = None \<Longrightarrow> handle_map_insert b m =
     (VirtualHandle (hm_next_id m),
      m\<lparr>hm_next_id := hm_next_id m + 1,
        hm_virtual_to_backend := hput (VirtualHandle (hm_next_id m)) b (hm_virtual_to_backend m),
        hm_backend_to_virtual := hput b (VirtualHandle (hm_next_id m)) (hm_backend_to_virtual m)\<rparr>)"
  by (simp add: handle_map_insert_def Let_def)

lemma handle_map_remove_live:
  "handle_map_inv m \<Longrightarrow> hget (hm_virtual_to_backend m) v = Some b \<Longrightarrow> handle_map_remove v m =
     (Some b, m\<lparr>hm_virtual_to_backend := hdel v (hm_virtual_to_backend m),
                hm_backend_to_virtual := hdel b (hm_backend_to_virtual m)\<rparr>)"
  by (simp add: handle_map_remove_def detach_reverse_def handle_map_inv_reverse)

lemma handle_map_remove_suspended:
  "handle_map_inv m \<Longrightarrow> hget (hm_suspended m) v = Some b \<Longrightarrow> handle_map_remove v m =
     (Some b, m\<lparr>hm_suspended := hdel v (hm_suspended m)\<rparr>)"
  using handle_map_inv_suspended[of m v b] handle_map_inv_forward[of m b v]
  by (auto simp add: handle_map_remove_def detach_reverse_def)

lemma handle_map_remove_unknown:
  "hget (hm_virtual_to_backend m) v = None \<Longrightarrow> hget (hm_suspended m) v = None \<Longrightarrow>
   handle_map_remove v m = (None, m)"
  by (simp add: handle_map_remove_def hdel_absent)

lemma handle_map_suspend_live:
  "handle_map_inv m \<Longrightarrow> hget (hm_virtual_to_backend m) v = Some b \<Longrightarrow> handle_map_suspend v m =
     (Some b, m\<lparr>hm_virtual_to_backend := hdel v (hm_virtual_to_backend m),
                hm_backend_to_virtual := hdel b (hm_backend_to_virtual m),
                hm_suspended := hput v b (hm_suspended m)\<rparr>)"
  by (simp add: handle_map_suspend_def detach_reverse_def handle_map_inv_reverse Let_def)

lemma handle_map_suspend_unknown:
  "hget (hm_virtual_to_backend m) v = None \<Longrightarrow> handle_map_suspend v m = (None, m)"
  by (simp add: handle_map_suspend_def)

lemma handle_map_reactivate_ok:
  "hget (hm_suspended m) v = Some b \<Longrightarrow> hget (hm_backend_to_virtual m) b = None \<Longrightarrow>
   handle_map_reactivate_suspended v b m =
     (True, m\<lparr>hm_suspended := hdel v (hm_suspended m),
              hm_virtual_to_backend := hput v b (hm_virtual_to_backend m),
              hm_backend_to_virtual := hput b v (hm_backend_to_virtual m)\<rparr>)"
  by (simp add: handle_map_reactivate_suspended_def handle_map_suspended_backend_def)

lemma handle_map_reactivate_refused:
  "handle_map_inv m \<Longrightarrow> hget (hm_suspended m) v \<noteq> Some b \<or> hget (hm_backend_to_virtual m) b \<noteq> None \<Longrightarrow>
   handle_map_reactivate_suspended v b m = (False, m)"
  using handle_map_inv_live[of m v b] handle_map_inv_forward[of m b v]
  by (auto simp add: handle_map_reactivate_suspended_def handle_map_suspended_backend_def
      split: option.splits)

lemmas handle_map_inv_facts =
  handle_map_inv_wf handle_map_inv_inverse handle_map_inv_suspended handle_map_inv_issued

lemma handle_map_insert_inv:
  assumes inv: "handle_map_inv m" and room: "hm_next_id m \<noteq> - 1"
  shows "handle_map_inv (snd (handle_map_insert b m))"
proof (cases "hget (hm_backend_to_virtual m) b")
  case None
  have keep: "\<And>v. issued m v \<Longrightarrow> 0 < vh_raw v \<and> vh_raw v < hm_next_id m + 1"
    using room by (simp add: issued_def word_less_add_one)
  show ?thesis
    using None handle_map_inv_facts[OF inv] keep handle_map_inv_next[OF inv]
    by (intro handle_map_invI)
      (auto simp: handle_map_insert_new inverse_maps_upd issued_def word_add_one_pos[OF room]
        word_add_one_gt[OF room] split: if_splits)
qed (simp add: handle_map_insert_known inv)

lemma handle_map_remove_inv:
  assumes inv: "handle_map_inv m"
  shows "handle_map_inv (snd (handle_map_remove v m))"
proof -
  consider (live) b where "hget (hm_virtual_to_backend m) v = Some b"
    | (susp) b where "hget (hm_suspended m) v = Some b"
    | (none) "hget (hm_virtual_to_backend m) v = None" "hget (hm_suspended m) v = None"
    by fastforce
  then show ?thesis
  proof cases
    case live
    with handle_map_inv_facts[OF inv] inverse_maps_del[OF handle_map_inv_inverse[OF inv] live]
    show ?thesis
      by (intro handle_map_invI)
        (auto simp: handle_map_remove_live[OF inv] issued_def split: if_splits)
  next
    case susp
    with handle_map_inv_facts[OF inv] show ?thesis
      by (intro handle_map_invI)
        (auto simp: handle_map_remove_suspended[OF inv] issued_def split: if_splits)
  qed (simp add: handle_map_remove_unknown inv)
qed

lemma handle_map_suspend_inv:
  assumes inv: "handle_map_inv m"
  shows "handle_map_inv (snd (handle_map_suspend v m))"
proof (cases "hget (hm_virtual_to_backend m) v")
  case (Some b)
  with handle_map_inv_facts[OF inv] inverse_maps_del[OF handle_map_inv_inverse[OF inv] Some]
  show ?thesis
    by (intro handle_map_invI)
      (auto simp: handle_map_suspend_live[OF inv] issued_def split: if_splits)
qed (simp add: handle_map_suspend_unknown inv)

lemma handle_map_reactivate_inv:
  assumes inv: "handle_map_inv m"
  shows "handle_map_inv (snd (handle_map_reactivate_suspended v b m))"
proof (cases "hget (hm_suspended m) v = Some b \<and> hget (hm_backend_to_virtual m) b = None")
  case True
  with handle_map_inv_facts[OF inv]
    inverse_maps_upd[OF handle_map_inv_inverse[OF inv], of v b]
  show ?thesis
    by (intro handle_map_invI) (auto simp: handle_map_reactivate_ok issued_def split: if_splits)
qed (use handle_map_reactivate_refused[OF inv] inv in auto)

lemma handle_map_clear_inv: "handle_map_inv m \<Longrightarrow> handle_map_inv (handle_map_clear m)"
  by (simp add: handle_map_inv_def handle_map_clear_def)

section \<open>The registry contract\<close>

definition handle_map_room :: "nat \<Rightarrow> HandleMap \<Rightarrow> bool" where
  "handle_map_room n m = (unat (hm_next_id m) + n < 2 ^ 64)"

lemma handle_map_room_next: "handle_map_room (Suc n) m \<Longrightarrow> hm_next_id m \<noteq> - 1"
  unfolding handle_map_room_def by (rule u64_room) simp

lemma handle_map_insert_room:
  "handle_map_room (Suc n) m \<Longrightarrow> handle_map_room n (snd (handle_map_insert b m))"
  using unat_add_one[OF handle_map_room_next, of n m]
  by (auto simp: handle_map_insert_def handle_map_room_def Let_def split: option.splits)

interpretation hm: registry handle_map_inv handle_map_room handle_map_insert handle_map_resolve
  handle_map_resolve_backend
proof
  fix m :: HandleMap and n v b c
  assume inv: "handle_map_inv m"
  show "(handle_map_resolve m v = Some b) = (handle_map_resolve_backend m b = Some v)"
    using handle_map_inv_inverse[OF inv]
    by (simp add: handle_map_resolve_def handle_map_resolve_backend_def inverse_maps_def)
  show "handle_map_resolve_backend m b = Some v \<Longrightarrow> handle_map_insert b m = (v, m)"
    by (simp add: handle_map_resolve_backend_def handle_map_insert_known)
  assume room: "handle_map_room (Suc n) m"
  show "handle_map_inv (snd (handle_map_insert b m))"
    by (rule handle_map_insert_inv[OF inv handle_map_room_next[OF room]])
  show "handle_map_room n (snd (handle_map_insert b m))"
    by (rule handle_map_insert_room[OF room])
  show "handle_map_resolve (snd (handle_map_insert b m)) (fst (handle_map_insert b m)) = Some b"
    using handle_map_inv_forward[OF inv]
    by (auto simp: handle_map_insert_def handle_map_resolve_def Let_def split: option.splits)
  show "handle_map_resolve (snd (handle_map_insert b m)) v = Some c"
    if "handle_map_resolve m v = Some c"
    using that handle_map_inv_next[OF inv]
    by (auto simp: handle_map_insert_def handle_map_resolve_def Let_def split: option.splits)
qed

section \<open>Histories of a table\<close>

text \<open>
  Every mutation a context performs on its table.  \<open>handle_map_run\<close> is a history from a given
  table; it stands for any interleaving of the callers, which all hold the context's lock.
\<close>

datatype handle_op =
    HInsert BackendHandle
  | HRemove VirtualHandle
  | HSuspend VirtualHandle
  | HReactivate VirtualHandle BackendHandle
  | HClear

fun handle_map_step :: "handle_op \<Rightarrow> HandleMap \<Rightarrow> HandleMap" where
  "handle_map_step (HInsert b) m = snd (handle_map_insert b m)"
| "handle_map_step (HRemove v) m = snd (handle_map_remove v m)"
| "handle_map_step (HSuspend v) m = snd (handle_map_suspend v m)"
| "handle_map_step (HReactivate v b) m = snd (handle_map_reactivate_suspended v b m)"
| "handle_map_step HClear m = handle_map_clear m"

definition handle_map_run :: "handle_op list \<Rightarrow> HandleMap \<Rightarrow> HandleMap" where
  "handle_map_run ops m = fold handle_map_step ops m"

definition handle_map_binding :: "HandleMap \<Rightarrow> VirtualHandle \<Rightarrow> BackendHandle option" where
  "handle_map_binding m v =
     (case handle_map_resolve m v of
        Some b \<Rightarrow> Some b | None \<Rightarrow> handle_map_suspended_backend m v)"

lemma handle_map_run_simps [simp]:
  "handle_map_run [] m = m"
  "handle_map_run (x # xs) m = handle_map_run xs (handle_map_step x m)"
  "handle_map_run (xs @ ys) m = handle_map_run ys (handle_map_run xs m)"
  by (simp_all add: handle_map_run_def)

lemma handle_map_step_next_id:
  "hm_next_id (handle_map_step op m) = hm_next_id m \<or>
   hm_next_id (handle_map_step op m) = hm_next_id m + 1"
  by (cases op) (auto simp: handle_map_insert_def handle_map_remove_def handle_map_suspend_def
      detach_reverse_def handle_map_reactivate_suspended_def handle_map_clear_def Let_def
      split: option.splits)

lemma handle_map_step_inv:
  assumes "handle_map_inv m" "handle_map_room (Suc n) m"
  shows "handle_map_inv (handle_map_step op m) \<and> handle_map_room n (handle_map_step op m)"
proof
  show "handle_map_inv (handle_map_step op m)"
    using assms by (cases op) (simp_all add: handle_map_insert_inv handle_map_remove_inv
        handle_map_suspend_inv handle_map_reactivate_inv handle_map_clear_inv handle_map_room_next)
  show "handle_map_room n (handle_map_step op m)"
    using handle_map_step_next_id[of op m] unat_add_one[OF handle_map_room_next[OF assms(2)]]
      assms(2) by (auto simp: handle_map_room_def)
qed

lemma handle_map_run_inv:
  "handle_map_inv m \<Longrightarrow> handle_map_room (length ops + n) m \<Longrightarrow>
   handle_map_inv (handle_map_run ops m) \<and> handle_map_room n (handle_map_run ops m)"
proof (induction ops arbitrary: m)
  case (Cons op ops)
  then show ?case using handle_map_step_inv[of m "length ops + n" op] by simp
qed simp

lemma handle_map_step_issued:
  "handle_map_room (Suc n) m \<Longrightarrow> issued m v \<Longrightarrow> issued (handle_map_step op m) v"
  using handle_map_step_next_id[of op m] handle_map_room_next[of n m]
  by (auto simp: issued_def word_less_add_one)

lemma handle_map_binding_issued:
  "handle_map_inv m \<Longrightarrow> handle_map_binding m v = Some b \<Longrightarrow> issued m v"
  by (auto simp: handle_map_binding_def handle_map_resolve_def handle_map_suspended_backend_def
      intro: handle_map_inv_issued split: option.splits)

text \<open>An identifier issued earlier never acquires a binding it did not have.\<close>

lemma handle_map_binding_alt:
  "handle_map_binding m v =
     (case hget (hm_virtual_to_backend m) v of
        Some b \<Rightarrow> Some b | None \<Rightarrow> hget (hm_suspended m) v)"
  by (simp add: handle_map_binding_def handle_map_resolve_def handle_map_suspended_backend_def
      split: option.split)

lemma handle_map_remove_binding:
  "handle_map_inv m \<Longrightarrow>
   handle_map_binding (snd (handle_map_remove w m)) = (handle_map_binding m)(w := None)"
  using handle_map_inv_live[of m w]
  by (auto simp: handle_map_binding_alt handle_map_remove_def detach_reverse_def fun_eq_iff
      split: option.splits)

lemma handle_map_suspend_binding:
  "handle_map_binding (snd (handle_map_suspend w m)) = handle_map_binding m"
  by (auto simp: handle_map_binding_alt handle_map_suspend_def detach_reverse_def fun_eq_iff Let_def
      split: option.splits)

lemma handle_map_reactivate_binding:
  "handle_map_inv m \<Longrightarrow>
   handle_map_binding (snd (handle_map_reactivate_suspended w b m)) = handle_map_binding m"
  using handle_map_inv_suspended[of m w b]
  by (auto simp: handle_map_binding_alt handle_map_reactivate_suspended_def fun_eq_iff
      handle_map_suspended_backend_def split: option.splits)

lemma handle_map_insert_binding:
  "v \<noteq> VirtualHandle (hm_next_id m) \<Longrightarrow>
   handle_map_binding (snd (handle_map_insert b m)) v = handle_map_binding m v"
  by (auto simp: handle_map_binding_alt handle_map_insert_def Let_def split: option.splits)

lemma handle_map_clear_binding: "handle_map_binding (handle_map_clear m) v = None"
  by (simp add: handle_map_binding_alt handle_map_clear_def)

lemma handle_map_step_binding:
  assumes inv: "handle_map_inv m" and iss: "issued m v"
    and b: "handle_map_binding (handle_map_step op m) v = Some b"
  shows "handle_map_binding m v = Some b"
proof -
  have "v \<noteq> VirtualHandle (hm_next_id m)" using iss issued_fresh by blast
  then show ?thesis
    using b by (cases op) (auto simp: handle_map_remove_binding[OF inv] handle_map_suspend_binding
        handle_map_reactivate_binding[OF inv] handle_map_insert_binding handle_map_clear_binding
        split: if_splits)
qed

lemma handle_map_run_binding:
  "handle_map_inv m \<Longrightarrow> handle_map_room (length ops) m \<Longrightarrow> issued m v \<Longrightarrow>
   handle_map_binding (handle_map_run ops m) v = Some b \<Longrightarrow> handle_map_binding m v = Some b"
proof (induction ops arbitrary: m)
  case (Cons op ops)
  have "handle_map_binding (handle_map_step op m) v = Some b"
    using Cons.IH[of "handle_map_step op m"] Cons.prems handle_map_step_inv[of m "length ops" op]
      handle_map_step_issued[of "length ops" m v op] by simp
  then show ?case by (rule handle_map_step_binding[OF Cons.prems(1,3)])
qed simp

section \<open>Refinement to one table of bindings\<close>

datatype handle_status = Live | Suspended

type_synonym handle_table = "VirtualHandle \<Rightarrow> (BackendHandle \<times> handle_status) option"

definition handle_abs :: "HandleMap \<Rightarrow> handle_table" where
  "handle_abs m v =
     (case hget (hm_virtual_to_backend m) v of
        Some b \<Rightarrow> Some (b, Live)
      | None \<Rightarrow> map_option (\<lambda>b. (b, Suspended)) (hget (hm_suspended m) v))"

definition bound_live :: "handle_table \<Rightarrow> BackendHandle \<Rightarrow> bool" where
  "bound_live t b = (\<exists>v. t v = Some (b, Live))"

fun spec_step :: "VirtualHandle \<Rightarrow> handle_op \<Rightarrow> handle_table \<Rightarrow> handle_table" where
  "spec_step fresh (HInsert b) t = (if bound_live t b then t else t(fresh \<mapsto> (b, Live)))"
| "spec_step fresh (HRemove v) t = t(v := None)"
| "spec_step fresh (HSuspend v) t =
     (case t v of Some (b, Live) \<Rightarrow> t(v \<mapsto> (b, Suspended)) | _ \<Rightarrow> t)"
| "spec_step fresh (HReactivate v b) t =
     (if t v = Some (b, Suspended) \<and> \<not> bound_live t b then t(v \<mapsto> (b, Live)) else t)"
| "spec_step fresh HClear t = Map.empty"

lemma handle_abs_Live: "handle_abs m v = Some (b, Live) \<longleftrightarrow> hget (hm_virtual_to_backend m) v = Some b"
  by (auto simp: handle_abs_def split: option.splits)

lemma bound_live_abs:
  assumes "handle_map_inv m"
  shows "bound_live (handle_abs m) b \<longleftrightarrow> hget (hm_backend_to_virtual m) b \<noteq> None"
  using handle_map_inv_inverse[OF assms]
  unfolding bound_live_def handle_abs_Live inverse_maps_def by (metis not_Some_eq)

lemma handle_abs_insert:
  assumes "handle_map_inv m"
  shows "handle_abs (snd (handle_map_insert b m)) =
    spec_step (VirtualHandle (hm_next_id m)) (HInsert b) (handle_abs m)"
proof (cases "hget (hm_backend_to_virtual m) b")
  case None
  then show ?thesis
    using bound_live_abs[OF assms, of b] handle_map_inv_next[OF assms]
    by (auto simp: handle_map_insert_new handle_abs_def fun_eq_iff split: option.split)
next
  case (Some v)
  then show ?thesis using bound_live_abs[OF assms, of b] by (simp add: handle_map_insert_known)
qed

lemma handle_abs_remove:
  assumes "handle_map_inv m"
  shows "handle_abs (snd (handle_map_remove v m)) = (handle_abs m)(v := None)"
  using handle_map_inv_live[OF assms, of v]
  by (auto simp: handle_abs_def handle_map_remove_def detach_reverse_def fun_eq_iff
      split: option.splits)

lemma handle_abs_suspend:
  "handle_abs (snd (handle_map_suspend v m)) = spec_step f (HSuspend v) (handle_abs m)"
  by (auto simp: handle_abs_def handle_map_suspend_def detach_reverse_def fun_eq_iff Let_def
      split: option.splits)

lemma handle_abs_reactivate:
  assumes inv: "handle_map_inv m"
  shows "handle_abs (snd (handle_map_reactivate_suspended v b m)) =
    spec_step f (HReactivate v b) (handle_abs m)"
proof (cases "hget (hm_suspended m) v = Some b \<and> hget (hm_backend_to_virtual m) b = None")
  case True
  then show ?thesis
    using bound_live_abs[OF inv, of b] handle_map_inv_suspended[OF inv, of v b]
    by (auto simp: handle_map_reactivate_ok handle_abs_def fun_eq_iff split: option.split)
next
  case False
  have "handle_abs m v = Some (b, Suspended) \<Longrightarrow> hget (hm_suspended m) v = Some b"
    by (auto simp: handle_abs_def split: option.splits)
  with False show ?thesis
    using bound_live_abs[OF inv, of b] handle_map_reactivate_refused[OF inv, of v b] by auto
qed

section \<open>Properties\<close>

text \<open>
  C1.  Virtual handles are never recycled: if a handle stands for one backend object at some moment
  of a table's history (live or with its close in flight) and still stands for something at a later
  moment, it stands for the same backend object.  The history may interleave inserts, closes,
  suspensions, reactivations and clears in any way, as long as fewer than \<open>2 ^ 64 - 1\<close> steps are
  taken, so that the identifier counter has not wrapped.
\<close>
theorem handle_never_rebound:
  assumes "length before + length after < 2 ^ 64 - 1"
    and "handle_map_binding (handle_map_run before handle_map_new) v = Some b"
    and "handle_map_binding (handle_map_run (before @ after) handle_map_new) v = Some c"
  shows "c = b"
proof -
  let ?m = "handle_map_run before handle_map_new"
  have "handle_map_room (length before + length after) handle_map_new"
    using assms(1) by (simp add: handle_map_room_def handle_map_new_def)
  then have m: "handle_map_inv ?m" "handle_map_room (length after) ?m"
    using handle_map_run_inv[OF handle_map_new_inv] by auto
  have "handle_map_binding ?m v = Some c"
    using assms(3) handle_map_run_binding[OF m handle_map_binding_issued[OF m(1) assms(2)]] by simp
  with assms(2) show ?thesis by simp
qed

theorem handle_never_rebound_witness:
  "handle_map_binding (handle_map_run ([HInsert (BackendHandle 7)] @ [HSuspend (VirtualHandle 1),
     HInsert (BackendHandle 7), HReactivate (VirtualHandle 1) (BackendHandle 7)]) handle_map_new)
     (VirtualHandle 1) = Some (BackendHandle 7)"
proof -
  let ?before = "[HInsert (BackendHandle 7)]"
  let ?after = "[HSuspend (VirtualHandle 1), HInsert (BackendHandle 7),
    HReactivate (VirtualHandle 1) (BackendHandle 7)]"
  have 1: "handle_map_binding (handle_map_run ?before handle_map_new) (VirtualHandle 1) =
      Some (BackendHandle 7)"
    by code_simp
  have "handle_map_binding (handle_map_run (?before @ ?after) handle_map_new) (VirtualHandle 1) \<noteq> None"
    by code_simp
  then obtain c where
    2: "handle_map_binding (handle_map_run (?before @ ?after) handle_map_new) (VirtualHandle 1) = Some c"
    by blast
  have "c = BackendHandle 7"
    by (rule handle_never_rebound[OF _ 1 2]) simp
  with 2 show ?thesis by simp
qed

text \<open>
  C7.  The three hash maps implement one table of bindings.  Every mutation, on a well-formed table,
  acts on the abstraction as the specification says: an insert binds the fresh identifier unless the
  backend handle is already live; a suspension only changes the status; a reactivation takes effect
  only when exactly that suspended binding is present and the backend handle has not been bound to
  another live identifier meanwhile, so that a late close completion cannot steal a recycled handle.
\<close>
theorem handle_map_refines:
  assumes "handle_map_inv m"
  shows "handle_abs (handle_map_step op m) =
    spec_step (VirtualHandle (hm_next_id m)) op (handle_abs m)"
proof (cases op)
  case HInsert
  with handle_abs_insert[OF assms] show ?thesis by (simp only: handle_map_step.simps)
next
  case HRemove
  with handle_abs_remove[OF assms] show ?thesis by simp
next
  case HSuspend
  with handle_abs_suspend show ?thesis by (simp only: handle_map_step.simps)
next
  case HReactivate
  with handle_abs_reactivate[OF assms] show ?thesis by (simp only: handle_map_step.simps)
next
  case HClear
  then show ?thesis by (simp add: handle_abs_def handle_map_clear_def fun_eq_iff)
qed

theorem handle_map_refines_witness:
  "handle_abs (handle_map_step (HInsert (BackendHandle 7)) handle_map_new) (VirtualHandle 1)
     = Some (BackendHandle 7, Live)"
proof -
  have "\<not> bound_live (handle_abs handle_map_new) (BackendHandle 7)"
    by (simp add: bound_live_def handle_abs_def handle_map_new_def)
  then show ?thesis
    unfolding handle_map_refines[OF handle_map_new_inv] by (simp add: handle_map_new_def)
qed

text \<open>
   The table is a bijection at every moment: starting from an empty table, after any history of
  fewer than \<open>2 ^ 64 - 1\<close> mutations a client handle resolves to a backend handle exactly when the
  reverse lookup of that backend handle gives the client handle, no live handle is zero
  (\<^verbatim>\<open>CK_INVALID_HANDLE\<close>), and no handle is live and suspended at once.
\<close>
theorem handle_map_bijective:
  assumes "length ops < 2 ^ 64 - 1"
  defines "m \<equiv> handle_map_run ops handle_map_new"
  shows "(handle_map_resolve m v = Some b \<longleftrightarrow> handle_map_resolve_backend m b = Some v)
    \<and> (handle_map_binding m v \<noteq> None \<longrightarrow> vh_raw v \<noteq> 0)
    \<and> (handle_map_resolve m v = None \<or> handle_map_suspended_backend m v = None)"
proof -
  have "handle_map_room (length ops + 0) handle_map_new"
    using assms(1) by (simp add: handle_map_room_def handle_map_new_def)
  then have inv: "handle_map_inv m"
    unfolding m_def using handle_map_run_inv[OF handle_map_new_inv] by blast
  have "handle_map_resolve m v = None \<or> handle_map_suspended_backend m v = None"
    using handle_map_inv_suspended[OF inv, of v]
    by (cases "handle_map_suspended_backend m v")
      (auto simp: handle_map_resolve_def handle_map_suspended_backend_def)
  then show ?thesis
    using hm.res_rev[OF inv, of v b] handle_map_binding_issued[OF inv, of v]
    by (auto simp: issued_def)
qed

theorem handle_map_bijective_witness:
  "handle_map_resolve_backend (handle_map_run [HInsert (BackendHandle 9)] handle_map_new)
     (BackendHandle 9) = Some (VirtualHandle 1)"
proof -
  have "handle_map_resolve (handle_map_run [HInsert (BackendHandle 9)] handle_map_new)
      (VirtualHandle 1) = Some (BackendHandle 9)"
    by code_simp
  then show ?thesis
    using handle_map_bijective[of "[HInsert (BackendHandle 9)]" "VirtualHandle 1" "BackendHandle 9"]
    by simp
qed

end
