(* ===== verification/Slot_Map.thy ===== *)
theory Slot_Map
  imports Registry
begin

text \<open>
  \<^verbatim>\<open>crates/server/src/server/slot_map.rs\<close>: the daemon-wide table between the slot identifiers on
  the wire and the provider's slot identifiers.  Slots are registered when the provider's slot list
  is read (\<^verbatim>\<open>ContextManager::populate_slots\<close>) or the first time a slot event names them; they are
  never removed.
\<close>

datatype VirtualSlotId = VirtualSlotId (vs_raw: u64)
datatype BackendSlotId = BackendSlotId (bs_raw: u64)

record SlotMap =
  sm_virtual_to_backend :: "(VirtualSlotId, BackendSlotId) hashmap"
  sm_backend_to_virtual :: "(BackendSlotId, VirtualSlotId) hashmap"
  sm_next_virtual :: u64

definition slot_map_new :: SlotMap where
  "slot_map_new =
     \<lparr>sm_virtual_to_backend = [], sm_backend_to_virtual = [], sm_next_virtual = 1\<rparr>"

definition slot_map_register :: "BackendSlotId \<Rightarrow> SlotMap \<Rightarrow> VirtualSlotId \<times> SlotMap" where
  "slot_map_register backend_slot m =
     (case hget (sm_backend_to_virtual m) backend_slot of
        Some existing \<Rightarrow> (existing, m)
      | None \<Rightarrow>
          let virtual_id = VirtualSlotId (sm_next_virtual m) in
          (virtual_id,
           m\<lparr>sm_next_virtual := sm_next_virtual m + 1,
             sm_virtual_to_backend := hput virtual_id backend_slot (sm_virtual_to_backend m),
             sm_backend_to_virtual := hput backend_slot virtual_id (sm_backend_to_virtual m)\<rparr>))"

definition slot_map_resolve :: "SlotMap \<Rightarrow> VirtualSlotId \<Rightarrow> BackendSlotId option" where
  "slot_map_resolve m virtual_slot = hget (sm_virtual_to_backend m) virtual_slot"

definition slot_map_to_virtual :: "SlotMap \<Rightarrow> BackendSlotId \<Rightarrow> VirtualSlotId option" where
  "slot_map_to_virtual m backend_slot = hget (sm_backend_to_virtual m) backend_slot"

definition slot_map_virtual_slots :: "SlotMap \<Rightarrow> VirtualSlotId list" where
  "slot_map_virtual_slots m = hkeys (sm_virtual_to_backend m)"

section \<open>Invariant and registry contract\<close>

definition slot_map_inv :: "SlotMap \<Rightarrow> bool" where
  "slot_map_inv m =
     (inverse_maps (hget (sm_virtual_to_backend m)) (hget (sm_backend_to_virtual m))
      \<and> (\<forall>v b. hget (sm_virtual_to_backend m) v = Some b
               \<longrightarrow> 0 < vs_raw v \<and> vs_raw v < sm_next_virtual m)
      \<and> 0 < sm_next_virtual m)"

definition slot_map_room :: "nat \<Rightarrow> SlotMap \<Rightarrow> bool" where
  "slot_map_room n m = (unat (sm_next_virtual m) + n < 2 ^ 64)"

lemma slot_map_new_inv: "slot_map_inv slot_map_new"
  by (simp add: slot_map_inv_def slot_map_new_def)

lemma slot_map_room_next: "slot_map_room (Suc n) m \<Longrightarrow> sm_next_virtual m \<noteq> - 1"
  unfolding slot_map_room_def by (rule u64_room) simp

lemma slot_map_next_unused:
  "slot_map_inv m \<Longrightarrow> hget (sm_virtual_to_backend m) (VirtualSlotId (sm_next_virtual m)) = None"
  unfolding slot_map_inv_def by (metis not_Some_eq VirtualSlotId.sel order.irrefl)

lemma slot_map_register_known:
  "slot_map_to_virtual m b = Some v \<Longrightarrow> slot_map_register b m = (v, m)"
  by (simp add: slot_map_to_virtual_def slot_map_register_def)

lemma slot_map_register_inv:
  assumes inv: "slot_map_inv m" and room: "sm_next_virtual m \<noteq> - 1"
  shows "slot_map_inv (snd (slot_map_register b m))"
proof (cases "hget (sm_backend_to_virtual m) b")
  case None
  let ?v = "VirtualSlotId (sm_next_virtual m)"
  have "inverse_maps ((hget (sm_virtual_to_backend m))(?v \<mapsto> b))
      ((hget (sm_backend_to_virtual m))(b \<mapsto> ?v))"
    using inv None slot_map_next_unused[OF inv] by (simp add: slot_map_inv_def inverse_maps_upd)
  then show ?thesis
    using inv None room
    by (auto simp: slot_map_register_def slot_map_inv_def Let_def word_less_add_one
        word_add_one_gt word_add_one_pos)
qed (simp add: slot_map_register_def inv)

interpretation sm: registry slot_map_inv slot_map_room slot_map_register slot_map_resolve
  slot_map_to_virtual
proof
  fix m :: SlotMap and n v b c
  assume inv: "slot_map_inv m"
  show "(slot_map_resolve m v = Some b) = (slot_map_to_virtual m b = Some v)"
    using inv by (simp add: slot_map_inv_def inverse_maps_def slot_map_resolve_def
        slot_map_to_virtual_def)
  show "slot_map_to_virtual m b = Some v \<Longrightarrow> slot_map_register b m = (v, m)"
    by (rule slot_map_register_known)
  assume room: "slot_map_room (Suc n) m"
  note next_id = slot_map_room_next[OF room]
  show "slot_map_inv (snd (slot_map_register b m))"
    by (rule slot_map_register_inv[OF inv next_id])
  show "slot_map_room n (snd (slot_map_register b m))"
    using room unat_add_one[OF next_id]
    by (auto simp: slot_map_register_def slot_map_room_def Let_def split: option.splits)
  show "slot_map_resolve (snd (slot_map_register b m)) (fst (slot_map_register b m)) = Some b"
    using inv by (auto simp: slot_map_register_def slot_map_resolve_def Let_def slot_map_inv_def
        dest: inverse_mapsD split: option.splits)
  show "slot_map_resolve (snd (slot_map_register b m)) v = Some c"
    if "slot_map_resolve m v = Some c"
    using that slot_map_next_unused[OF inv]
    by (auto simp: slot_map_register_def slot_map_resolve_def Let_def split: option.splits)
qed

end
