(* ===== verification/Connection_State.thy ===== *)
theory Connection_State
  imports Prelude
begin

text \<open>
  \<^verbatim>\<open>crates/server/src/server/connection_state.rs\<close>: which client processes (Unix socket) or
  connections (TCP) are still alive.  An \<^verbatim>\<open>Arc<ConnectionState>\<close> is an address into a heap, so that
  pointer identity (\<^verbatim>\<open>Arc::ptr_eq\<close>) is equality of addresses.  \<^verbatim>\<open>unregister\<close> takes the shard
  lock twice; the model keeps its two critical sections apart, and the step relation at the end
  interleaves them with accepts and other releases.
\<close>

type_synonym conn_ref = nat

record ConnectionState =
  cs_closed :: bool
  cs_live_connections :: nat

record conn_world =
  cw_heap :: "(conn_ref, ConnectionState) hashmap"
  cw_by_peer :: "(string, conn_ref) hashmap"
  cw_next_ref :: conn_ref

definition conn_world_new :: conn_world where
  "conn_world_new = \<lparr>cw_heap = [], cw_by_peer = [], cw_next_ref = 0\<rparr>"

section \<open>Connection states\<close>

definition connection_state_new :: "conn_world \<Rightarrow> conn_ref \<times> conn_world" where
  "connection_state_new w =
     (cw_next_ref w,
      w\<lparr>cw_heap := hput (cw_next_ref w) \<lparr>cs_closed = False, cs_live_connections = 1\<rparr> (cw_heap w),
        cw_next_ref := Suc (cw_next_ref w)\<rparr>)"

definition conn_allocated :: "conn_world \<Rightarrow> conn_ref \<Rightarrow> bool" where
  "conn_allocated w r = (hget (cw_heap w) r \<noteq> None)"

definition conn_is_closed :: "conn_world \<Rightarrow> conn_ref \<Rightarrow> bool" where
  "conn_is_closed w r = (case hget (cw_heap w) r of None \<Rightarrow> True | Some s \<Rightarrow> cs_closed s)"

definition conn_update :: "conn_ref \<Rightarrow> (ConnectionState \<Rightarrow> ConnectionState) \<Rightarrow> conn_world \<Rightarrow> conn_world" where
  "conn_update r f w =
     (case hget (cw_heap w) r of None \<Rightarrow> w | Some s \<Rightarrow> w\<lparr>cw_heap := hput r (f s) (cw_heap w)\<rparr>)"

definition conn_mark_closed :: "conn_ref \<Rightarrow> conn_world \<Rightarrow> conn_world" where
  "conn_mark_closed r = conn_update r (cs_closed_update (\<lambda>_. True))"

definition conn_live_count :: "conn_world \<Rightarrow> conn_ref \<Rightarrow> nat" where
  "conn_live_count w r = (case hget (cw_heap w) r of None \<Rightarrow> 0 | Some s \<Rightarrow> cs_live_connections s)"

definition conn_join :: "conn_ref \<Rightarrow> conn_world \<Rightarrow> conn_world" where
  "conn_join r = conn_update r (cs_live_connections_update Suc)"

definition conn_leave_is_last :: "conn_ref \<Rightarrow> conn_world \<Rightarrow> bool \<times> conn_world" where
  "conn_leave_is_last r w =
     (let prev = conn_live_count w r in
      if prev = 0 then (True, conn_update r (cs_live_connections_update (\<lambda>_. 0)) w)
      else (prev = 1, conn_update r (cs_live_connections_update (\<lambda>n. n - 1)) w))"

section \<open>The registry\<close>

definition conn_register :: "string \<Rightarrow> conn_ref \<Rightarrow> conn_world \<Rightarrow> conn_ref \<times> conn_world" where
  "conn_register peer_key state w =
     (case hget (cw_by_peer w) peer_key of
        Some existing \<Rightarrow> (existing, conn_join existing w)
      | None \<Rightarrow> (state, w\<lparr>cw_by_peer := hput peer_key state (cw_by_peer w)\<rparr>))"

definition conn_lookup :: "conn_world \<Rightarrow> string \<Rightarrow> conn_ref option" where
  "conn_lookup w peer_key = hget (cw_by_peer w) peer_key"

text \<open>First critical section of \<^verbatim>\<open>unregister\<close>: an early return is \<^const>\<open>False\<close>.\<close>

definition conn_unregister_leave :: "string \<Rightarrow> conn_ref \<Rightarrow> conn_world \<Rightarrow> bool \<times> conn_world" where
  "conn_unregister_leave peer_key state w =
     (case hget (cw_by_peer w) peer_key of
        None \<Rightarrow> (False, w)
      | Some current \<Rightarrow>
          if current \<noteq> state then (False, w) else conn_leave_is_last state w)"

text \<open>Second critical section: \<^verbatim>\<open>remove_if\<close> and, when it removed, \<^verbatim>\<open>mark_closed\<close>.\<close>

definition conn_unregister_remove :: "string \<Rightarrow> conn_ref \<Rightarrow> conn_world \<Rightarrow> conn_world" where
  "conn_unregister_remove peer_key state w =
     (case hget (cw_by_peer w) peer_key of
        None \<Rightarrow> w
      | Some current \<Rightarrow>
          if current = state \<and> conn_live_count w current = 0
          then conn_mark_closed state (w\<lparr>cw_by_peer := hdel peer_key (cw_by_peer w)\<rparr>)
          else w)"

definition conn_unregister :: "string \<Rightarrow> conn_ref \<Rightarrow> conn_world \<Rightarrow> conn_world" where
  "conn_unregister peer_key state w =
     (let (is_last, w1) = conn_unregister_leave peer_key state w in
      if is_last then conn_unregister_remove peer_key state w1 else w1)"

section \<open>Peer keys\<close>

text \<open>
  The transport facts of a request: the peer process of a Unix socket, or the textual remote
  address of a TCP connection.
\<close>

datatype transport = Uds "nat option" | Tcp "string option"

definition tcp_peer_key :: "string \<Rightarrow> string" where
  "tcp_peer_key peer = ''tcp:'' @ peer"

definition uds_peer_key :: "nat option \<Rightarrow> string option" where
  "uds_peer_key pid = map_option (\<lambda>p. ''uds:pid='' @ dec_string p) pid"

definition peer_key_for_request :: "transport \<Rightarrow> string option" where
  "peer_key_for_request t =
     (case t of Uds pid \<Rightarrow> uds_peer_key pid | Tcp addr \<Rightarrow> map_option tcp_peer_key addr)"

definition connection_state_for_request :: "conn_world \<Rightarrow> transport \<Rightarrow> conn_ref option" where
  "connection_state_for_request w t = Option.bind (peer_key_for_request t) (conn_lookup w)"

section \<open>Tracked streams\<close>

record TrackedStream =
  ts_state :: conn_ref
  ts_peer_key :: "string option"

definition tracked_stream_new :: "string option \<Rightarrow> conn_world \<Rightarrow> TrackedStream \<times> conn_world" where
  "tracked_stream_new peer_key w =
     (let (candidate, w1) = connection_state_new w in
      case peer_key of
        Some key \<Rightarrow>
          let (state, w2) = conn_register key candidate w1
          in (\<lparr>ts_state = state, ts_peer_key = peer_key\<rparr>, w2)
      | None \<Rightarrow> (\<lparr>ts_state = candidate, ts_peer_key = None\<rparr>, w1))"

definition tracked_stream_drop :: "TrackedStream \<Rightarrow> conn_world \<Rightarrow> conn_world" where
  "tracked_stream_drop ts w =
     (case ts_peer_key ts of
        Some key \<Rightarrow> conn_unregister key (ts_state ts) w
      | None \<Rightarrow> conn_mark_closed (ts_state ts) w)"

section \<open>Interleavings\<close>

record conn_sys =
  cy_world :: conn_world
  cy_open :: "TrackedStream list"
  cy_pending :: "(string \<times> conn_ref) list"

definition conn_sys_init :: conn_sys where
  "conn_sys_init = \<lparr>cy_world = conn_world_new, cy_open = [], cy_pending = []\<rparr>"

text \<open>
  One atomic action of the system: a stream is accepted, a stream's drop runs its first critical
  section (and leaves the second pending when it was the last), or a pending second section runs.
\<close>

inductive conn_step :: "conn_sys \<Rightarrow> conn_sys \<Rightarrow> bool" where
  accept: "tracked_stream_new key (cy_world y) = (ts, w) \<Longrightarrow>
     conn_step y (y\<lparr>cy_world := w, cy_open := ts # cy_open y\<rparr>)"
| leave: "ts \<in> set (cy_open y) \<Longrightarrow> ts_peer_key ts = Some key \<Longrightarrow>
     conn_unregister_leave key (ts_state ts) (cy_world y) = (is_last, w) \<Longrightarrow>
     conn_step y (y\<lparr>cy_world := w, cy_open := remove1 ts (cy_open y),
       cy_pending := (if is_last then (key, ts_state ts) # cy_pending y else cy_pending y)\<rparr>)"
| drop_peerless: "ts \<in> set (cy_open y) \<Longrightarrow> ts_peer_key ts = None \<Longrightarrow>
     conn_step y (y\<lparr>cy_world := conn_mark_closed (ts_state ts) (cy_world y),
       cy_open := remove1 ts (cy_open y)\<rparr>)"
| finish: "(key, r) \<in> set (cy_pending y) \<Longrightarrow>
     conn_step y (y\<lparr>cy_world := conn_unregister_remove key r (cy_world y),
       cy_pending := remove1 (key, r) (cy_pending y)\<rparr>)"

inductive conn_reachable :: "conn_sys \<Rightarrow> bool" where
  init: "conn_reachable conn_sys_init"
| step: "conn_reachable y \<Longrightarrow> conn_step y y' \<Longrightarrow> conn_reachable y'"

inductive_cases conn_stepE: "conn_step y y'"

definition streams_of :: "string \<Rightarrow> conn_sys \<Rightarrow> TrackedStream list" where
  "streams_of key y = filter (\<lambda>ts. ts_peer_key ts = Some key) (cy_open y)"

text \<open>
  The invariant.  A registered group is open, its counter is the number of its open streams, and
  when that number is zero a release is still pending; every open stream belongs to the group
  registered under its key; addresses in use are below the allocation counter and no two keys
  (nor a peerless stream and a key) share one.
\<close>

definition conn_inv :: "conn_sys \<Rightarrow> bool" where
  "conn_inv y =
     (let w = cy_world y in
      (\<forall>ts \<in> set (cy_open y). ts_state ts < cw_next_ref w
         \<and> (\<forall>key. ts_peer_key ts = Some key \<longrightarrow> conn_lookup w key = Some (ts_state ts))
         \<and> (ts_peer_key ts = None \<longrightarrow> (\<forall>key. conn_lookup w key \<noteq> Some (ts_state ts))))
      \<and> (\<forall>key r. conn_lookup w key = Some r \<longrightarrow>
           r < cw_next_ref w \<and> \<not> conn_is_closed w r
           \<and> conn_live_count w r = length (streams_of key y)
           \<and> (streams_of key y = [] \<longrightarrow> (key, r) \<in> set (cy_pending y))
           \<and> (\<forall>key'. conn_lookup w key' = Some r \<longrightarrow> key' = key))
      \<and> (\<forall>(key, r) \<in> set (cy_pending y). r < cw_next_ref w)
      \<and> (\<forall>r. r < cw_next_ref w \<longrightarrow> conn_allocated w r))"

lemma conn_update_simps [simp]:
  "cw_by_peer (conn_update r f w) = cw_by_peer w"
  "cw_next_ref (conn_update r f w) = cw_next_ref w"
  "hget (cw_heap (conn_update r f w)) r' =
     (if r' = r then map_option f (hget (cw_heap w) r) else hget (cw_heap w) r')"
  by (auto simp: conn_update_def split: option.split)

lemma conn_lookup_update [simp]:
  "conn_lookup (conn_update r f w) = conn_lookup w"
  "conn_lookup (conn_mark_closed r w) = conn_lookup w"
  by (simp_all add: conn_lookup_def conn_mark_closed_def fun_eq_iff)

lemma conn_mark_closed_simps [simp]:
  "cw_next_ref (conn_mark_closed r w) = cw_next_ref w"
  "conn_live_count (conn_mark_closed r w) = conn_live_count w"
  "conn_is_closed (conn_mark_closed r w) r' = (r' = r \<or> conn_is_closed w r')"
  "conn_allocated (conn_mark_closed r w) = conn_allocated w"
  by (auto simp: conn_mark_closed_def conn_live_count_def conn_is_closed_def conn_allocated_def fun_eq_iff
      split: option.split)

lemma conn_join_simps [simp]:
  "cw_next_ref (conn_join r w) = cw_next_ref w"
  "conn_lookup (conn_join r w) = conn_lookup w"
  "conn_is_closed (conn_join r w) = conn_is_closed w"
  "conn_allocated (conn_join r w) = conn_allocated w"
  by (auto simp: conn_join_def conn_is_closed_def conn_allocated_def conn_lookup_def fun_eq_iff split: option.split)

lemma conn_join_count:
  "conn_allocated w r \<Longrightarrow>
   conn_live_count (conn_join r w) r' = (if r' = r then Suc (conn_live_count w r) else conn_live_count w r')"
  by (auto simp: conn_join_def conn_live_count_def conn_allocated_def)

lemma conn_leave_simps [simp]:
  "cw_next_ref (snd (conn_leave_is_last r w)) = cw_next_ref w"
  "conn_lookup (snd (conn_leave_is_last r w)) = conn_lookup w"
  "conn_is_closed (snd (conn_leave_is_last r w)) = conn_is_closed w"
  "conn_allocated (snd (conn_leave_is_last r w)) = conn_allocated w"
  "conn_live_count (snd (conn_leave_is_last r w)) r' =
     (if r' = r then conn_live_count w r - 1 else conn_live_count w r')"
  "fst (conn_leave_is_last r w) = (conn_live_count w r \<le> 1)"
  by (auto simp: conn_leave_is_last_def conn_is_closed_def conn_live_count_def conn_allocated_def fun_eq_iff Let_def
      split: option.split)

lemma conn_world_by_peer_simps [simp]:
  "conn_lookup (w\<lparr>cw_by_peer := hput k r (cw_by_peer w)\<rparr>) = (conn_lookup w)(k \<mapsto> r)"
  "conn_lookup (w\<lparr>cw_by_peer := hdel k (cw_by_peer w)\<rparr>) = (conn_lookup w)(k := None)"
  "conn_live_count (w\<lparr>cw_by_peer := p\<rparr>) = conn_live_count w"
  "conn_is_closed (w\<lparr>cw_by_peer := p\<rparr>) = conn_is_closed w"
  "conn_allocated (w\<lparr>cw_by_peer := p\<rparr>) = conn_allocated w"
  by (auto simp: conn_allocated_def conn_lookup_def conn_live_count_def conn_is_closed_def fun_eq_iff)

lemma connection_state_new_simps [simp]:
  "fst (connection_state_new w) = cw_next_ref w"
  "cw_next_ref (snd (connection_state_new w)) = Suc (cw_next_ref w)"
  "conn_lookup (snd (connection_state_new w)) = conn_lookup w"
  "conn_allocated (snd (connection_state_new w)) r = (r = cw_next_ref w \<or> conn_allocated w r)"
  "conn_live_count (snd (connection_state_new w)) r =
     (if r = cw_next_ref w then 1 else conn_live_count w r)"
  "conn_is_closed (snd (connection_state_new w)) r = (r \<noteq> cw_next_ref w \<and> conn_is_closed w r)"
  by (auto simp: connection_state_new_def conn_allocated_def conn_lookup_def conn_live_count_def conn_is_closed_def
      fun_eq_iff)

lemma conn_register_alt:
  "conn_register key state w =
     (case conn_lookup w key of
        Some existing \<Rightarrow> (existing, conn_join existing w)
      | None \<Rightarrow> (state, w\<lparr>cw_by_peer := hput key state (cw_by_peer w)\<rparr>))"
  by (simp add: conn_register_def conn_lookup_def)

lemma conn_unregister_leave_alt:
  "conn_unregister_leave key state w =
     (if conn_lookup w key = Some state then conn_leave_is_last state w else (False, w))"
  by (auto simp: conn_unregister_leave_def conn_lookup_def split: option.split)

lemma conn_unregister_remove_alt:
  "conn_unregister_remove key state w =
     (if conn_lookup w key = Some state \<and> conn_live_count w state = 0
      then conn_mark_closed state (w\<lparr>cw_by_peer := hdel key (cw_by_peer w)\<rparr>) else w)"
  by (auto simp: conn_unregister_remove_def conn_lookup_def split: option.split)

section \<open>Preservation\<close>

lemma conn_inv_init: "conn_inv conn_sys_init"
  by (simp add: conn_inv_def conn_sys_init_def conn_world_new_def conn_lookup_def Let_def)

lemma conn_invD:
  assumes "conn_inv y"
  shows "ts \<in> set (cy_open y) \<Longrightarrow> ts_state ts < cw_next_ref (cy_world y)"
    and "ts \<in> set (cy_open y) \<Longrightarrow> ts_peer_key ts = Some key \<Longrightarrow>
      conn_lookup (cy_world y) key = Some (ts_state ts)"
    and "ts \<in> set (cy_open y) \<Longrightarrow> ts_peer_key ts = None \<Longrightarrow>
      conn_lookup (cy_world y) key \<noteq> Some (ts_state ts)"
    and "conn_lookup (cy_world y) key = Some r \<Longrightarrow> r < cw_next_ref (cy_world y)"
    and "conn_lookup (cy_world y) key = Some r \<Longrightarrow> \<not> conn_is_closed (cy_world y) r"
    and "conn_lookup (cy_world y) key = Some r \<Longrightarrow>
      conn_live_count (cy_world y) r = length (streams_of key y)"
    and "conn_lookup (cy_world y) key = Some r \<Longrightarrow> streams_of key y = [] \<Longrightarrow>
      (key, r) \<in> set (cy_pending y)"
    and "conn_lookup (cy_world y) key = Some r \<Longrightarrow> conn_lookup (cy_world y) key' = Some r \<Longrightarrow> key' = key"
    and "(key, r) \<in> set (cy_pending y) \<Longrightarrow> r < cw_next_ref (cy_world y)"
    and "r < cw_next_ref (cy_world y) \<Longrightarrow> conn_allocated (cy_world y) r"
  using assms unfolding conn_inv_def Let_def by (simp_all, fastforce+)

lemma conn_invI:
  assumes "\<And>ts. ts \<in> set (cy_open y) \<Longrightarrow> ts_state ts < cw_next_ref (cy_world y)"
    and "\<And>ts key. ts \<in> set (cy_open y) \<Longrightarrow> ts_peer_key ts = Some key \<Longrightarrow>
      conn_lookup (cy_world y) key = Some (ts_state ts)"
    and "\<And>ts key. ts \<in> set (cy_open y) \<Longrightarrow> ts_peer_key ts = None \<Longrightarrow>
      conn_lookup (cy_world y) key \<noteq> Some (ts_state ts)"
    and "\<And>key r. conn_lookup (cy_world y) key = Some r \<Longrightarrow>
      r < cw_next_ref (cy_world y) \<and> \<not> conn_is_closed (cy_world y) r
      \<and> conn_live_count (cy_world y) r = length (streams_of key y)"
    and "\<And>key r. conn_lookup (cy_world y) key = Some r \<Longrightarrow> streams_of key y = [] \<Longrightarrow>
      (key, r) \<in> set (cy_pending y)"
    and "\<And>key key' r. conn_lookup (cy_world y) key = Some r \<Longrightarrow>
      conn_lookup (cy_world y) key' = Some r \<Longrightarrow> key' = key"
    and "\<And>key r. (key, r) \<in> set (cy_pending y) \<Longrightarrow> r < cw_next_ref (cy_world y)"
    and "\<And>r. r < cw_next_ref (cy_world y) \<Longrightarrow> conn_allocated (cy_world y) r"
  shows "conn_inv y"
  using assms unfolding conn_inv_def Let_def by blast

lemma conn_inv_fresh:
  "conn_inv y \<Longrightarrow> conn_lookup (cy_world y) key \<noteq> Some (cw_next_ref (cy_world y))"
  using conn_invD(4) by blast

lemma conn_inv_fresh_stream:
  "conn_inv y \<Longrightarrow> ts \<in> set (cy_open y) \<Longrightarrow> ts_state ts \<noteq> cw_next_ref (cy_world y)"
  using conn_invD(1) by (metis less_irrefl)

lemma streams_of_frame [simp]:
  "streams_of key (y\<lparr>cy_world := w\<rparr>) = streams_of key y"
  "streams_of key (y\<lparr>cy_pending := p\<rparr>) = streams_of key y"
  by (simp_all add: streams_of_def)

lemma streams_of_Cons:
  "streams_of key (y\<lparr>cy_world := w, cy_open := ts # cy_open y\<rparr>) =
     (if ts_peer_key ts = Some key then ts # streams_of key y else streams_of key y)"
  by (simp add: streams_of_def)

lemma streams_of_empty:
  "conn_inv y \<Longrightarrow> conn_lookup (cy_world y) key = None \<Longrightarrow> streams_of key y = []"
  using conn_invD(2) by (fastforce simp: streams_of_def filter_empty_conv)

lemma conn_inv_accept_peerless:
  assumes inv: "conn_inv y" and new: "tracked_stream_new None (cy_world y) = (ts, w)"
  shows "conn_inv (y\<lparr>cy_world := w, cy_open := ts # cy_open y\<rparr>)"
proof -
  have ts: "ts = \<lparr>ts_state = cw_next_ref (cy_world y), ts_peer_key = None\<rparr>"
    and w: "w = snd (connection_state_new (cy_world y))"
    using new by (auto simp: tracked_stream_new_def case_prod_beta Let_def)
  show ?thesis
    by (rule conn_invI)
      (use conn_invD[OF inv] conn_inv_fresh[OF inv] conn_inv_fresh_stream[OF inv] in
        \<open>auto simp: ts w streams_of_def less_Suc_eq\<close>)
qed

lemma conn_inv_accept_new:
  assumes inv: "conn_inv y" and new: "tracked_stream_new (Some k) (cy_world y) = (ts, w)"
    and none: "conn_lookup (cy_world y) k = None"
  shows "conn_inv (y\<lparr>cy_world := w, cy_open := ts # cy_open y\<rparr>)"
proof -
  let ?w1 = "snd (connection_state_new (cy_world y))"
  have ts: "ts = \<lparr>ts_state = cw_next_ref (cy_world y), ts_peer_key = Some k\<rparr>"
    and w: "w = ?w1\<lparr>cw_by_peer := hput k (cw_next_ref (cy_world y)) (cw_by_peer ?w1)\<rparr>"
    using new none by (auto simp: tracked_stream_new_def conn_register_alt case_prod_beta Let_def)
  show ?thesis
    by (rule conn_invI)
      (use conn_invD[OF inv] conn_inv_fresh[OF inv] conn_inv_fresh_stream[OF inv] none streams_of_empty[OF inv none] in
        \<open>auto simp: ts w streams_of_def less_Suc_eq dest: conn_inv_fresh_stream[OF inv]
          split: if_splits\<close>)
qed

lemma conn_inv_accept_join:
  assumes inv: "conn_inv y" and new: "tracked_stream_new (Some k) (cy_world y) = (ts, w)"
    and ex: "conn_lookup (cy_world y) k = Some r"
  shows "conn_inv (y\<lparr>cy_world := w, cy_open := ts # cy_open y\<rparr>)"
proof -
  let ?w1 = "snd (connection_state_new (cy_world y))"
  have ts: "ts = \<lparr>ts_state = r, ts_peer_key = Some k\<rparr>" and w: "w = conn_join r ?w1"
    using new ex by (auto simp: tracked_stream_new_def conn_register_alt case_prod_beta Let_def)
  have r: "conn_allocated ?w1 r" "r \<noteq> cw_next_ref (cy_world y)"
    using conn_invD(4,10)[OF inv] ex by fastforce+
  show ?thesis
    by (rule conn_invI)
      (use conn_invD[OF inv] conn_inv_fresh[OF inv] conn_inv_fresh_stream[OF inv] ex r in
        \<open>auto simp: ts w streams_of_def less_Suc_eq conn_join_count
          split: if_splits\<close>)
qed

lemma streams_of_remove1:
  assumes "ts \<in> set (cy_open y)"
  shows "length (filter (\<lambda>t. ts_peer_key t = Some k) (remove1 ts (cy_open y))) =
    length (streams_of k y) - (if ts_peer_key ts = Some k then 1 else 0)"
  using assms by (simp add: streams_of_def filter_remove1 length_remove1)

lemma streams_of_pos:
  "ts \<in> set (cy_open y) \<Longrightarrow> ts_peer_key ts = Some k \<Longrightarrow> 0 < length (streams_of k y)"
  by (auto simp: streams_of_def filter_empty_conv)

lemma conn_inv_leave:
  assumes inv: "conn_inv y" and ts: "ts \<in> set (cy_open y)" "ts_peer_key ts = Some k"
    and lv: "conn_unregister_leave k (ts_state ts) (cy_world y) = (is_last, w)"
  shows "conn_inv (y\<lparr>cy_world := w, cy_open := remove1 ts (cy_open y),
    cy_pending := (if is_last then (k, ts_state ts) # cy_pending y else cy_pending y)\<rparr>)"
proof -
  let ?y = "y\<lparr>cy_world := w, cy_open := remove1 ts (cy_open y),
    cy_pending := (if is_last then (k, ts_state ts) # cy_pending y else cy_pending y)\<rparr>"
  note look = conn_invD(2)[OF inv ts]
  have eq: "conn_leave_is_last (ts_state ts) (cy_world y) = (is_last, w)"
    using lv look by (simp add: conn_unregister_leave_alt)
  then have w: "w = snd (conn_leave_is_last (ts_state ts) (cy_world y))" by simp
  have last: "is_last = (conn_live_count (cy_world y) (ts_state ts) \<le> 1)"
    using conn_leave_simps(6)[of "ts_state ts" "cy_world y"] eq by simp
  have len: "length (streams_of key ?y) = length (streams_of key y) - (if key = k then 1 else 0)" for key
    using streams_of_remove1[OF ts(1), of key] ts(2) by (simp add: streams_of_def)
  have cnt: "conn_live_count (cy_world y) (ts_state ts) = length (streams_of k y)"
    by (rule conn_invD(6)[OF inv look])
  have pend: "(key, r) \<in> set (cy_pending ?y)"
    if "conn_lookup (cy_world y) key = Some r" "streams_of key ?y = []" for key r
  proof (cases "key = k")
    case True
    with that len[of k] have "length (streams_of k y) \<le> 1" by simp
    with True that(1) look cnt last show ?thesis by simp
  next
    case False
    with that len[of key] have "streams_of key y = []" by simp
    with conn_invD(7)[OF inv that(1)] show ?thesis by simp
  qed
  have uniq: "conn_lookup (cy_world y) key = Some (ts_state ts) \<Longrightarrow> key = k" for key
    using conn_invD(8)[OF inv look] by blast
  show ?thesis
  proof (rule conn_invI)
    fix key r assume "conn_lookup (cy_world ?y) key = Some r"
    then have l: "conn_lookup (cy_world y) key = Some r" by (simp add: w)
    have "conn_live_count w r = length (streams_of key ?y)"
    proof (cases "key = k")
      case True
      with l look have "r = ts_state ts" by simp
      with True cnt show ?thesis unfolding len by (simp add: w)
    next
      case False
      then have "r \<noteq> ts_state ts" using uniq l by blast
      with False conn_invD(6)[OF inv l] show ?thesis unfolding len by (simp add: w)
    qed
    then show "r < cw_next_ref (cy_world ?y) \<and> \<not> conn_is_closed (cy_world ?y) r
        \<and> conn_live_count (cy_world ?y) r = length (streams_of key ?y)"
      using conn_invD(4,5)[OF inv l] by (simp add: w)
  next
    fix key r assume "conn_lookup (cy_world ?y) key = Some r" "streams_of key ?y = []"
    then show "(key, r) \<in> set (cy_pending ?y)" using pend by (simp add: w)
  next
    fix key key' r assume "conn_lookup (cy_world ?y) key = Some r"
      "conn_lookup (cy_world ?y) key' = Some r"
    then show "key' = key" using conn_invD(8)[OF inv, of key r key'] by (simp add: w)
  next
    fix key r assume "(key, r) \<in> set (cy_pending ?y)"
    then show "r < cw_next_ref (cy_world ?y)"
      using conn_invD(9)[OF inv, of key r] conn_invD(1)[OF inv ts(1)] by (auto simp: w split: if_splits)
  qed (use conn_invD(1,2,3,10)[OF inv] in
      \<open>auto simp: w dest: set_remove1_subset[THEN subsetD]\<close>)
qed

lemma conn_inv_drop_peerless:
  assumes inv: "conn_inv y" and ts: "ts \<in> set (cy_open y)" "ts_peer_key ts = None"
  shows "conn_inv (y\<lparr>cy_world := conn_mark_closed (ts_state ts) (cy_world y),
    cy_open := remove1 ts (cy_open y)\<rparr>)"
proof -
  let ?y = "y\<lparr>cy_world := conn_mark_closed (ts_state ts) (cy_world y),
    cy_open := remove1 ts (cy_open y)\<rparr>"
  have len: "length (streams_of key ?y) = length (streams_of key y)" for key
    using streams_of_remove1[OF ts(1), of key] ts(2) by (simp add: streams_of_def)
  then have nil: "streams_of key ?y = [] \<longleftrightarrow> streams_of key y = []" for key
    by (metis length_0_conv)
  show ?thesis
    by (rule conn_invI)
      (use conn_invD[OF inv] conn_invD(3)[OF inv ts] len nil in
        \<open>auto dest: set_remove1_subset[THEN subsetD]\<close>)
qed

lemma conn_inv_finish:
  assumes inv: "conn_inv y" and p: "(k, r) \<in> set (cy_pending y)"
  shows "conn_inv (y\<lparr>cy_world := conn_unregister_remove k r (cy_world y),
    cy_pending := remove1 (k, r) (cy_pending y)\<rparr>)"
proof -
  let ?w = "conn_unregister_remove k r (cy_world y)"
  let ?y = "y\<lparr>cy_world := ?w, cy_pending := remove1 (k, r) (cy_pending y)\<rparr>"
  show ?thesis
  proof (cases "conn_lookup (cy_world y) k = Some r \<and> conn_live_count (cy_world y) r = 0")
    case True
    then have w: "?w = conn_mark_closed r
        ((cy_world y)\<lparr>cw_by_peer := hdel k (cw_by_peer (cy_world y))\<rparr>)"
      by (simp add: conn_unregister_remove_alt)
    have none: "streams_of k y = []" using True conn_invD(6)[OF inv, of k r] by simp
    have nok: "ts_peer_key ts \<noteq> Some k" if "ts \<in> set (cy_open y)" for ts
      using streams_of_pos[OF that, of k] none by auto
    have other: "key \<noteq> k \<Longrightarrow> conn_lookup (cy_world y) key \<noteq> Some r" for key
      using conn_invD(8)[OF inv, of k r key] True by blast
    have look: "conn_lookup ?w key = (if key = k then None else conn_lookup (cy_world y) key)" for key
      by (simp add: w)
    have pend: "(key, ra) \<in> set (remove1 (k, r) (cy_pending y))"
      if "conn_lookup ?w key = Some ra" "streams_of key y = []" for key ra
      using that conn_invD(7)[OF inv, of key ra] in_set_remove1[of "(key, ra)" "(k, r)" "cy_pending y"]
      by (auto simp: look split: if_splits)
    show ?thesis
    proof (rule conn_invI)
      fix key ra assume "conn_lookup (cy_world ?y) key = Some ra"
      then show "ra < cw_next_ref (cy_world ?y) \<and> \<not> conn_is_closed (cy_world ?y) ra
          \<and> conn_live_count (cy_world ?y) ra = length (streams_of key ?y)"
        using conn_invD(4,5,6)[OF inv, of key ra] other[of key]
        by (auto simp: w split: if_splits)
    next
      fix ts key assume "ts \<in> set (cy_open ?y)" "ts_peer_key ts = Some key"
      then show "conn_lookup (cy_world ?y) key = Some (ts_state ts)"
        using conn_invD(2)[OF inv, of ts key] nok[of ts] by (auto simp: look)
    next
      fix key key' ra assume "conn_lookup (cy_world ?y) key = Some ra"
        "conn_lookup (cy_world ?y) key' = Some ra"
      then show "key' = key"
        using conn_invD(8)[OF inv, of key ra key'] by (simp add: look split: if_splits)
    qed (use pend conn_invD(1,3,9,10)[OF inv] in
        \<open>auto simp: w dest: set_remove1_subset[THEN subsetD]\<close>)
  next
    case False
    then have w: "?w = cy_world y" by (auto simp: conn_unregister_remove_alt)
    have nk: "\<not> (conn_lookup (cy_world y) k = Some r \<and> streams_of k y = [])"
      using False conn_invD(6)[OF inv, of k r] by auto
    have pend: "(key, ra) \<in> set (remove1 (k, r) (cy_pending y))"
      if "conn_lookup (cy_world y) key = Some ra" "streams_of key y = []" for key ra
    proof -
      have "(key, ra) \<noteq> (k, r)" using nk that by auto
      then show ?thesis using conn_invD(7)[OF inv that] by (metis in_set_remove1)
    qed
    show ?thesis
      by (rule conn_invI) (use conn_invD(1,2,3,4,5,6,8,9,10)[OF inv] pend in
          \<open>auto simp: w dest: set_remove1_subset[THEN subsetD]\<close>)
  qed
qed

lemma conn_reachable_inv: "conn_reachable y \<Longrightarrow> conn_inv y"
proof (induction rule: conn_reachable.induct)
  case init
  show ?case by (rule conn_inv_init)
next
  case (step y y')
  from step.hyps(2) show ?case
  proof (cases rule: conn_step.cases)
    case (accept key ts w)
    then show ?thesis
      using conn_inv_accept_peerless[OF step.IH] conn_inv_accept_new[OF step.IH]
        conn_inv_accept_join[OF step.IH]
      by (cases key; cases "conn_lookup (cy_world y) (the key)") auto
  next
    case (leave ts key is_last w)
    then show ?thesis using conn_inv_leave[OF step.IH] by simp
  next
    case (drop_peerless ts)
    then show ?thesis using conn_inv_drop_peerless[OF step.IH] by simp
  next
    case (finish key r)
    then show ?thesis using conn_inv_finish[OF step.IH] by simp
  qed
qed

section \<open>Properties\<close>

text \<open>
  C6.  A client with an open connection is never taken for dead.  In every interleaving of accepts
  and of the two critical sections of a release, the group under which an open stream was accepted
  is still the one registered for its peer, it is not marked closed, and its counter is exactly the
  number of open streams of that peer; so a connection that joins while another one's final release
  is half done keeps the group alive.
\<close>
theorem open_stream_group_live:
  assumes "conn_reachable y" "ts \<in> set (cy_open y)" "ts_peer_key ts = Some key"
  shows "conn_lookup (cy_world y) key = Some (ts_state ts)
    \<and> \<not> conn_is_closed (cy_world y) (ts_state ts)
    \<and> conn_live_count (cy_world y) (ts_state ts) = length (streams_of key y)"
  using conn_invD(2,5,6)[OF conn_reachable_inv[OF assms(1)]] assms(2,3) by blast

text \<open>
  The overlap the theorem is about: the only stream of a process starts to drop, a second one is
  accepted before the drop finishes, and the drop then finishes.
\<close>

definition overlap_key :: string where
  "overlap_key = ''uds:pid=7''"

definition overlap_first :: "TrackedStream \<times> conn_world" where
  "overlap_first = tracked_stream_new (Some overlap_key) conn_world_new"

definition overlap_left :: "bool \<times> conn_world" where
  "overlap_left = conn_unregister_leave overlap_key (ts_state (fst overlap_first)) (snd overlap_first)"

definition overlap_second :: "TrackedStream \<times> conn_world" where
  "overlap_second = tracked_stream_new (Some overlap_key) (snd overlap_left)"

definition overlap_final :: conn_sys where
  "overlap_final =
     \<lparr>cy_world = conn_unregister_remove overlap_key (ts_state (fst overlap_first)) (snd overlap_second),
      cy_open = [fst overlap_second], cy_pending = []\<rparr>"

lemma overlap_reachable: "conn_reachable overlap_final"
proof -
  let ?a = "fst overlap_first" and ?b = "fst overlap_second"
  let ?y1 = "\<lparr>cy_world = snd overlap_first, cy_open = [?a], cy_pending = []\<rparr>"
  let ?y2 = "\<lparr>cy_world = snd overlap_left, cy_open = [],
    cy_pending = [(overlap_key, ts_state ?a)]\<rparr>"
  let ?y3 = "\<lparr>cy_world = snd overlap_second, cy_open = [?b],
    cy_pending = [(overlap_key, ts_state ?a)]\<rparr>"
  have last: "fst overlap_left" and key: "ts_peer_key ?a = Some overlap_key"
    by code_simp+
  have "conn_step conn_sys_init ?y1"
    using conn_step.accept[of "Some overlap_key" conn_sys_init ?a "snd overlap_first"]
    by (simp add: overlap_first_def conn_sys_init_def)
  then have 1: "conn_reachable ?y1" by (rule conn_reachable.step[OF conn_reachable.init])
  have "conn_step ?y1 ?y2"
    using conn_step.leave[of ?a ?y1 overlap_key True "snd overlap_left"] key last
    by (simp add: overlap_left_def prod_eq_iff)
  then have 2: "conn_reachable ?y2" by (rule conn_reachable.step[OF 1])
  have "conn_step ?y2 ?y3"
    using conn_step.accept[of "Some overlap_key" ?y2 ?b "snd overlap_second"]
    by (simp add: overlap_second_def)
  then have 3: "conn_reachable ?y3" by (rule conn_reachable.step[OF 2])
  have "conn_step ?y3 overlap_final"
    using conn_step.finish[of overlap_key "ts_state ?a" ?y3] by (simp add: overlap_final_def)
  then show ?thesis by (rule conn_reachable.step[OF 3])
qed

theorem open_stream_group_live_witness:
  "conn_lookup (cy_world overlap_final) overlap_key = Some 0
   \<and> \<not> conn_is_closed (cy_world overlap_final) 0
   \<and> conn_live_count (cy_world overlap_final) 0 = length (streams_of overlap_key overlap_final)"
proof -
  have "ts_peer_key (fst overlap_second) = Some overlap_key" "ts_state (fst overlap_second) = 0"
    by code_simp+
  then show ?thesis
    using open_stream_group_live[OF overlap_reachable, of "fst overlap_second" overlap_key]
    by (simp add: overlap_final_def)
qed

text \<open>
   No dead peer lingers: once every stream of a peer has been dropped and no release is half
  done, the peer is no longer registered, so the registry is bounded by the live peers and contexts
  bound to that peer are recognised as orphaned.
\<close>
theorem dead_peer_unregistered:
  assumes "conn_reachable y" "streams_of key y = []" "cy_pending y = []"
  shows "conn_lookup (cy_world y) key = None"
proof (rule ccontr)
  assume "conn_lookup (cy_world y) key \<noteq> None"
  then obtain r where "conn_lookup (cy_world y) key = Some r" by blast
  from conn_invD(7)[OF conn_reachable_inv[OF assms(1)] this assms(2)] assms(3)
  show False by simp
qed

theorem dead_peer_unregistered_witness:
  "conn_lookup (cy_world overlap_final) ''uds:pid=8'' = None"
proof (rule dead_peer_unregistered[OF overlap_reachable])
  show "streams_of ''uds:pid=8'' overlap_final = []" by code_simp
  show "cy_pending overlap_final = []" by (simp add: overlap_final_def)
qed

lemma peer_key_transports_disjoint:
  "peer_key_for_request (Uds p) = Some k \<Longrightarrow> peer_key_for_request (Tcp a) \<noteq> Some k"
  by (auto simp: peer_key_for_request_def uds_peer_key_def tcp_peer_key_def)

lemma uds_peer_key_inj: "uds_peer_key (Some p) = uds_peer_key (Some q) \<Longrightarrow> p = q"
  by (auto simp: uds_peer_key_def dest: dec_string_inj)

end
