(* ===== verification/Ck_Types.thy ===== *)
theory Ck_Types
  imports Prelude
begin

text \<open>
  The shared PKCS\#11 vocabulary of the daemon and the shim:
  \<^verbatim>\<open>crates/types/src/error.rs\<close> (return values and their names) and
  \<^verbatim>\<open>crates/types/src/session.rs\<close> (session flags, states and user types).  A \<^verbatim>\<open>CkResult<T>\<close> is a
  sum whose left part is the error code.
\<close>

unbundle bit_operations_syntax

datatype CkRv = CkRv (rv_raw: u64)

type_synonym 'a CkResult = "CkRv + 'a"

type_synonym CkObjectClass = u64
type_synonym CkMechanismType = u64

type_synonym CkAttributeType = u64

record CkTokenInfo =
  ti_label :: string
  ti_manufacturer_id :: string
  ti_model :: string
  ti_serial_number :: string
  ti_flags :: u64
  ti_max_session_count :: u64
  ti_session_count :: u64
  ti_max_rw_session_count :: u64
  ti_rw_session_count :: u64
  ti_max_pin_len :: u64
  ti_min_pin_len :: u64
  ti_total_public_memory :: u64
  ti_free_public_memory :: u64
  ti_total_private_memory :: u64
  ti_free_private_memory :: u64
  ti_hardware_version :: "u8 \<times> u8"
  ti_firmware_version :: "u8 \<times> u8"
  ti_utc_time :: string

datatype CkAttributeValue =
    AttrBool bool
  | AttrUlong u64
  | AttrBytes "u8 list"
  | AttrString "u8 list"
  | AttrNestedTemplate "CkAttribute list"
and CkAttribute = CkAttribute (attr_type: CkAttributeType) (attr_value: "CkAttributeValue option")

abbreviation CKA_CLASS :: CkAttributeType where "CKA_CLASS \<equiv> 0"
abbreviation CKA_TOKEN :: CkAttributeType where "CKA_TOKEN \<equiv> 1"
abbreviation CKA_PRIVATE :: CkAttributeType where "CKA_PRIVATE \<equiv> 2"
abbreviation CKA_UNIQUE_ID :: CkAttributeType where "CKA_UNIQUE_ID \<equiv> 4"

text \<open>The gRPC status codes that the daemon answers with, besides a PKCS\#11 return value.\<close>

datatype Status = Internal | ResourceExhausted | PermissionDenied | StatusUnauthenticated | DeadlineExceeded

text \<open>The standard return values the models branch on.\<close>

abbreviation CKR_OK :: CkRv where "CKR_OK \<equiv> CkRv 0x0"
abbreviation CKR_GENERAL_ERROR :: CkRv where "CKR_GENERAL_ERROR \<equiv> CkRv 0x5"
abbreviation CKR_FUNCTION_FAILED :: CkRv where "CKR_FUNCTION_FAILED \<equiv> CkRv 0x6"
abbreviation CKR_ARGUMENTS_BAD :: CkRv where "CKR_ARGUMENTS_BAD \<equiv> CkRv 0x7"
abbreviation CKR_DEVICE_ERROR :: CkRv where "CKR_DEVICE_ERROR \<equiv> CkRv 0x30"
abbreviation CKR_DEVICE_MEMORY :: CkRv where "CKR_DEVICE_MEMORY \<equiv> CkRv 0x31"
abbreviation CKR_DEVICE_REMOVED :: CkRv where "CKR_DEVICE_REMOVED \<equiv> CkRv 0x32"
abbreviation CKR_FUNCTION_CANCELED :: CkRv where "CKR_FUNCTION_CANCELED \<equiv> CkRv 0x50"
abbreviation CKR_KEY_HANDLE_INVALID :: CkRv where "CKR_KEY_HANDLE_INVALID \<equiv> CkRv 0x60"
abbreviation CKR_MECHANISM_INVALID :: CkRv where "CKR_MECHANISM_INVALID \<equiv> CkRv 0x70"
abbreviation CKR_OBJECT_HANDLE_INVALID :: CkRv where "CKR_OBJECT_HANDLE_INVALID \<equiv> CkRv 0x82"
abbreviation CKR_OPERATION_ACTIVE :: CkRv where "CKR_OPERATION_ACTIVE \<equiv> CkRv 0x90"
abbreviation CKR_OPERATION_NOT_INITIALIZED :: CkRv where "CKR_OPERATION_NOT_INITIALIZED \<equiv> CkRv 0x91"
abbreviation CKR_PIN_INCORRECT :: CkRv where "CKR_PIN_INCORRECT \<equiv> CkRv 0xA0"
abbreviation CKR_PIN_INVALID :: CkRv where "CKR_PIN_INVALID \<equiv> CkRv 0xA1"
abbreviation CKR_PIN_LEN_RANGE :: CkRv where "CKR_PIN_LEN_RANGE \<equiv> CkRv 0xA2"
abbreviation CKR_PIN_LOCKED :: CkRv where "CKR_PIN_LOCKED \<equiv> CkRv 0xA4"
abbreviation CKR_SESSION_CLOSED :: CkRv where "CKR_SESSION_CLOSED \<equiv> CkRv 0xB0"
abbreviation CKR_SESSION_COUNT :: CkRv where "CKR_SESSION_COUNT \<equiv> CkRv 0xB1"
abbreviation CKR_SESSION_HANDLE_INVALID :: CkRv where "CKR_SESSION_HANDLE_INVALID \<equiv> CkRv 0xB3"
abbreviation CKR_SESSION_READ_ONLY :: CkRv where "CKR_SESSION_READ_ONLY \<equiv> CkRv 0xB5"
abbreviation CKR_SLOT_ID_INVALID :: CkRv where "CKR_SLOT_ID_INVALID \<equiv> CkRv 0x3"
abbreviation CKR_TOKEN_NOT_PRESENT :: CkRv where "CKR_TOKEN_NOT_PRESENT \<equiv> CkRv 0xE0"
abbreviation CKR_USER_ALREADY_LOGGED_IN :: CkRv where "CKR_USER_ALREADY_LOGGED_IN \<equiv> CkRv 0x100"
abbreviation CKR_USER_NOT_LOGGED_IN :: CkRv where "CKR_USER_NOT_LOGGED_IN \<equiv> CkRv 0x101"
abbreviation CKR_USER_TYPE_INVALID :: CkRv where "CKR_USER_TYPE_INVALID \<equiv> CkRv 0x103"
abbreviation CKR_USER_ANOTHER_ALREADY_LOGGED_IN :: CkRv where "CKR_USER_ANOTHER_ALREADY_LOGGED_IN \<equiv> CkRv 0x104"
abbreviation CKR_BUFFER_TOO_SMALL :: CkRv where "CKR_BUFFER_TOO_SMALL \<equiv> CkRv 0x150"
abbreviation CKR_CRYPTOKI_NOT_INITIALIZED :: CkRv where "CKR_CRYPTOKI_NOT_INITIALIZED \<equiv> CkRv 0x190"
abbreviation CKR_CRYPTOKI_ALREADY_INITIALIZED :: CkRv where "CKR_CRYPTOKI_ALREADY_INITIALIZED \<equiv> CkRv 0x191"
abbreviation CKR_HOST_MEMORY :: CkRv where "CKR_HOST_MEMORY \<equiv> CkRv 0x2"
abbreviation CKR_FUNCTION_NOT_SUPPORTED :: CkRv where "CKR_FUNCTION_NOT_SUPPORTED \<equiv> CkRv 0x54"
abbreviation CKR_ATTRIBUTE_SENSITIVE :: CkRv where "CKR_ATTRIBUTE_SENSITIVE \<equiv> CkRv 0x11"
abbreviation CKR_ATTRIBUTE_TYPE_INVALID :: CkRv where "CKR_ATTRIBUTE_TYPE_INVALID \<equiv> CkRv 0x12"
abbreviation CKR_ATTRIBUTE_VALUE_INVALID :: CkRv where "CKR_ATTRIBUTE_VALUE_INVALID \<equiv> CkRv 0x13"
abbreviation CKR_ACTION_PROHIBITED :: CkRv where "CKR_ACTION_PROHIBITED \<equiv> CkRv 0x1B"
abbreviation CKR_TEMPLATE_INCONSISTENT :: CkRv where "CKR_TEMPLATE_INCONSISTENT \<equiv> CkRv 0xD1"
abbreviation CKR_KEY_FUNCTION_NOT_PERMITTED :: CkRv where "CKR_KEY_FUNCTION_NOT_PERMITTED \<equiv> CkRv 0x68"
abbreviation CKR_FUNCTION_REJECTED :: CkRv where "CKR_FUNCTION_REJECTED \<equiv> CkRv 0x200"
abbreviation CKR_VENDOR_DEFINED :: CkRv where "CKR_VENDOR_DEFINED \<equiv> CkRv 0x80000000"

definition ck_rv_from_vendor :: "u32 \<Rightarrow> CkRv" where
  "ck_rv_from_vendor offset = CkRv (rv_raw CKR_VENDOR_DEFINED OR ucast offset)"

definition ck_rv_is_ok :: "CkRv \<Rightarrow> bool" where
  "ck_rv_is_ok rv = (rv_raw rv = rv_raw CKR_OK)"

definition ck_rv_is_err :: "CkRv \<Rightarrow> bool" where
  "ck_rv_is_err rv = (rv_raw rv \<noteq> rv_raw CKR_OK)"

definition ck_rv_is_vendor_defined :: "CkRv \<Rightarrow> bool" where
  "ck_rv_is_vendor_defined rv =
     (rv_raw rv AND rv_raw CKR_VENDOR_DEFINED = rv_raw CKR_VENDOR_DEFINED)"

text \<open>The table of names, in source order.\<close>

definition ck_rv_table :: "(string \<times> u64) list" where
  "ck_rv_table =
     [(''OK'', 0x0),
      (''CANCEL'', 0x1),
      (''HOST_MEMORY'', 0x2),
      (''SLOT_ID_INVALID'', 0x3),
      (''GENERAL_ERROR'', 0x5),
      (''FUNCTION_FAILED'', 0x6),
      (''ARGUMENTS_BAD'', 0x7),
      (''NO_EVENT'', 0x8),
      (''NEED_TO_CREATE_THREADS'', 0x9),
      (''CANT_LOCK'', 0xA),
      (''ATTRIBUTE_READ_ONLY'', 0x10),
      (''ATTRIBUTE_SENSITIVE'', 0x11),
      (''ATTRIBUTE_TYPE_INVALID'', 0x12),
      (''ATTRIBUTE_VALUE_INVALID'', 0x13),
      (''ACTION_PROHIBITED'', 0x1B),
      (''DATA_INVALID'', 0x20),
      (''DATA_LEN_RANGE'', 0x21),
      (''DEVICE_ERROR'', 0x30),
      (''DEVICE_MEMORY'', 0x31),
      (''DEVICE_REMOVED'', 0x32),
      (''ENCRYPTED_DATA_INVALID'', 0x40),
      (''ENCRYPTED_DATA_LEN_RANGE'', 0x41),
      (''AEAD_DECRYPT_FAILED'', 0x42),
      (''FUNCTION_CANCELED'', 0x50),
      (''FUNCTION_NOT_PARALLEL'', 0x51),
      (''FUNCTION_NOT_SUPPORTED'', 0x54),
      (''KEY_HANDLE_INVALID'', 0x60),
      (''KEY_SIZE_RANGE'', 0x62),
      (''KEY_TYPE_INCONSISTENT'', 0x63),
      (''KEY_NOT_NEEDED'', 0x64),
      (''KEY_CHANGED'', 0x65),
      (''KEY_NEEDED'', 0x66),
      (''KEY_INDIGESTIBLE'', 0x67),
      (''KEY_FUNCTION_NOT_PERMITTED'', 0x68),
      (''KEY_NOT_WRAPPABLE'', 0x69),
      (''KEY_UNEXTRACTABLE'', 0x6A),
      (''MECHANISM_INVALID'', 0x70),
      (''MECHANISM_PARAM_INVALID'', 0x71),
      (''OBJECT_HANDLE_INVALID'', 0x82),
      (''OPERATION_ACTIVE'', 0x90),
      (''OPERATION_NOT_INITIALIZED'', 0x91),
      (''PIN_INCORRECT'', 0xA0),
      (''PIN_INVALID'', 0xA1),
      (''PIN_LEN_RANGE'', 0xA2),
      (''PIN_EXPIRED'', 0xA3),
      (''PIN_LOCKED'', 0xA4),
      (''SESSION_CLOSED'', 0xB0),
      (''SESSION_COUNT'', 0xB1),
      (''SESSION_HANDLE_INVALID'', 0xB3),
      (''SESSION_PARALLEL_NOT_SUPPORTED'', 0xB4),
      (''SESSION_READ_ONLY'', 0xB5),
      (''SESSION_EXISTS'', 0xB6),
      (''SESSION_READ_ONLY_EXISTS'', 0xB7),
      (''SESSION_READ_WRITE_SO_EXISTS'', 0xB8),
      (''SIGNATURE_INVALID'', 0xC0),
      (''SIGNATURE_LEN_RANGE'', 0xC1),
      (''TEMPLATE_INCOMPLETE'', 0xD0),
      (''TEMPLATE_INCONSISTENT'', 0xD1),
      (''TOKEN_NOT_PRESENT'', 0xE0),
      (''TOKEN_NOT_RECOGNIZED'', 0xE1),
      (''TOKEN_WRITE_PROTECTED'', 0xE2),
      (''UNWRAPPING_KEY_HANDLE_INVALID'', 0xF0),
      (''UNWRAPPING_KEY_SIZE_RANGE'', 0xF1),
      (''UNWRAPPING_KEY_TYPE_INCONSISTENT'', 0xF2),
      (''USER_ALREADY_LOGGED_IN'', 0x100),
      (''USER_NOT_LOGGED_IN'', 0x101),
      (''USER_PIN_NOT_INITIALIZED'', 0x102),
      (''USER_TYPE_INVALID'', 0x103),
      (''USER_ANOTHER_ALREADY_LOGGED_IN'', 0x104),
      (''USER_TOO_MANY_TYPES'', 0x105),
      (''WRAPPED_KEY_INVALID'', 0x110),
      (''WRAPPED_KEY_LEN_RANGE'', 0x112),
      (''WRAPPING_KEY_HANDLE_INVALID'', 0x113),
      (''WRAPPING_KEY_SIZE_RANGE'', 0x114),
      (''WRAPPING_KEY_TYPE_INCONSISTENT'', 0x115),
      (''RANDOM_SEED_NOT_SUPPORTED'', 0x120),
      (''RANDOM_NO_RNG'', 0x121),
      (''DOMAIN_PARAMS_INVALID'', 0x130),
      (''CURVE_NOT_SUPPORTED'', 0x140),
      (''BUFFER_TOO_SMALL'', 0x150),
      (''SAVED_STATE_INVALID'', 0x160),
      (''INFORMATION_SENSITIVE'', 0x170),
      (''STATE_UNSAVEABLE'', 0x180),
      (''CRYPTOKI_NOT_INITIALIZED'', 0x190),
      (''CRYPTOKI_ALREADY_INITIALIZED'', 0x191),
      (''MUTEX_BAD'', 0x1A0),
      (''MUTEX_NOT_LOCKED'', 0x1A1),
      (''NEW_PIN_MODE'', 0x1B0),
      (''NEXT_OTP'', 0x1B1),
      (''EXCEEDED_MAX_ITERATIONS'', 0x1B5),
      (''FIPS_SELF_TEST_FAILED'', 0x1B6),
      (''LIBRARY_LOAD_FAILED'', 0x1B7),
      (''PIN_TOO_WEAK'', 0x1B8),
      (''PUBLIC_KEY_INVALID'', 0x1B9),
      (''FUNCTION_REJECTED'', 0x200),
      (''TOKEN_RESOURCE_EXCEEDED'', 0x201),
      (''OPERATION_CANCEL_FAILED'', 0x202),
      (''KEY_EXHAUSTED'', 0x203),
      (''PENDING'', 0x204),
      (''SESSION_ASYNC_NOT_SUPPORTED'', 0x205),
      (''SEED_RANDOM_REQUIRED'', 0x206),
      (''OPERATION_NOT_VALIDATED'', 0x207),
      (''TOKEN_NOT_INITIALIZED'', 0x208),
      (''PARAMETER_SET_NOT_SUPPORTED'', 0x209),
      (''VENDOR_DEFINED'', 0x80000000)]"

text \<open>The name part of \<^verbatim>\<open>Display\<close>: the first arm that matches, else \<^verbatim>\<open>CKR_UNKNOWN\<close>.\<close>

definition ck_rv_name :: "CkRv \<Rightarrow> string" where
  "ck_rv_name rv =
     (case find (\<lambda>(n, v). v = rv_raw rv) ck_rv_table of
        Some (n, v) \<Rightarrow> ''CKR_'' @ n | None \<Rightarrow> ''CKR_UNKNOWN'')"

section \<open>Sessions and users\<close>

datatype CkSessionState = RoPublic | RoUser | RwPublic | RwUser | RwSo

datatype CkSessionFlags = CkSessionFlags (sf_raw: u64)

definition RW_SESSION :: CkSessionFlags where
  "RW_SESSION = CkSessionFlags 2"

definition SERIAL_SESSION :: CkSessionFlags where
  "SERIAL_SESSION = CkSessionFlags 4"

definition session_flags_is_rw :: "CkSessionFlags \<Rightarrow> bool" where
  "session_flags_is_rw f = (sf_raw f AND sf_raw RW_SESSION \<noteq> 0)"

definition session_flags_or :: "CkSessionFlags \<Rightarrow> CkSessionFlags \<Rightarrow> CkSessionFlags" where
  "session_flags_or a b = CkSessionFlags (sf_raw a OR sf_raw b)"

datatype CkUserType = UserTypeSo | UserTypeUser | UserTypeContextSpecific

definition ck_user_type_from_raw :: "u64 \<Rightarrow> CkUserType option" where
  "ck_user_type_from_raw v =
     (if v = 0 then Some UserTypeSo
      else if v = 1 then Some UserTypeUser
      else if v = 2 then Some UserTypeContextSpecific
      else None)"

end
