(* ===== verification/Client_Instance.thy ===== *)
theory Client_Instance
  imports Handle_Map Slot_Map Connection_State Ck_Types
begin

text \<open>
  The logical client instance of \<^verbatim>\<open>crates/server/src/server/context_manager.rs\<close>: the daemon-side
  PKCS\#11 application with its session and object tables, its per-object caches and its logical
  login per token.  \<^verbatim>\<open>Instant::now()\<close> and the random identifier are arguments.  The reference counted
  cells behind \<^verbatim>\<open>connection_state\<close> and \<^verbatim>\<open>message_operations\<close> are addresses.
\<close>

type_synonym ClientContextId = string
type_synonym bytes = "u8 list"

datatype LoginState = Public | User | So

datatype MessageOperation = MsgEncrypt | MsgDecrypt | MsgSign | MsgVerify

datatype MessageParameterShape = Unmodeled | Gcm | Ccm | SalsaChacha

type_synonym MessageOperationState = "MessageParameterShape option"
type_synonym msg_ref = nat

record ObjectMetadata =
  om_unique_id :: bytes
  om_class :: "CkObjectClass option"
  om_is_token :: bool

record CachedAttr =
  ca_value :: bytes
  ca_ck_rv :: u64

record GatedObjectMetadata =
  gm_generation :: u64
  gm_meta :: ObjectMetadata

record LogicalClientInstance =
  lc_id :: ClientContextId
  lc_created_at :: instant
  lc_last_active :: instant
  lc_session_handles :: HandleMap
  lc_session_slots :: "(VirtualHandle, BackendSlotId) hashmap"
  lc_object_handles :: HandleMap
  lc_object_metadata :: "(VirtualHandle, ObjectMetadata) hashmap"
  lc_token_object_metadata :: "(VirtualHandle, GatedObjectMetadata) hashmap"
  lc_session_objects :: "(VirtualHandle, VirtualHandle list) hashmap"
  lc_login_state :: "(BackendSlotId, LoginState) hashmap"
  lc_contended_slot_login :: "BackendSlotId set"
  lc_authenticated_identity :: "string option"
  lc_connection_state :: "conn_ref list option"
  lc_last_peer_ip :: "string option"
  lc_created_objects :: "VirtualHandle set"
  lc_object_private :: "(VirtualHandle, bool) hashmap"
  lc_destroyed_objects :: "VirtualHandle set"
  lc_attr_cache :: "(VirtualHandle \<times> CkAttributeType, CachedAttr) hashmap"
  lc_in_flight :: int
  lc_message_operations :: "(VirtualHandle \<times> MessageOperation, msg_ref) hashmap"

definition client_new ::
  "ClientContextId \<Rightarrow> instant \<Rightarrow> string option \<Rightarrow> conn_ref option \<Rightarrow> LogicalClientInstance" where
  "client_new cid now identity connection =
     \<lparr>lc_id = cid, lc_created_at = now, lc_last_active = now,
      lc_session_handles = handle_map_new, lc_session_slots = [],
      lc_object_handles = handle_map_new, lc_object_metadata = [], lc_token_object_metadata = [],
      lc_session_objects = [], lc_login_state = [], lc_contended_slot_login = {},
      lc_authenticated_identity = identity,
      lc_connection_state = map_option (\<lambda>state. [state]) connection,
      lc_last_peer_ip = None, lc_created_objects = {}, lc_object_private = [],
      lc_destroyed_objects = {}, lc_attr_cache = [], lc_in_flight = 0,
      lc_message_operations = []\<rparr>"

section \<open>Transport binding\<close>

text \<open>
  A \<^verbatim>\<open>Weak\<close> that does not upgrade and a state that is closed are both dead
  (\<^const>\<open>conn_is_closed\<close> is true at an address that is not allocated).
\<close>

definition live_connection_bindings ::
  "conn_world \<Rightarrow> LogicalClientInstance \<Rightarrow> (bool \<times> conn_ref list) \<times> LogicalClientInstance" where
  "live_connection_bindings w c =
     (case lc_connection_state c of
        None \<Rightarrow> ((False, []), c)
      | Some entries \<Rightarrow>
          let live = filter (\<lambda>r. \<not> conn_is_closed w r) entries
          in ((True, live), c\<lparr>lc_connection_state := Some live\<rparr>))"

definition rebind_connection ::
  "conn_world \<Rightarrow> conn_ref option \<Rightarrow> LogicalClientInstance \<Rightarrow> LogicalClientInstance" where
  "rebind_connection w connection c =
     (case connection of
        None \<Rightarrow> c
      | Some state \<Rightarrow>
          if conn_is_closed w state then c
          else (case lc_connection_state c of
                  None \<Rightarrow> c\<lparr>lc_connection_state := Some [state]\<rparr>
                | Some entries \<Rightarrow>
                    let live = filter (\<lambda>r. \<not> conn_is_closed w r) entries
                    in c\<lparr>lc_connection_state :=
                           Some (if state \<in> set live then live else live @ [state])\<rparr>))"

definition is_transport_dead :: "conn_world \<Rightarrow> LogicalClientInstance \<Rightarrow> bool" where
  "is_transport_dead w c =
     (let (ever_bound, live) = fst (live_connection_bindings w c) in ever_bound \<and> live = [])"

definition live_connection_state :: "conn_world \<Rightarrow> LogicalClientInstance \<Rightarrow> conn_ref option" where
  "live_connection_state w c =
     (case snd (fst (live_connection_bindings w c)) of [] \<Rightarrow> None | r # _ \<Rightarrow> Some r)"

definition same_connection_as :: "conn_world \<Rightarrow> conn_ref option \<Rightarrow> LogicalClientInstance \<Rightarrow> bool" where
  "same_connection_as w other c =
     (let (ever_bound, live) = fst (live_connection_bindings w c) in
      case other of
        None \<Rightarrow> \<not> ever_bound
      | Some r \<Rightarrow> \<not> conn_is_closed w r \<and> r \<in> set live)"

section \<open>Sessions and objects\<close>

definition client_touch :: "instant \<Rightarrow> LogicalClientInstance \<Rightarrow> LogicalClientInstance" where
  "client_touch now c = c\<lparr>lc_last_active := now\<rparr>"

definition register_session ::
  "BackendHandle \<Rightarrow> BackendSlotId \<Rightarrow> LogicalClientInstance \<Rightarrow> VirtualHandle \<times> LogicalClientInstance" where
  "register_session backend slot c =
     (let (virt, sh) = handle_map_insert backend (lc_session_handles c) in
      (virt, c\<lparr>lc_session_handles := sh, lc_session_slots := hput virt slot (lc_session_slots c)\<rparr>))"

text \<open>The eviction of one session object, common to the two ways a session leaves.\<close>

definition evict_object :: "VirtualHandle \<Rightarrow> LogicalClientInstance \<Rightarrow> LogicalClientInstance" where
  "evict_object object c =
     c\<lparr>lc_object_handles := snd (handle_map_remove object (lc_object_handles c)),
       lc_object_metadata := hdel object (lc_object_metadata c),
       lc_token_object_metadata := hdel object (lc_token_object_metadata c),
       lc_created_objects := lc_created_objects c - {object},
       lc_object_private := hdel object (lc_object_private c),
       lc_attr_cache := hretain (\<lambda>(attr_vh, _) _. attr_vh \<noteq> object) (lc_attr_cache c)\<rparr>"

definition evict_session_objects :: "VirtualHandle \<Rightarrow> LogicalClientInstance \<Rightarrow> LogicalClientInstance" where
  "evict_session_objects session c =
     (case hget (lc_session_objects c) session of
        None \<Rightarrow> c
      | Some objects \<Rightarrow>
          fold evict_object objects
            (c\<lparr>lc_session_objects := hdel session (lc_session_objects c)\<rparr>))"

definition forget_message_operations ::
  "VirtualHandle \<Rightarrow> LogicalClientInstance \<Rightarrow> LogicalClientInstance" where
  "forget_message_operations session c =
     c\<lparr>lc_message_operations :=
         hretain (\<lambda>(owned_session, _) _. owned_session \<noteq> session) (lc_message_operations c)\<rparr>"

definition clear_slot_login :: "BackendSlotId \<Rightarrow> LogicalClientInstance \<Rightarrow> LogicalClientInstance" where
  "clear_slot_login slot c =
     c\<lparr>lc_login_state := hdel slot (lc_login_state c),
       lc_contended_slot_login := lc_contended_slot_login c - {slot}\<rparr>"

fun remove_slot_sessions ::
  "VirtualHandle list \<Rightarrow> LogicalClientInstance \<Rightarrow> BackendHandle list \<times> LogicalClientInstance" where
  "remove_slot_sessions [] c = ([], c)"
| "remove_slot_sessions (vh # vhs) c =
     (let c1 = c\<lparr>lc_session_slots := hdel vh (lc_session_slots c)\<rparr>;
          c2 = evict_session_objects vh (forget_message_operations vh c1);
          (removed, sh) = handle_map_remove vh (lc_session_handles c2);
          (rest, c3) = remove_slot_sessions vhs (c2\<lparr>lc_session_handles := sh\<rparr>)
      in (case removed of Some bh \<Rightarrow> bh # rest | None \<Rightarrow> rest, c3))"

definition remove_sessions_for_slot ::
  "BackendSlotId \<Rightarrow> LogicalClientInstance \<Rightarrow> BackendHandle list \<times> LogicalClientInstance" where
  "remove_sessions_for_slot slot c =
     (let to_remove = map fst (filter (\<lambda>(vh, s). s = slot) (lc_session_slots c));
          (backend_handles, c1) = remove_slot_sessions to_remove c
      in (backend_handles, clear_slot_login slot c1))"

definition record_session_object ::
  "VirtualHandle \<Rightarrow> VirtualHandle \<Rightarrow> LogicalClientInstance \<Rightarrow> LogicalClientInstance" where
  "record_session_object session object c =
     c\<lparr>lc_session_objects :=
         hput session (case hget (lc_session_objects c) session of
                         None \<Rightarrow> [object] | Some objects \<Rightarrow> objects @ [object])
           (lc_session_objects c)\<rparr>"

definition has_session_for_slot :: "LogicalClientInstance \<Rightarrow> BackendSlotId \<Rightarrow> bool" where
  "has_session_for_slot c slot = list_ex (\<lambda>s. s = slot) (hvalues (lc_session_slots c))"

definition remove_session ::
  "VirtualHandle \<Rightarrow> LogicalClientInstance \<Rightarrow> BackendHandle option \<times> LogicalClientInstance" where
  "remove_session session c =
     (let slot = hget (lc_session_slots c) session;
          c1 = c\<lparr>lc_session_slots := hdel session (lc_session_slots c)\<rparr>;
          (backend_handle, sh) = handle_map_remove session (lc_session_handles c1);
          c2 = evict_session_objects session
                 (forget_message_operations session (c1\<lparr>lc_session_handles := sh\<rparr>))
      in (backend_handle,
          case slot of
            None \<Rightarrow> c2
          | Some s \<Rightarrow> if has_session_for_slot c2 s then c2 else clear_slot_login s c2))"

definition has_open_backend_sessions :: "LogicalClientInstance \<Rightarrow> bool" where
  "has_open_backend_sessions c = (handle_map_backend_handles (lc_session_handles c) \<noteq> [])"

definition client_teardown :: "LogicalClientInstance \<Rightarrow> u64 list \<times> LogicalClientInstance" where
  "client_teardown c =
     (map bh_raw (handle_map_backend_handles (lc_session_handles c)),
      c\<lparr>lc_session_handles := handle_map_clear (lc_session_handles c),
        lc_session_slots := [],
        lc_object_handles := handle_map_clear (lc_object_handles c),
        lc_object_metadata := [], lc_token_object_metadata := [], lc_session_objects := [],
        lc_created_objects := {}, lc_object_private := [], lc_attr_cache := [],
        lc_login_state := [], lc_contended_slot_login := {}, lc_message_operations := []\<rparr>)"

section \<open>Invariant\<close>

text \<open>
  Both handle tables are well formed, every map has one entry per key, and the sessions with an
  owning slot are exactly those the session table still binds (live or with a close in flight).
\<close>

definition client_inv :: "LogicalClientInstance \<Rightarrow> bool" where
  "client_inv c =
     (handle_map_inv (lc_session_handles c) \<and> handle_map_inv (lc_object_handles c)
      \<and> hwf (lc_session_slots c) \<and> hwf (lc_object_metadata c) \<and> hwf (lc_token_object_metadata c)
      \<and> hwf (lc_session_objects c) \<and> hwf (lc_login_state c) \<and> hwf (lc_object_private c)
      \<and> hwf (lc_attr_cache c) \<and> hwf (lc_message_operations c)
      \<and> set (hkeys (lc_session_slots c)) =
          set (hkeys (hm_virtual_to_backend (lc_session_handles c)))
          \<union> set (hkeys (hm_suspended (lc_session_handles c))))"

lemma bound_keys:
  "v \<in> set (hkeys (hm_virtual_to_backend m)) \<union> set (hkeys (hm_suspended m)) \<longleftrightarrow>
   handle_map_binding m v \<noteq> None"
  by (auto simp: set_hkeys handle_map_binding_alt split: option.splits)

lemma client_inv_iff:
  "client_inv c \<longleftrightarrow>
     handle_map_inv (lc_session_handles c) \<and> handle_map_inv (lc_object_handles c)
     \<and> hwf (lc_session_slots c) \<and> hwf (lc_object_metadata c) \<and> hwf (lc_token_object_metadata c)
     \<and> hwf (lc_session_objects c) \<and> hwf (lc_login_state c) \<and> hwf (lc_object_private c)
     \<and> hwf (lc_attr_cache c) \<and> hwf (lc_message_operations c)
     \<and> (\<forall>v. hget (lc_session_slots c) v \<noteq> None \<longleftrightarrow>
            handle_map_binding (lc_session_handles c) v \<noteq> None)"
  unfolding client_inv_def set_eq_iff bound_keys set_hkeys by (rule refl)

lemma client_new_inv: "client_inv (client_new cid now ident conn)"
  by (simp add: client_inv_def client_new_def handle_map_new_inv hkeys_def)
    (simp add: handle_map_new_def)

section \<open>Eviction of objects\<close>

lemmas evict_defs = evict_object_def evict_session_objects_def forget_message_operations_def
  clear_slot_login_def

text \<open>Eviction leaves the session side and the bookkeeping of the context alone.\<close>

lemma evict_objects_frame [simp]:
  "lc_session_handles (fold evict_object objs c) = lc_session_handles c"
  "lc_session_slots (fold evict_object objs c) = lc_session_slots c"
  "lc_session_objects (fold evict_object objs c) = lc_session_objects c"
  "lc_login_state (fold evict_object objs c) = lc_login_state c"
  "lc_contended_slot_login (fold evict_object objs c) = lc_contended_slot_login c"
  "lc_message_operations (fold evict_object objs c) = lc_message_operations c"
  "lc_in_flight (fold evict_object objs c) = lc_in_flight c"
  "lc_id (fold evict_object objs c) = lc_id c"
  "lc_created_at (fold evict_object objs c) = lc_created_at c"
  "lc_last_active (fold evict_object objs c) = lc_last_active c"
  "lc_authenticated_identity (fold evict_object objs c) = lc_authenticated_identity c"
  "lc_connection_state (fold evict_object objs c) = lc_connection_state c"
  "lc_destroyed_objects (fold evict_object objs c) = lc_destroyed_objects c"
  by (induction objs arbitrary: c) (simp_all add: evict_object_def)

lemma evict_objects_commute:
  "(fold evict_object objs c)\<lparr>lc_session_handles := sh\<rparr> =
   fold evict_object objs (c\<lparr>lc_session_handles := sh\<rparr>)"
proof (induction objs arbitrary: c)
  case (Cons v objs)
  have "(evict_object v c)\<lparr>lc_session_handles := sh\<rparr> = evict_object v (c\<lparr>lc_session_handles := sh\<rparr>)"
    by (simp add: evict_object_def)
  then show ?case using Cons.IH[of "evict_object v c"] by simp
qed simp

text \<open>Everything a context records about one object, as seen by later requests.\<close>

record object_view =
  ov_binding :: "BackendHandle option"
  ov_metadata :: "ObjectMetadata option"
  ov_token_metadata :: "GatedObjectMetadata option"
  ov_created :: bool
  ov_private :: "bool option"
  ov_attrs :: "CkAttributeType \<Rightarrow> CachedAttr option"

definition view_object :: "LogicalClientInstance \<Rightarrow> VirtualHandle \<Rightarrow> object_view" where
  "view_object c v =
     \<lparr>ov_binding = handle_map_binding (lc_object_handles c) v,
      ov_metadata = hget (lc_object_metadata c) v,
      ov_token_metadata = hget (lc_token_object_metadata c) v,
      ov_created = (v \<in> lc_created_objects c),
      ov_private = hget (lc_object_private c) v,
      ov_attrs = (\<lambda>a. hget (lc_attr_cache c) (v, a))\<rparr>"

definition no_object :: object_view where
  "no_object = \<lparr>ov_binding = None, ov_metadata = None, ov_token_metadata = None, ov_created = False,
     ov_private = None, ov_attrs = Map.empty\<rparr>"

definition client_objects_wf :: "LogicalClientInstance \<Rightarrow> bool" where
  "client_objects_wf c = (handle_map_inv (lc_object_handles c) \<and> hwf (lc_attr_cache c)
     \<and> hwf (lc_object_metadata c) \<and> hwf (lc_token_object_metadata c) \<and> hwf (lc_object_private c))"

lemma evict_object_wf: "client_objects_wf c \<Longrightarrow> client_objects_wf (evict_object v c)"
  by (simp add: client_objects_wf_def evict_object_def handle_map_remove_inv)

lemma evict_object_view:
  "client_objects_wf c \<Longrightarrow>
   view_object (evict_object v c) w = (if w = v then no_object else view_object c w)"
  by (auto simp: client_objects_wf_def view_object_def no_object_def evict_object_def
      handle_map_remove_binding hget_hretain fun_eq_iff split: option.splits)

lemma evict_objects_view:
  "client_objects_wf c \<Longrightarrow>
   client_objects_wf (fold evict_object objs c)
   \<and> view_object (fold evict_object objs c) w =
       (if w \<in> set objs then no_object else view_object c w)"
  by (induction objs arbitrary: c) (simp_all add: evict_object_wf evict_object_view)

definition objects_of :: "LogicalClientInstance \<Rightarrow> VirtualHandle \<Rightarrow> VirtualHandle list" where
  "objects_of c session = (case hget (lc_session_objects c) session of None \<Rightarrow> [] | Some objs \<Rightarrow> objs)"

lemma evict_session_objects_alt:
  "evict_session_objects session c =
     fold evict_object (objects_of c session)
       (c\<lparr>lc_session_objects := hdel session (lc_session_objects c)\<rparr>)"
  by (simp add: evict_session_objects_def objects_of_def hdel_absent split: option.split)

lemma view_object_cong:
  assumes "lc_object_handles c = lc_object_handles d" "lc_object_metadata c = lc_object_metadata d"
    "lc_token_object_metadata c = lc_token_object_metadata d"
    "lc_created_objects c = lc_created_objects d" "lc_object_private c = lc_object_private d"
    "lc_attr_cache c = lc_attr_cache d"
  shows "view_object c v = view_object d v" "client_objects_wf c = client_objects_wf d"
  using assms by (simp_all add: view_object_def client_objects_wf_def)

lemma client_inv_objects_wf: "client_inv c \<Longrightarrow> client_objects_wf c"
  by (simp add: client_inv_iff client_objects_wf_def)

section \<open>Removing sessions\<close>

lemma handle_map_remove_result: "fst (handle_map_remove v m) = handle_map_binding m v"
  by (auto simp: handle_map_remove_def handle_map_binding_alt split: option.splits)

lemma clear_slot_login_frame [simp]:
  "lc_session_handles (clear_slot_login s c) = lc_session_handles c"
  "lc_session_slots (clear_slot_login s c) = lc_session_slots c"
  "lc_session_objects (clear_slot_login s c) = lc_session_objects c"
  "lc_message_operations (clear_slot_login s c) = lc_message_operations c"
  "lc_in_flight (clear_slot_login s c) = lc_in_flight c"
  "lc_id (clear_slot_login s c) = lc_id c"
  "lc_created_at (clear_slot_login s c) = lc_created_at c"
  "lc_last_active (clear_slot_login s c) = lc_last_active c"
  "lc_authenticated_identity (clear_slot_login s c) = lc_authenticated_identity c"
  "lc_connection_state (clear_slot_login s c) = lc_connection_state c"
  "view_object (clear_slot_login s c) = view_object c"
  "client_objects_wf (clear_slot_login s c) = client_objects_wf c"
  by (simp_all add: clear_slot_login_def view_object_def client_objects_wf_def fun_eq_iff)

lemma clear_slot_login_login [simp]:
  "lc_login_state (clear_slot_login s c) = hdel s (lc_login_state c)"
  "lc_contended_slot_login (clear_slot_login s c) = lc_contended_slot_login c - {s}"
  by (simp_all add: clear_slot_login_def)

text \<open>The context without one session, before the login of its slot is looked at.\<close>

definition drop_session :: "VirtualHandle \<Rightarrow> LogicalClientInstance \<Rightarrow> LogicalClientInstance" where
  "drop_session s c =
     evict_session_objects s (forget_message_operations s
       (c\<lparr>lc_session_slots := hdel s (lc_session_slots c),
          lc_session_handles := snd (handle_map_remove s (lc_session_handles c))\<rparr>))"

lemma drop_session_fields [simp]:
  "lc_session_handles (drop_session s c) = snd (handle_map_remove s (lc_session_handles c))"
  "lc_session_slots (drop_session s c) = hdel s (lc_session_slots c)"
  "lc_session_objects (drop_session s c) = hdel s (lc_session_objects c)"
  "lc_login_state (drop_session s c) = lc_login_state c"
  "lc_contended_slot_login (drop_session s c) = lc_contended_slot_login c"
  "lc_message_operations (drop_session s c) =
     hretain (\<lambda>(owned_session, _) _. owned_session \<noteq> s) (lc_message_operations c)"
  "lc_in_flight (drop_session s c) = lc_in_flight c"
  "lc_id (drop_session s c) = lc_id c"
  "lc_created_at (drop_session s c) = lc_created_at c"
  "lc_last_active (drop_session s c) = lc_last_active c"
  "lc_authenticated_identity (drop_session s c) = lc_authenticated_identity c"
  "lc_connection_state (drop_session s c) = lc_connection_state c"
  by (simp_all add: drop_session_def evict_session_objects_alt forget_message_operations_def)

lemma drop_session_view:
  assumes "client_objects_wf c"
  shows "client_objects_wf (drop_session s c)
    \<and> view_object (drop_session s c) v =
        (if v \<in> set (objects_of c s) then no_object else view_object c v)"
proof -
  let ?d = "forget_message_operations s
       (c\<lparr>lc_session_slots := hdel s (lc_session_slots c),
          lc_session_handles := snd (handle_map_remove s (lc_session_handles c))\<rparr>)"
  let ?e = "?d\<lparr>lc_session_objects := hdel s (lc_session_objects ?d)\<rparr>"
  have wf: "client_objects_wf ?e = client_objects_wf c" and view: "view_object ?e v = view_object c v"
    by (rule view_object_cong; simp add: forget_message_operations_def)+
  have objs: "objects_of ?d s = objects_of c s"
    by (simp add: objects_of_def forget_message_operations_def)
  show ?thesis
    unfolding drop_session_def evict_session_objects_alt objs
    using evict_objects_view[of ?e "objects_of c s" v] wf view assms by simp
qed

lemma drop_session_inv: "client_inv c \<Longrightarrow> client_inv (drop_session s c)"
  using drop_session_view[OF client_inv_objects_wf, of c s]
  by (auto simp: client_inv_iff client_objects_wf_def handle_map_remove_inv
      handle_map_remove_binding)

lemma remove_session_alt:
  "remove_session s c =
     (handle_map_binding (lc_session_handles c) s,
      case hget (lc_session_slots c) s of
        None \<Rightarrow> drop_session s c
      | Some slot \<Rightarrow> if has_session_for_slot (drop_session s c) slot then drop_session s c
                     else clear_slot_login slot (drop_session s c))"
  using handle_map_remove_result[of s "lc_session_handles c"]
  by (simp add: remove_session_def drop_session_def Let_def case_prod_beta split: option.split)

lemma has_session_for_slot_iff:
  "hwf (lc_session_slots c) \<Longrightarrow>
   has_session_for_slot c slot \<longleftrightarrow> (\<exists>v. hget (lc_session_slots c) v = Some slot)"
  by (simp add: has_session_for_slot_def list_ex_iff set_hvalues)

lemma clear_slot_login_inv: "client_inv c \<Longrightarrow> client_inv (clear_slot_login slot c)"
  using client_inv_objects_wf[of c]
  by (auto simp: client_inv_iff client_objects_wf_def clear_slot_login_def)

lemma remove_session_inv: "client_inv c \<Longrightarrow> client_inv (snd (remove_session s c))"
  by (simp add: remove_session_alt drop_session_inv clear_slot_login_inv split: option.split)

lemma remove_session_frame [simp]:
  "lc_session_handles (snd (remove_session s c)) = snd (handle_map_remove s (lc_session_handles c))"
  "lc_session_slots (snd (remove_session s c)) = hdel s (lc_session_slots c)"
  "lc_in_flight (snd (remove_session s c)) = lc_in_flight c"
  "lc_id (snd (remove_session s c)) = lc_id c"
  "lc_created_at (snd (remove_session s c)) = lc_created_at c"
  "lc_last_active (snd (remove_session s c)) = lc_last_active c"
  "lc_authenticated_identity (snd (remove_session s c)) = lc_authenticated_identity c"
  "lc_connection_state (snd (remove_session s c)) = lc_connection_state c"
  by (simp_all add: remove_session_alt split: option.split)

lemma remove_session_result: "fst (remove_session s c) = handle_map_binding (lc_session_handles c) s"
  by (simp add: remove_session_alt)

lemma remove_session_view:
  "client_inv c \<Longrightarrow> view_object (snd (remove_session s c)) v =
     (if v \<in> set (objects_of c s) then no_object else view_object c v)"
  using drop_session_view[OF client_inv_objects_wf, of c s v]
  by (simp add: remove_session_alt split: option.split)

lemma remove_session_login:
  "client_inv c \<Longrightarrow> hget (lc_login_state (snd (remove_session s c))) slot =
     (if hget (lc_session_slots c) s = Some slot
         \<and> (\<forall>v. v \<noteq> s \<longrightarrow> hget (lc_session_slots c) v \<noteq> Some slot)
      then None else hget (lc_login_state c) slot)"
  by (auto simp: remove_session_alt has_session_for_slot_iff client_inv_iff split: option.split)

lemma remove_slot_sessions_spec:
  "client_inv c \<Longrightarrow> distinct vhs \<Longrightarrow>
   client_inv (snd (remove_slot_sessions vhs c))
   \<and> hget (lc_session_slots (snd (remove_slot_sessions vhs c))) v =
       (if v \<in> set vhs then None else hget (lc_session_slots c) v)
   \<and> handle_map_binding (lc_session_handles (snd (remove_slot_sessions vhs c))) v =
       (if v \<in> set vhs then None else handle_map_binding (lc_session_handles c) v)
   \<and> set (fst (remove_slot_sessions vhs c)) =
       {b. \<exists>v \<in> set vhs. handle_map_binding (lc_session_handles c) v = Some b}"
proof (induction vhs arbitrary: c)
  case (Cons s vhs)
  let ?d = "drop_session s c"
  have d: "client_inv ?d" by (rule drop_session_inv[OF Cons.prems(1)])
  have unf: "remove_slot_sessions (s # vhs) c =
      (case handle_map_binding (lc_session_handles c) s of
         Some bh \<Rightarrow> bh # fst (remove_slot_sessions vhs ?d)
       | None \<Rightarrow> fst (remove_slot_sessions vhs ?d), snd (remove_slot_sessions vhs ?d))"
  proof -
    let ?c1 = "c\<lparr>lc_session_slots := hdel s (lc_session_slots c)\<rparr>"
    let ?c2 = "evict_session_objects s (forget_message_operations s ?c1)"
    have sh: "lc_session_handles ?c2 = lc_session_handles c"
      by (simp add: evict_session_objects_alt forget_message_operations_def)
    have "?c2\<lparr>lc_session_handles := snd (handle_map_remove s (lc_session_handles c))\<rparr> = ?d"
      unfolding drop_session_def evict_session_objects_alt evict_objects_commute
      by (intro arg_cong2[where f="fold evict_object"])
        (simp_all add: forget_message_operations_def objects_of_def)
    then show ?thesis
      using handle_map_remove_result[of s "lc_session_handles c"] sh
      by (simp add: Let_def case_prod_beta split: option.split)
  qed
  have bind: "handle_map_binding (lc_session_handles ?d) =
      (handle_map_binding (lc_session_handles c))(s := None)"
    using Cons.prems(1) by (simp add: handle_map_remove_binding client_inv_iff)
  show ?case
    using Cons.IH[OF d] Cons.prems(2) bind
    by (auto simp: unf simp del: remove_slot_sessions.simps split: option.splits if_splits)
qed simp

lemma slot_sessions:
  "hwf (lc_session_slots c) \<Longrightarrow>
   distinct (map fst (filter (\<lambda>(vh, s). s = slot) (lc_session_slots c)))
   \<and> (v \<in> set (map fst (filter (\<lambda>(vh, s). s = slot) (lc_session_slots c)))
        \<longleftrightarrow> hget (lc_session_slots c) v = Some slot)"
  using hwf_filter[of "lc_session_slots c" "\<lambda>(vh, s). s = slot"]
  by (force simp: hwf_def[of "filter _ _"] hget_eq_Some_iff)

lemma client_inv_bound:
  "client_inv c \<Longrightarrow> hget (lc_session_slots c) v \<noteq> None \<longleftrightarrow>
     handle_map_binding (lc_session_handles c) v \<noteq> None"
  by (simp add: client_inv_iff)

section \<open>Properties\<close>

text \<open>
   Closing a session leaves nothing of it behind and touches nothing else.  The session no longer
  resolves and its backend handle is returned to the caller; of every session object recorded for
  it the handle, both metadata caches, the created mark, the privacy bit and all cached attributes
  are gone, while every other object looks exactly as before; the logical login of a slot is dropped
  precisely when this was the context's last session on that slot; and the context stays well
  formed.
\<close>
theorem remove_session_exact:
  assumes "client_inv c" "remove_session s c = (backend, c')"
  shows "client_inv c'
    \<and> backend = handle_map_binding (lc_session_handles c) s
    \<and> handle_map_binding (lc_session_handles c') =
        (handle_map_binding (lc_session_handles c))(s := None)
    \<and> view_object c' v = (if v \<in> set (objects_of c s) then no_object else view_object c v)
    \<and> hget (lc_login_state c') slot =
        (if hget (lc_session_slots c) s = Some slot
            \<and> (\<forall>w. w \<noteq> s \<longrightarrow> hget (lc_session_slots c) w \<noteq> Some slot)
         then None else hget (lc_login_state c) slot)"
proof -
  have "c' = snd (remove_session s c)" "backend = fst (remove_session s c)"
    using assms(2) by simp_all
  then show ?thesis
    using remove_session_inv[OF assms(1), of s] remove_session_view[OF assms(1), of s v]
      remove_session_login[OF assms(1), of s slot] handle_map_remove_binding[of "lc_session_handles c" s]
      assms(1)
      client_inv_iff[of c] remove_session_result[of s c]
    by simp
qed

definition sample_client :: LogicalClientInstance where
  "sample_client =
     (let c0 = client_new ''ctx'' 0 None None;
          (s, c1) = register_session (BackendHandle 40) (BackendSlotId 3) c0;
          (ob, oh) = handle_map_insert (BackendHandle 77) (lc_object_handles c1)
      in record_session_object s ob
           (c1\<lparr>lc_object_handles := oh, lc_object_private := [(ob, True)],
               lc_login_state := [(BackendSlotId 3, User)]\<rparr>))"

lemma sample_client_inv: "client_inv sample_client"
  by code_simp

theorem remove_session_exact_witness:
  "view_object (snd (remove_session (VirtualHandle 1) sample_client)) (VirtualHandle 1) = no_object
   \<and> hget (lc_login_state (snd (remove_session (VirtualHandle 1) sample_client))) (BackendSlotId 3) = None
   \<and> fst (remove_session (VirtualHandle 1) sample_client) = Some (BackendHandle 40)"
proof -
  have "VirtualHandle 1 \<in> set (objects_of sample_client (VirtualHandle 1))"
    "handle_map_binding (lc_session_handles sample_client) (VirtualHandle 1) = Some (BackendHandle 40)"
    "lc_session_slots sample_client = [(VirtualHandle 1, BackendSlotId 3)]"
    by code_simp+
  then show ?thesis
    using remove_session_exact[OF sample_client_inv prod.collapse[symmetric],
        of "VirtualHandle 1" "VirtualHandle 1" "BackendSlotId 3"]
    by simp
qed

text \<open>
   Closing all sessions of a slot (\<^verbatim>\<open>C_CloseAllSessions\<close>) returns the backend handle of every
  session the context holds on that slot, including those with a close in flight, and no other;
  afterwards no session of the slot is bound, the sessions of other slots are, and the context has
  neither a logical login nor a contended-login mark for the slot.
\<close>
theorem remove_sessions_for_slot_exact:
  assumes "client_inv c" "remove_sessions_for_slot slot c = (handles, c')"
  shows "client_inv c'
    \<and> set handles = {b. \<exists>v. hget (lc_session_slots c) v = Some slot
                           \<and> handle_map_binding (lc_session_handles c) v = Some b}
    \<and> handle_map_binding (lc_session_handles c') v =
        (if hget (lc_session_slots c) v = Some slot then None
         else handle_map_binding (lc_session_handles c) v)
    \<and> hget (lc_login_state c') slot = None \<and> slot \<notin> lc_contended_slot_login c'"
proof -
  let ?vhs = "map fst (filter (\<lambda>(vh, s). s = slot) (lc_session_slots c))"
  let ?r = "remove_slot_sessions ?vhs c"
  have c': "c' = clear_slot_login slot (snd ?r)" and handles: "handles = fst ?r"
    using assms(2) by (auto simp: remove_sessions_for_slot_def Let_def case_prod_beta)
  have wf: "hwf (lc_session_slots c)" using assms(1) by (simp add: client_inv_iff)
  have dist: "distinct ?vhs" and mem: "\<And>w. w \<in> set ?vhs \<longleftrightarrow> hget (lc_session_slots c) w = Some slot"
    using slot_sessions[OF wf] by blast+
  note spec = remove_slot_sessions_spec[OF assms(1) dist]
  have "{b. \<exists>v \<in> set ?vhs. handle_map_binding (lc_session_handles c) v = Some b} =
      {b. \<exists>v. hget (lc_session_slots c) v = Some slot
            \<and> handle_map_binding (lc_session_handles c) v = Some b}"
    unfolding Bex_def mem by (rule refl)
  then show ?thesis
    using spec[of v] clear_slot_login_inv[of "snd ?r" slot] unfolding c' handles mem
    by simp
qed

theorem remove_sessions_for_slot_exact_witness:
  "set (fst (remove_sessions_for_slot (BackendSlotId 3) sample_client)) = {BackendHandle 40}"
proof -
  have slots: "lc_session_slots sample_client = [(VirtualHandle 1, BackendSlotId 3)]"
    and b: "handle_map_binding (lc_session_handles sample_client) (VirtualHandle 1) = Some (BackendHandle 40)"
    by code_simp+
  have "{b. \<exists>v. hget (lc_session_slots sample_client) v = Some (BackendSlotId 3)
      \<and> handle_map_binding (lc_session_handles sample_client) v = Some b} = {BackendHandle 40}"
    using b by (auto simp: slots split: if_splits)
  then show ?thesis
    using remove_sessions_for_slot_exact[OF sample_client_inv prod.collapse[symmetric],
        of "BackendSlotId 3"]
    by simp
qed

end
