(* ===== verification/Admission.thy ===== *)
theory Admission
  imports Prelude
begin

text \<open>
  The contract of check-and-reserve admission.  A caller reserves under a mutex (the check counts
  the live entries and the outstanding reservations), later commits its entry to a concurrently
  updated table, and only then drops the reservation; other callers interleave at every point, and
  a caller may also give up a reservation without committing.  Between commit and drop an entry is
  counted twice, which can only refuse more.  The context cap and the session quota both work this
  way; that the cap holds in every interleaving is proved here once.
\<close>

locale bounded_admission =
  fixes ok :: "'s \<Rightarrow> bool"
    and live :: "'s \<Rightarrow> nat"
    and outstanding :: "'s \<Rightarrow> nat"
    and cap :: nat
    and reserve :: "'t \<Rightarrow> 's \<Rightarrow> bool \<times> 's"
    and commit :: "'c \<Rightarrow> 's \<Rightarrow> 's"
    and release :: "'s \<Rightarrow> 's"
    and direct :: "'d \<Rightarrow> 's \<Rightarrow> 's"
  assumes reserve_ok: "ok s \<Longrightarrow> ok (snd (reserve t s))"
    and reserve_live: "ok s \<Longrightarrow> live (snd (reserve t s)) \<le> live s"
    and reserve_granted: "ok s \<Longrightarrow> fst (reserve t s) \<Longrightarrow>
      live (snd (reserve t s)) + outstanding s < cap
      \<and> outstanding (snd (reserve t s)) = Suc (outstanding s)"
    and reserve_refused: "ok s \<Longrightarrow> \<not> fst (reserve t s) \<Longrightarrow>
      outstanding (snd (reserve t s)) = outstanding s"
    and commit_ok: "ok s \<Longrightarrow> ok (commit c s)"
    and commit_live: "ok s \<Longrightarrow> live (commit c s) \<le> Suc (live s)"
    and commit_outstanding: "ok s \<Longrightarrow> outstanding (commit c s) = outstanding s"
    and release_ok: "ok s \<Longrightarrow> ok (release s)"
    and release_live: "ok s \<Longrightarrow> live (release s) \<le> live s"
    and release_outstanding: "ok s \<Longrightarrow> outstanding (release s) = outstanding s - 1"
    and direct_ok: "ok s \<Longrightarrow> ok (direct d s)"
    and direct_live: "ok s \<Longrightarrow> live (direct d s) \<le> live s
      \<or> live s + outstanding s < cap \<and> live (direct d s) \<le> Suc (live s)"
    and direct_outstanding: "ok s \<Longrightarrow> outstanding (direct d s) = outstanding s"
begin

text \<open>
  A configuration is the state with the number of callers that hold a reservation and have not
  committed, and of those that have committed and not yet dropped it.
\<close>

inductive admission_step :: "'s \<times> nat \<times> nat \<Rightarrow> 's \<times> nat \<times> nat \<Rightarrow> bool" where
  granted: "reserve t s = (True, s') \<Longrightarrow> admission_step (s, h, c) (s', Suc h, c)"
| refused: "reserve t s = (False, s') \<Longrightarrow> admission_step (s, h, c) (s', h, c)"
| committed: "admission_step (s, Suc h, c) (commit x s, h, Suc c)"
| abandoned: "admission_step (s, Suc h, c) (release s, h, c)"
| dropped: "admission_step (s, h, Suc c) (release s, h, c)"
| directly: "admission_step (s, h, c) (direct d s, h, c)"

definition admission_inv :: "'s \<times> nat \<times> nat \<Rightarrow> bool" where
  "admission_inv = (\<lambda>(s, h, c). ok s \<and> live s + h \<le> cap \<and> outstanding s = h + c)"

lemma admission_step_inv: "admission_step x y \<Longrightarrow> admission_inv x \<Longrightarrow> admission_inv y"
proof (induction rule: admission_step.induct)
  case (granted t s s' h c)
  then show ?case
    using reserve_granted[of s t] reserve_ok[of s t] by (auto simp: admission_inv_def)
next
  case (refused t s s' h c)
  then show ?case
    using reserve_refused[of s t] reserve_ok[of s t] reserve_live[of s t]
    by (auto simp: admission_inv_def)
next
  case (committed s h c x)
  then show ?case
    using commit_live[of s x] commit_ok[of s x] commit_outstanding[of s x]
    by (auto simp: admission_inv_def)
next
  case (abandoned s h c)
  then show ?case
    using release_live[of s] release_ok[of s] release_outstanding[of s]
    by (auto simp: admission_inv_def)
next
  case (dropped s h c)
  then show ?case
    using release_live[of s] release_ok[of s] release_outstanding[of s]
    by (auto simp: admission_inv_def)
next
  case (directly s h c d)
  then show ?case
    using direct_live[of s d] direct_ok[of s d] direct_outstanding[of s d]
    by (auto simp: admission_inv_def)
qed

lemma admission_reachable:
  assumes "admission_step\<^sup>*\<^sup>* (s, 0, 0) (s', h, c)" "ok s" "outstanding s = 0" "live s \<le> cap"
  shows "live s' + h \<le> cap \<and> outstanding s' = h + c"
proof -
  have "admission_inv (s, 0, 0)" using assms(2-4) by (simp add: admission_inv_def)
  with assms(1) have "admission_inv (s', h, c)"
    by (induction rule: rtranclp_induct) (auto intro: admission_step_inv)
  then show ?thesis by (simp add: admission_inv_def)
qed

end

end
