(* ===== verification/Context_Manager.thy ===== *)
theory Context_Manager
  imports Client_Instance Admission
begin

text \<open>
  The context table of \<^verbatim>\<open>crates/server/src/server/context_manager.rs\<close>: creation under the admission
  cap, lease eviction, replacement of orphans, operation guards and the per-principal session
  quota.  The \<^verbatim>\<open>DashMap\<close> of contexts is an association list; a \<^verbatim>\<open>remove_if\<close> under the shard lock is
  one atomic operation of the model.  Time and fresh identifiers are arguments.
\<close>

record SlotLogout =
  sl_slot :: BackendSlotId
  sl_via_session :: u64
  sl_login :: LoginState

record ContextTeardownPlan =
  tp_sessions_to_close :: "u64 list"
  tp_slot_logouts :: "SlotLogout list"

record UnresolvedCarrierCleanup =
  uc_slot :: BackendSlotId
  uc_session :: u64
  uc_rv :: "CkRv option"

record ContextManager =
  cm_contexts :: "(ClientContextId, LogicalClientInstance) hashmap"
  cm_slot_map :: SlotMap
  cm_lease_duration :: duration
  cm_max_contexts :: nat
  cm_max_context_lifetime :: duration
  cm_token_info_cache :: "(BackendSlotId, instant \<times> string \<times> string) hashmap"
  cm_login_locks_held :: "BackendSlotId set"
  cm_slot_login_holders :: "(BackendSlotId, ClientContextId list) hashmap"
  cm_authz_generation :: u64
  cm_session_quota_reservations :: "(string, nat) hashmap"
  cm_carrier_cleanup_ledger :: "UnresolvedCarrierCleanup list"
  cm_total_contexts_created :: u64
  cm_total_contexts_removed :: u64
  cm_context_admission_reservations :: nat
  cm_connections :: conn_world
  cm_message_cells :: "(msg_ref, MessageOperationState) hashmap"
  cm_next_message_cell :: msg_ref

text \<open>Durations are in milliseconds: the absolute lifetime cap is 24 hours.\<close>

definition MAX_CONTEXT_LIFETIME :: duration where
  "MAX_CONTEXT_LIFETIME = 24 * 60 * 60 * 1000"

definition context_manager_new :: "duration \<Rightarrow> nat \<Rightarrow> ContextManager" where
  "context_manager_new lease_duration max_contexts =
     \<lparr>cm_contexts = [], cm_slot_map = slot_map_new, cm_lease_duration = lease_duration,
      cm_max_contexts = max_contexts, cm_max_context_lifetime = MAX_CONTEXT_LIFETIME,
      cm_token_info_cache = [], cm_login_locks_held = {}, cm_slot_login_holders = [],
      cm_authz_generation = 0, cm_session_quota_reservations = [], cm_carrier_cleanup_ledger = [],
      cm_total_contexts_created = 0, cm_total_contexts_removed = 0,
      cm_context_admission_reservations = 0, cm_connections = conn_world_new,
      cm_message_cells = [], cm_next_message_cell = 0\<rparr>"

section \<open>Access\<close>

text \<open>Run a function on one context, refreshing its lease.\<close>

definition get_context ::
  "instant \<Rightarrow> ClientContextId \<Rightarrow> (LogicalClientInstance \<Rightarrow> 'r \<times> LogicalClientInstance)
    \<Rightarrow> ContextManager \<Rightarrow> 'r option \<times> ContextManager" where
  "get_context now cid f m =
     (case hget (cm_contexts m) cid of
        None \<Rightarrow> (None, m)
      | Some ctx \<Rightarrow>
          let (r, ctx') = f (client_touch now ctx)
          in (Some r, m\<lparr>cm_contexts := hput cid ctx' (cm_contexts m)\<rparr>))"

definition context_count :: "ContextManager \<Rightarrow> nat" where
  "context_count m = length (cm_contexts m)"

definition context_identity :: "ContextManager \<Rightarrow> ClientContextId \<Rightarrow> string option" where
  "context_identity m cid =
     Option.bind (hget (cm_contexts m) cid) lc_authenticated_identity"

definition rebind_context_connection ::
  "ClientContextId \<Rightarrow> conn_ref option \<Rightarrow> ContextManager \<Rightarrow> ContextManager" where
  "rebind_context_connection cid connection m =
     (case connection of
        None \<Rightarrow> m
      | Some state \<Rightarrow>
          if conn_is_closed (cm_connections m) state then m
          else (case hget (cm_contexts m) cid of
                  None \<Rightarrow> m
                | Some ctx \<Rightarrow>
                    m\<lparr>cm_contexts :=
                        hput cid (rebind_connection (cm_connections m) (Some state) ctx)
                          (cm_contexts m)\<rparr>))"

section \<open>The login-holder index\<close>

definition note_login_acquired :: "ClientContextId \<Rightarrow> BackendSlotId \<Rightarrow> ContextManager \<Rightarrow> ContextManager" where
  "note_login_acquired cid slot m =
     m\<lparr>cm_slot_login_holders :=
         hput slot (List.insert cid (case hget (cm_slot_login_holders m) slot of
                                       None \<Rightarrow> [] | Some holders \<Rightarrow> holders))
           (cm_slot_login_holders m)\<rparr>"

definition note_login_released :: "ClientContextId \<Rightarrow> BackendSlotId \<Rightarrow> ContextManager \<Rightarrow> ContextManager" where
  "note_login_released cid slot m =
     (case hget (cm_slot_login_holders m) slot of
        None \<Rightarrow> m
      | Some holders \<Rightarrow>
          let holders' = removeAll cid holders in
          m\<lparr>cm_slot_login_holders :=
              (if holders' = [] then hdel slot (cm_slot_login_holders m)
               else hput slot holders' (cm_slot_login_holders m))\<rparr>)"

definition release_all_logins ::
  "ClientContextId \<Rightarrow> LogicalClientInstance \<Rightarrow> ContextManager \<Rightarrow> ContextManager" where
  "release_all_logins cid ctx m =
     fold (\<lambda>slot. note_login_released cid slot) (hkeys (lc_login_state ctx)) m"

section \<open>Leases\<close>

definition is_reapable :: "ContextManager \<Rightarrow> LogicalClientInstance \<Rightarrow> instant \<Rightarrow> bool" where
  "is_reapable m ctx now =
     (if lc_in_flight ctx \<noteq> 0 then False
      else if is_transport_dead (cm_connections m) ctx then True
      else now - lc_last_active ctx > cm_lease_duration m
        \<and> (\<not> has_open_backend_sessions ctx
            \<or> now - lc_created_at ctx > cm_max_context_lifetime m))"

definition collect_expired_context_ids :: "ContextManager \<Rightarrow> instant \<Rightarrow> ClientContextId list" where
  "collect_expired_context_ids m now =
     map fst (filter (\<lambda>(cid, ctx). is_reapable m ctx now) (cm_contexts m))"

text \<open>\<^verbatim>\<open>DashMap::remove_if\<close> on the context table, counting the removal.\<close>

definition remove_context_if ::
  "(LogicalClientInstance \<Rightarrow> bool) \<Rightarrow> ClientContextId \<Rightarrow> ContextManager
    \<Rightarrow> LogicalClientInstance option \<times> ContextManager" where
  "remove_context_if P cid m =
     (case hget (cm_contexts m) cid of
        None \<Rightarrow> (None, m)
      | Some ctx \<Rightarrow>
          if P ctx
          then (Some ctx, m\<lparr>cm_contexts := hdel cid (cm_contexts m),
                            cm_total_contexts_removed := cm_total_contexts_removed m + 1\<rparr>)
          else (None, m))"

definition evict_one_sessionless :: "instant \<Rightarrow> ClientContextId \<Rightarrow> ContextManager \<Rightarrow> ContextManager" where
  "evict_one_sessionless now cid m =
     (case remove_context_if (\<lambda>ctx. is_reapable m ctx now \<and> \<not> has_open_backend_sessions ctx) cid m of
        (None, m') \<Rightarrow> m'
      | (Some ctx, m') \<Rightarrow> release_all_logins cid ctx m')"

definition evict_expired_sessionless_for_admission :: "instant \<Rightarrow> ContextManager \<Rightarrow> ContextManager" where
  "evict_expired_sessionless_for_admission now m =
     fold (evict_one_sessionless now)
       (map fst (filter (\<lambda>(cid, ctx). is_reapable m ctx now \<and> \<not> has_open_backend_sessions ctx)
          (cm_contexts m))) m"

section \<open>Admission\<close>

definition at_cap :: "ContextManager \<Rightarrow> bool" where
  "at_cap m =
     (cm_max_contexts m > 0
      \<and> context_count m + cm_context_admission_reservations m \<ge> cm_max_contexts m)"

definition try_reserve_context :: "instant \<Rightarrow> ContextManager \<Rightarrow> bool \<times> ContextManager" where
  "try_reserve_context now m =
     (let m1 = (if at_cap m then evict_expired_sessionless_for_admission now m else m) in
      if at_cap m \<and> at_cap m1 then (False, m1)
      else (True, if cm_max_contexts m1 > 0
                  then m1\<lparr>cm_context_admission_reservations :=
                            cm_context_admission_reservations m1 + 1\<rparr>
                  else m1))"

text \<open>Dropping a reservation.\<close>

definition release_context_reservation :: "ContextManager \<Rightarrow> ContextManager" where
  "release_context_reservation m =
     m\<lparr>cm_context_admission_reservations := cm_context_admission_reservations m - 1\<rparr>"

definition insert_context ::
  "instant \<Rightarrow> ClientContextId \<Rightarrow> string option \<Rightarrow> conn_ref option \<Rightarrow> ContextManager \<Rightarrow> ContextManager" where
  "insert_context now cid identity connection m =
     m\<lparr>cm_contexts := hput cid (client_new cid now identity connection) (cm_contexts m),
       cm_total_contexts_created := cm_total_contexts_created m + 1\<rparr>"

definition create_context_with_connection ::
  "instant \<Rightarrow> ClientContextId \<Rightarrow> string option \<Rightarrow> conn_ref option \<Rightarrow> ContextManager
    \<Rightarrow> ClientContextId CkResult \<times> ContextManager" where
  "create_context_with_connection now cid identity connection m =
     (case try_reserve_context now m of
        (False, m1) \<Rightarrow> (Inl CKR_HOST_MEMORY, m1)
      | (True, m1) \<Rightarrow>
          (Inr cid, release_context_reservation (insert_context now cid identity connection m1)))"

definition create_context ::
  "instant \<Rightarrow> ClientContextId \<Rightarrow> string option \<Rightarrow> ContextManager
    \<Rightarrow> ClientContextId CkResult \<times> ContextManager" where
  "create_context now cid identity m = create_context_with_connection now cid identity None m"

datatype RemoveIfIdleOutcome = Removed LogicalClientInstance | Busy | Missing

definition remove_context_if_outcome ::
  "(LogicalClientInstance \<Rightarrow> bool) \<Rightarrow> ClientContextId \<Rightarrow> ContextManager
    \<Rightarrow> RemoveIfIdleOutcome \<times> ContextManager" where
  "remove_context_if_outcome P cid m =
     (case remove_context_if P cid m of
        (Some ctx, m1) \<Rightarrow> (Removed ctx, m1)
      | (None, m1) \<Rightarrow> (if hget (cm_contexts m1) cid \<noteq> None then Busy else Missing, m1))"

definition remove_context_if_replaceable ::
  "ClientContextId \<Rightarrow> conn_ref option \<Rightarrow> ContextManager \<Rightarrow> RemoveIfIdleOutcome \<times> ContextManager" where
  "remove_context_if_replaceable cid request_connection m =
     remove_context_if_outcome
       (\<lambda>ctx. lc_in_flight ctx \<le> 0
          \<and> (is_transport_dead (cm_connections m) ctx
             \<or> same_connection_as (cm_connections m) request_connection ctx)) cid m"

definition remove_context_if_idle ::
  "ClientContextId \<Rightarrow> int \<Rightarrow> ContextManager \<Rightarrow> RemoveIfIdleOutcome \<times> ContextManager" where
  "remove_context_if_idle cid own_guards m =
     remove_context_if_outcome (\<lambda>ctx. lc_in_flight ctx \<le> own_guards) cid m"

fun try_replace ::
  "conn_ref option \<Rightarrow> ClientContextId list \<Rightarrow> ContextManager
    \<Rightarrow> LogicalClientInstance option \<times> ContextManager" where
  "try_replace connection [] m = (None, m)"
| "try_replace connection (cid # cids) m =
     (case remove_context_if_replaceable cid connection m of
        (Removed ctx, m1) \<Rightarrow> (Some ctx, m1)
      | (_, m1) \<Rightarrow> try_replace connection cids m1)"

definition same_identity_ids :: "string \<Rightarrow> ContextManager \<Rightarrow> ClientContextId list" where
  "same_identity_ids want m =
     map fst (filter (\<lambda>(cid, ctx). lc_authenticated_identity ctx = Some want) (cm_contexts m))"

definition create_context_replacing_idle_same_identity_on_connection ::
  "instant \<Rightarrow> ClientContextId \<Rightarrow> string option \<Rightarrow> conn_ref option \<Rightarrow> ContextManager
    \<Rightarrow> (ClientContextId \<times> LogicalClientInstance option) CkResult \<times> ContextManager" where
  "create_context_replacing_idle_same_identity_on_connection now cid identity connection m =
     (let m1 = (if at_cap m then evict_expired_sessionless_for_admission now m else m);
          (replaced, m2) =
            (if at_cap m1
             then (case identity of
                     None \<Rightarrow> (None, m1)
                   | Some want \<Rightarrow> try_replace connection (same_identity_ids want m1) m1)
             else (None, m1))
      in if at_cap m1 \<and> replaced = None \<and> at_cap m2 then (Inl CKR_HOST_MEMORY, m2)
         else (Inr (cid, replaced), insert_context now cid identity connection m2))"

definition remove_context ::
  "ClientContextId \<Rightarrow> ContextManager \<Rightarrow> LogicalClientInstance option \<times> ContextManager" where
  "remove_context cid m =
     (case remove_context_if (\<lambda>_. True) cid m of
        (None, m1) \<Rightarrow> (None, m1)
      | (Some ctx, m1) \<Rightarrow> (Some ctx, release_all_logins cid ctx m1))"

section \<open>Operation guards\<close>

definition update_context ::
  "ClientContextId \<Rightarrow> (LogicalClientInstance \<Rightarrow> LogicalClientInstance) \<Rightarrow> ContextManager \<Rightarrow> ContextManager" where
  "update_context cid f m =
     (case hget (cm_contexts m) cid of
        None \<Rightarrow> m
      | Some ctx \<Rightarrow> m\<lparr>cm_contexts := hput cid (f ctx) (cm_contexts m)\<rparr>)"

datatype begin_outcome = Began | NoContext | AtCapacity

definition begin_operation_capped ::
  "ClientContextId \<Rightarrow> int \<Rightarrow> ContextManager \<Rightarrow> begin_outcome \<times> ContextManager" where
  "begin_operation_capped cid max_in_flight m =
     (case hget (cm_contexts m) cid of
        None \<Rightarrow> (NoContext, m)
      | Some ctx \<Rightarrow>
          if max_in_flight > 0 \<and> lc_in_flight ctx \<ge> max_in_flight then (AtCapacity, m)
          else (Began, update_context cid (lc_in_flight_update (\<lambda>n. n + 1)) m))"

definition begin_operation :: "ClientContextId \<Rightarrow> ContextManager \<Rightarrow> bool \<times> ContextManager" where
  "begin_operation cid m =
     (case hget (cm_contexts m) cid of
        None \<Rightarrow> (False, m)
      | Some ctx \<Rightarrow> (True, update_context cid (lc_in_flight_update (\<lambda>n. n + 1)) m))"

text \<open>
  Dropping an operation guard: the lease is refreshed before the counter goes down.  When the
  context has left the table only its detached counter changes, which nothing reads again.
\<close>

definition drop_operation_guard :: "instant \<Rightarrow> ClientContextId \<Rightarrow> ContextManager \<Rightarrow> ContextManager" where
  "drop_operation_guard now cid m =
     update_context cid (\<lambda>ctx. lc_in_flight_update (\<lambda>n. n - 1) (client_touch now ctx)) m"

section \<open>Session quota\<close>

definition attributable :: "string \<Rightarrow> ClientContextId \<Rightarrow> LogicalClientInstance \<Rightarrow> bool" where
  "attributable key cid ctx =
     (lc_authenticated_identity ctx = Some key \<or> lc_last_peer_ip ctx = Some key \<or> cid = key)"

definition session_count_for_principal :: "ContextManager \<Rightarrow> string \<Rightarrow> nat" where
  "session_count_for_principal m key =
     sum_list (map (\<lambda>(cid, ctx). if attributable key cid ctx then length (lc_session_slots ctx) else 0)
       (cm_contexts m))"

definition outstanding_sessions :: "ContextManager \<Rightarrow> string \<Rightarrow> nat" where
  "outstanding_sessions m key =
     (case hget (cm_session_quota_reservations m) key of None \<Rightarrow> 0 | Some n \<Rightarrow> n)"

definition try_reserve_session_for_principal ::
  "string \<Rightarrow> nat \<Rightarrow> ContextManager \<Rightarrow> bool \<times> ContextManager" where
  "try_reserve_session_for_principal key quota m =
     (if session_count_for_principal m key + outstanding_sessions m key \<ge> quota then (False, m)
      else (True, m\<lparr>cm_session_quota_reservations :=
              hput key (outstanding_sessions m key + 1) (cm_session_quota_reservations m)\<rparr>))"

definition release_session_reservation :: "string \<Rightarrow> ContextManager \<Rightarrow> ContextManager" where
  "release_session_reservation key m =
     (case hget (cm_session_quota_reservations m) key of
        None \<Rightarrow> m
      | Some count \<Rightarrow>
          m\<lparr>cm_session_quota_reservations :=
              (if count - 1 = 0 then hdel key (cm_session_quota_reservations m)
               else hput key (count - 1) (cm_session_quota_reservations m))\<rparr>)"

section \<open>What the table operations leave alone\<close>

lemma note_login_released_frame [simp]:
  "cm_contexts (note_login_released cid slot m) = cm_contexts m"
  "cm_max_contexts (note_login_released cid slot m) = cm_max_contexts m"
  "cm_context_admission_reservations (note_login_released cid slot m) =
     cm_context_admission_reservations m"
  "cm_connections (note_login_released cid slot m) = cm_connections m"
  "cm_lease_duration (note_login_released cid slot m) = cm_lease_duration m"
  "cm_max_context_lifetime (note_login_released cid slot m) = cm_max_context_lifetime m"
  "cm_session_quota_reservations (note_login_released cid slot m) = cm_session_quota_reservations m"
  by (simp_all add: note_login_released_def Let_def split: option.split)

lemma release_all_logins_frame [simp]:
  "cm_contexts (release_all_logins cid ctx m) = cm_contexts m"
  "cm_max_contexts (release_all_logins cid ctx m) = cm_max_contexts m"
  "cm_context_admission_reservations (release_all_logins cid ctx m) =
     cm_context_admission_reservations m"
  "cm_connections (release_all_logins cid ctx m) = cm_connections m"
  "cm_lease_duration (release_all_logins cid ctx m) = cm_lease_duration m"
  "cm_max_context_lifetime (release_all_logins cid ctx m) = cm_max_context_lifetime m"
  "cm_session_quota_reservations (release_all_logins cid ctx m) = cm_session_quota_reservations m"
proof -
  have "cm_contexts (fold (\<lambda>slot. note_login_released cid slot) slots m) = cm_contexts m
    \<and> cm_max_contexts (fold (\<lambda>slot. note_login_released cid slot) slots m) = cm_max_contexts m
    \<and> cm_context_admission_reservations (fold (\<lambda>slot. note_login_released cid slot) slots m) =
        cm_context_admission_reservations m
    \<and> cm_connections (fold (\<lambda>slot. note_login_released cid slot) slots m) = cm_connections m
    \<and> cm_lease_duration (fold (\<lambda>slot. note_login_released cid slot) slots m) = cm_lease_duration m
    \<and> cm_max_context_lifetime (fold (\<lambda>slot. note_login_released cid slot) slots m) =
        cm_max_context_lifetime m
    \<and> cm_session_quota_reservations (fold (\<lambda>slot. note_login_released cid slot) slots m) =
        cm_session_quota_reservations m" for slots
    by (induction slots arbitrary: m) simp_all
  then show "cm_contexts (release_all_logins cid ctx m) = cm_contexts m"
    "cm_max_contexts (release_all_logins cid ctx m) = cm_max_contexts m"
    "cm_context_admission_reservations (release_all_logins cid ctx m) =
       cm_context_admission_reservations m"
    "cm_connections (release_all_logins cid ctx m) = cm_connections m"
    "cm_lease_duration (release_all_logins cid ctx m) = cm_lease_duration m"
    "cm_max_context_lifetime (release_all_logins cid ctx m) = cm_max_context_lifetime m"
    "cm_session_quota_reservations (release_all_logins cid ctx m) = cm_session_quota_reservations m"
    by (simp_all add: release_all_logins_def)
qed

lemma is_reapable_cong:
  "cm_connections m = cm_connections m' \<Longrightarrow> cm_lease_duration m = cm_lease_duration m' \<Longrightarrow>
   cm_max_context_lifetime m = cm_max_context_lifetime m' \<Longrightarrow>
   is_reapable m ctx now = is_reapable m' ctx now"
  by (simp add: is_reapable_def)

text \<open>
  A manager that differs from another only by contexts that left the table (and by its
  bookkeeping), each of them satisfying a predicate.
\<close>

definition shrinks ::
  "(ClientContextId \<Rightarrow> LogicalClientInstance \<Rightarrow> bool) \<Rightarrow> ContextManager \<Rightarrow> ContextManager \<Rightarrow> bool" where
  "shrinks P m m' \<longleftrightarrow>
     (hwf (cm_contexts m) \<longrightarrow> hwf (cm_contexts m'))
     \<and> length (cm_contexts m') \<le> length (cm_contexts m)
     \<and> (\<forall>cid ctx. hget (cm_contexts m') cid = Some ctx \<longrightarrow> hget (cm_contexts m) cid = Some ctx)
     \<and> (\<forall>cid ctx. hget (cm_contexts m) cid = Some ctx \<and> hget (cm_contexts m') cid = None \<longrightarrow> P cid ctx)
     \<and> cm_max_contexts m' = cm_max_contexts m
     \<and> cm_context_admission_reservations m' = cm_context_admission_reservations m
     \<and> cm_connections m' = cm_connections m \<and> cm_lease_duration m' = cm_lease_duration m
     \<and> cm_max_context_lifetime m' = cm_max_context_lifetime m
     \<and> cm_session_quota_reservations m' = cm_session_quota_reservations m"

lemma shrinks_refl [simp]: "shrinks P m m"
  by (auto simp: shrinks_def)

lemma shrinks_trans: "shrinks P m m1 \<Longrightarrow> shrinks P m1 m2 \<Longrightarrow> shrinks P m m2"
proof -
  assume a: "shrinks P m m1" and b: "shrinks P m1 m2"
  have "P cid ctx" if "hget (cm_contexts m) cid = Some ctx" "hget (cm_contexts m2) cid = None" for cid ctx
  proof (cases "hget (cm_contexts m1) cid")
    case None
    with a that(1) show ?thesis by (simp add: shrinks_def)
  next
    case (Some ctx1)
    with a that(1) have "ctx1 = ctx" by (fastforce simp: shrinks_def)
    with Some b that(2) show ?thesis by (simp add: shrinks_def)
  qed
  with a b show ?thesis by (auto simp: shrinks_def)
qed

lemma shrinks_mono: "shrinks P m m' \<Longrightarrow> (\<And>cid ctx. P cid ctx \<Longrightarrow> Q cid ctx) \<Longrightarrow> shrinks Q m m'"
  unfolding shrinks_def by blast

lemma shrinks_release_all:
  "shrinks P m m' \<Longrightarrow> shrinks P m (release_all_logins cid ctx m')"
  by (simp add: shrinks_def)

lemma remove_context_if_shrinks:
  "remove_context_if Q cid m = (r, m') \<Longrightarrow> shrinks (\<lambda>c ctx. c = cid \<and> Q ctx) m m'"
  using length_hdel_le[of cid "cm_contexts m"]
  by (auto simp: remove_context_if_def shrinks_def split: option.splits if_splits)

lemma remove_context_if_Some:
  "hwf (cm_contexts m) \<Longrightarrow> remove_context_if Q cid m = (Some ctx, m') \<Longrightarrow>
   hget (cm_contexts m) cid = Some ctx \<and> Q ctx \<and> hget (cm_contexts m') cid = None
   \<and> Suc (length (cm_contexts m')) = length (cm_contexts m)"
  using length_hdel[of "cm_contexts m" cid]
  by (auto simp: remove_context_if_def split: option.splits if_splits)

lemma remove_context_if_None:
  "remove_context_if Q cid m = (None, m') \<Longrightarrow>
   m' = m \<and> (\<forall>ctx. hget (cm_contexts m) cid = Some ctx \<longrightarrow> \<not> Q ctx)"
  by (auto simp: remove_context_if_def split: option.splits if_splits)

definition reapable_sessionless :: "ContextManager \<Rightarrow> instant \<Rightarrow> LogicalClientInstance \<Rightarrow> bool" where
  "reapable_sessionless m now ctx = (is_reapable m ctx now \<and> \<not> has_open_backend_sessions ctx)"

lemma evict_one_sessionless_shrinks:
  "shrinks (\<lambda>_. reapable_sessionless m now) m (evict_one_sessionless now cid m)"
proof -
  let ?Q = "\<lambda>ctx. is_reapable m ctx now \<and> \<not> has_open_backend_sessions ctx"
  obtain r m' where eq: "remove_context_if ?Q cid m = (r, m')" by fastforce
  have "shrinks (\<lambda>_. reapable_sessionless m now) m m'"
    by (rule shrinks_mono[OF remove_context_if_shrinks[OF eq]]) (simp add: reapable_sessionless_def)
  then show ?thesis
    by (auto simp: evict_one_sessionless_def eq intro: shrinks_release_all split: option.split)
qed

lemma reapable_sessionless_cong:
  "shrinks P m m' \<Longrightarrow> reapable_sessionless m' now = reapable_sessionless m now"
  by (auto simp: shrinks_def reapable_sessionless_def fun_eq_iff is_reapable_def)

lemma evict_expired_sessionless_shrinks:
  "shrinks (\<lambda>_. reapable_sessionless m now) m (evict_expired_sessionless_for_admission now m)"
proof -
  have "shrinks (\<lambda>_. reapable_sessionless m now) m (fold (evict_one_sessionless now) ids m')"
    if "shrinks (\<lambda>_. reapable_sessionless m now) m m'" for ids m'
    using that
  proof (induction ids arbitrary: m')
    case (Cons cid ids)
    have "shrinks (\<lambda>_. reapable_sessionless m now) m' (evict_one_sessionless now cid m')"
      using evict_one_sessionless_shrinks[of m' now cid] reapable_sessionless_cong[OF Cons.prems, of now]
      by simp
    from shrinks_trans[OF Cons.prems this] show ?case using Cons.IH by simp
  qed simp
  then show ?thesis unfolding evict_expired_sessionless_for_admission_def by simp
qed

section \<open>Steps that only touch the table directly\<close>

text \<open>
  Everything else that happens to the table between the reservations of \<open>create_context\<close>: an
  \<open>Initialize\<close> (which holds the admission mutex throughout), a finalize, a reap, the removal of one
  context, and any update of a context by a request handler or an operation guard.
\<close>

datatype manager_op =
    OpInitialize instant ClientContextId "string option" "conn_ref option"
  | OpRemoveIfIdle ClientContextId int
  | OpReap instant ClientContextId
  | OpRemove ClientContextId
  | OpUpdate ClientContextId "LogicalClientInstance \<Rightarrow> LogicalClientInstance"

definition manager_op_step :: "manager_op \<Rightarrow> ContextManager \<Rightarrow> ContextManager" where
  "manager_op_step op m =
     (case op of
        OpInitialize now cid identity connection \<Rightarrow>
          snd (create_context_replacing_idle_same_identity_on_connection now cid identity connection m)
      | OpRemoveIfIdle cid own_guards \<Rightarrow> snd (remove_context_if_idle cid own_guards m)
      | OpReap now cid \<Rightarrow> snd (remove_context_if (\<lambda>ctx. is_reapable m ctx now) cid m)
      | OpRemove cid \<Rightarrow> snd (remove_context cid m)
      | OpUpdate cid f \<Rightarrow> update_context cid f m)"

definition cm_ok :: "nat \<Rightarrow> ContextManager \<Rightarrow> bool" where
  "cm_ok cap m = (hwf (cm_contexts m) \<and> cm_max_contexts m = cap \<and> 0 < cap)"

lemma shrinks_ok: "shrinks P m m' \<Longrightarrow> cm_ok cap m \<Longrightarrow> cm_ok cap m'"
  by (simp add: shrinks_def cm_ok_def)

lemma shrinks_count: "shrinks P m m' \<Longrightarrow> context_count m' \<le> context_count m"
  by (simp add: shrinks_def context_count_def)

lemma shrinks_reservations:
  "shrinks P m m' \<Longrightarrow> cm_context_admission_reservations m' = cm_context_admission_reservations m"
  by (simp add: shrinks_def)

lemma insert_context_count:
  "cm_ok cap m \<Longrightarrow> cm_ok cap (insert_context now cid identity conn m)
   \<and> context_count (insert_context now cid identity conn m) \<le> Suc (context_count m)
   \<and> cm_context_admission_reservations (insert_context now cid identity conn m) =
       cm_context_admission_reservations m"
  by (simp add: cm_ok_def context_count_def insert_context_def length_hput)

lemma update_context_frame [simp]:
  "cm_max_contexts (update_context cid f m) = cm_max_contexts m"
  "cm_context_admission_reservations (update_context cid f m) = cm_context_admission_reservations m"
  "cm_connections (update_context cid f m) = cm_connections m"
  "cm_session_quota_reservations (update_context cid f m) = cm_session_quota_reservations m"
  "hget (cm_contexts (update_context cid f m)) c =
     (if c = cid then map_option f (hget (cm_contexts m) cid) else hget (cm_contexts m) c)"
  by (simp_all add: update_context_def split: option.split)

lemma update_context_ok:
  "cm_ok cap m \<Longrightarrow> cm_ok cap (update_context cid f m)
   \<and> context_count (update_context cid f m) = context_count m"
  by (auto simp: update_context_def cm_ok_def context_count_def length_hput split: option.split)

lemma remove_context_if_outcome_shrinks:
  "shrinks (\<lambda>c ctx. c = cid \<and> Q ctx) m (snd (remove_context_if_outcome Q cid m))"
  using remove_context_if_shrinks[of Q cid m]
  by (auto simp: remove_context_if_outcome_def split: prod.split option.split)

definition replaceable :: "ContextManager \<Rightarrow> conn_ref option \<Rightarrow> LogicalClientInstance \<Rightarrow> bool" where
  "replaceable m connection ctx =
     (lc_in_flight ctx \<le> 0
      \<and> (is_transport_dead (cm_connections m) ctx
         \<or> same_connection_as (cm_connections m) connection ctx))"

text \<open>The replacement loop removes exactly one context, the one it returns, or none.\<close>

lemma try_replace_cases:
  assumes "hwf (cm_contexts m)" "try_replace connection ids m = (r, m')"
  shows "(r = None \<and> m' = m) \<or>
    (\<exists>cid ctx. r = Some ctx \<and> cid \<in> set ids \<and> hget (cm_contexts m) cid = Some ctx
       \<and> replaceable m connection ctx \<and> shrinks (\<lambda>c _. c = cid) m m'
       \<and> Suc (context_count m') = context_count m)"
  using assms(2)
proof (induction ids)
  case (Cons cid ids)
  let ?Q = "replaceable m connection"
  obtain r1 m1 where eq: "remove_context_if ?Q cid m = (r1, m1)" by fastforce
  have rep: "remove_context_if_replaceable cid connection m =
      (case r1 of Some ctx \<Rightarrow> (Removed ctx, m1)
       | None \<Rightarrow> (if hget (cm_contexts m1) cid \<noteq> None then Busy else Missing, m1))"
    using eq unfolding remove_context_if_replaceable_def remove_context_if_outcome_def
      replaceable_def by (auto split: option.split)
  show ?case
  proof (cases r1)
    case None
    then have "m1 = m" using remove_context_if_None[OF eq[unfolded None]] by simp
    with Cons None rep show ?thesis by (auto split: if_splits)
  next
    case (Some ctx)
    then have "r = Some ctx" "m' = m1" using Cons.prems rep by auto
    moreover have "shrinks (\<lambda>c _. c = cid) m m1"
      by (rule shrinks_mono[OF remove_context_if_shrinks[OF eq]]) simp
    ultimately show ?thesis
      using remove_context_if_Some[OF assms(1) eq[unfolded Some]]
      by (auto simp: context_count_def)
  qed
qed simp

lemma not_at_cap:
  "cm_ok cap m \<Longrightarrow> \<not> at_cap m \<Longrightarrow> context_count m + cm_context_admission_reservations m < cap"
  by (simp add: at_cap_def cm_ok_def)

text \<open>
  The three ways an \<open>Initialize\<close> ends, over the manager \<open>m1\<close> left by the reclaim at the cap:
  refused with the table as the reclaim left it, admitted because there is room, or admitted in the
  place of exactly one replaceable context of the same identity.
\<close>

definition reclaimed :: "instant \<Rightarrow> ContextManager \<Rightarrow> ContextManager" where
  "reclaimed now m = (if at_cap m then evict_expired_sessionless_for_admission now m else m)"

lemma reclaimed_shrinks: "shrinks (\<lambda>_. reapable_sessionless m now) m (reclaimed now m)"
  by (simp add: reclaimed_def evict_expired_sessionless_shrinks)

lemma initialize_cases:
  assumes ok: "cm_ok cap m"
    and run: "create_context_replacing_idle_same_identity_on_connection now cid identity connection m
      = (r, m')"
  defines "m1 \<equiv> reclaimed now m"
  obtains (refused) "r = Inl CKR_HOST_MEMORY" "m' = m1" "at_cap m1"
    | (room) "r = Inr (cid, None)" "m' = insert_context now cid identity connection m1" "\<not> at_cap m1"
    | (replaced) want old oldctx m2 where "r = Inr (cid, Some oldctx)" "identity = Some want"
        "hget (cm_contexts m1) old = Some oldctx" "lc_authenticated_identity oldctx = Some want"
        "replaceable m1 connection oldctx" "shrinks (\<lambda>c _. c = old) m1 m2"
        "Suc (context_count m2) = context_count m1"
        "m' = insert_context now cid identity connection m2"
proof -
  have wf1: "hwf (cm_contexts m1)"
    using ok shrinks_ok[OF reclaimed_shrinks] unfolding m1_def cm_ok_def by blast
  define rep where "rep = (if at_cap m1 then (case identity of None \<Rightarrow> (None, m1)
      | Some want \<Rightarrow> try_replace connection (same_identity_ids want m1) m1) else (None, m1))"
  obtain replaced m2 where rep_eq: "rep = (replaced, m2)" by fastforce
  have run': "(r, m') = (if at_cap m1 \<and> replaced = None \<and> at_cap m2 then (Inl CKR_HOST_MEMORY, m2)
      else (Inr (cid, replaced), insert_context now cid identity connection m2))"
    using run rep_eq
    by (simp add: create_context_replacing_idle_same_identity_on_connection_def Let_def
        m1_def[unfolded reclaimed_def, symmetric] rep_def[symmetric])
  show thesis
  proof (cases "at_cap m1")
    case False
    then have "replaced = None" "m2 = m1" using rep_eq by (auto simp: rep_def)
    with False run' room show thesis by auto
  next
    case True
    show thesis
    proof (cases identity)
      case None
      with True rep_eq have "replaced = None" "m2 = m1" by (auto simp: rep_def)
      with True run' refused show thesis by auto
    next
      case (Some want)
      with True rep_eq have tr: "try_replace connection (same_identity_ids want m1) m1 = (replaced, m2)"
        by (simp add: rep_def)
      from try_replace_cases[OF wf1 tr] show thesis
      proof (elim disjE exE conjE)
        assume "replaced = None" "m2 = m1"
        with True run' refused show thesis by auto
      next
        fix old oldctx
        assume a: "replaced = Some oldctx" "old \<in> set (same_identity_ids want m1)"
          "hget (cm_contexts m1) old = Some oldctx" "replaceable m1 connection oldctx"
          "shrinks (\<lambda>c _. c = old) m1 m2" "Suc (context_count m2) = context_count m1"
        obtain b where b: "(old, b) \<in> set (cm_contexts m1)" "lc_authenticated_identity b = Some want"
          using a(2) by (auto simp: same_identity_ids_def)
        then have "hget (cm_contexts m1) old = Some b" by (simp add: hget_eq_Some_iff[OF wf1])
        with a(3) b(2) have "lc_authenticated_identity oldctx = Some want" by simp
        with a run' Some replaced show thesis by auto
      qed
    qed
  qed
qed

lemma initialize_live:
  assumes ok: "cm_ok cap m"
    and run: "create_context_replacing_idle_same_identity_on_connection now cid identity connection m
      = (r, m')"
  shows "cm_ok cap m' \<and> cm_context_admission_reservations m' = cm_context_admission_reservations m
    \<and> (context_count m' \<le> context_count m
       \<or> context_count m + cm_context_admission_reservations m < cap
          \<and> context_count m' \<le> Suc (context_count m))"
proof -
  let ?m1 = "reclaimed now m"
  note s1 = reclaimed_shrinks[of m now]
  have ok1: "cm_ok cap ?m1" by (rule shrinks_ok[OF s1 ok])
  have r1: "cm_context_admission_reservations ?m1 = cm_context_admission_reservations m"
    and c1: "context_count ?m1 \<le> context_count m"
    using shrinks_reservations[OF s1] shrinks_count[OF s1] by auto
  from ok run show ?thesis
  proof (cases rule: initialize_cases)
    case refused
    with ok1 r1 c1 show ?thesis by simp
  next
    case room
    note ins = insert_context_count[OF ok1, of now cid identity connection]
    show ?thesis
    proof (cases "at_cap m")
      case True
      have "context_count ?m1 < context_count m"
        using True room(3) r1 ok ok1 by (auto simp: at_cap_def cm_ok_def)
      with ins r1 room(2) show ?thesis by auto
    next
      case False
      with ok have "context_count m + cm_context_admission_reservations m < cap" by (rule not_at_cap)
      with ins r1 c1 room(2) show ?thesis by auto
    qed
  next
    case (replaced want old oldctx m2)
    have "cm_ok cap m2" by (rule shrinks_ok[OF replaced(6) ok1])
    from insert_context_count[OF this, of now cid identity connection] replaced c1 r1
      shrinks_reservations[OF replaced(6)]
    show ?thesis by auto
  qed
qed

lemma manager_op_step_live:
  assumes "cm_ok cap m"
  shows "cm_ok cap (manager_op_step op m)
    \<and> cm_context_admission_reservations (manager_op_step op m) = cm_context_admission_reservations m
    \<and> (context_count (manager_op_step op m) \<le> context_count m
       \<or> context_count m + cm_context_admission_reservations m < cap
          \<and> context_count (manager_op_step op m) \<le> Suc (context_count m))"
proof -
  have sh: ?thesis if "shrinks P m (manager_op_step op m)" for P
    using shrinks_ok[OF that assms] shrinks_count[OF that] shrinks_reservations[OF that] by simp
  show ?thesis
  proof (cases op)
    case (OpInitialize now cid identity connection)
    with initialize_live[OF assms prod.collapse[symmetric]] show ?thesis
      by (simp add: manager_op_step_def)
  next
    case (OpRemoveIfIdle cid own)
    then show ?thesis
      by (intro sh) (simp add: manager_op_step_def remove_context_if_idle_def,
          rule remove_context_if_outcome_shrinks)
  next
    case (OpReap now cid)
    then show ?thesis
      by (intro sh) (simp add: manager_op_step_def,
          rule remove_context_if_shrinks[OF prod.collapse[symmetric]])
  next
    case (OpRemove cid)
    have "shrinks (\<lambda>c ctx. c = cid \<and> True) m (snd (remove_context cid m))"
      using remove_context_if_shrinks[of "\<lambda>_. True" cid m]
      by (auto simp: remove_context_def intro: shrinks_release_all split: prod.split option.split)
    with OpRemove show ?thesis by (intro sh) (simp add: manager_op_step_def)
  next
    case (OpUpdate cid f)
    with update_context_ok[OF assms, of cid f] show ?thesis by (simp add: manager_op_step_def)
  qed
qed

lemma try_reserve_context_spec:
  assumes "cm_ok cap m"
  shows "cm_ok cap (snd (try_reserve_context now m))
    \<and> context_count (snd (try_reserve_context now m)) \<le> context_count m
    \<and> (fst (try_reserve_context now m) \<longrightarrow>
         context_count (snd (try_reserve_context now m)) + cm_context_admission_reservations m < cap
         \<and> cm_context_admission_reservations (snd (try_reserve_context now m)) =
             Suc (cm_context_admission_reservations m))
    \<and> (\<not> fst (try_reserve_context now m) \<longrightarrow>
         cm_context_admission_reservations (snd (try_reserve_context now m)) =
           cm_context_admission_reservations m)"
proof -
  let ?m1 = "reclaimed now m"
  have eq: "try_reserve_context now m =
      (if at_cap m \<and> at_cap ?m1 then (False, ?m1)
       else (True, ?m1\<lparr>cm_context_admission_reservations :=
                         cm_context_admission_reservations ?m1 + 1\<rparr>))"
    using shrinks_ok[OF reclaimed_shrinks assms, of now]
    by (simp add: try_reserve_context_def reclaimed_def[symmetric] cm_ok_def Let_def)
  have ok1: "cm_ok cap ?m1" and c1: "context_count ?m1 \<le> context_count m"
    and r1: "cm_context_admission_reservations ?m1 = cm_context_admission_reservations m"
    using shrinks_ok[OF reclaimed_shrinks assms] shrinks_count[OF reclaimed_shrinks]
      shrinks_reservations[OF reclaimed_shrinks] by blast+
  have "\<not> (at_cap m \<and> at_cap ?m1) \<Longrightarrow> \<not> at_cap ?m1"
    by (auto simp: reclaimed_def split: if_splits)
  with not_at_cap[OF ok1] ok1 c1 r1 show ?thesis
    by (auto simp: eq cm_ok_def context_count_def)
qed

interpretation ctx_admission: bounded_admission "cm_ok cap" context_count
  cm_context_admission_reservations cap try_reserve_context
  "\<lambda>(now, cid, identity, connection). insert_context now cid identity connection"
  release_context_reservation manager_op_step for cap
proof
  fix m :: ContextManager and now c d
  assume ok: "cm_ok cap m"
  note res = try_reserve_context_spec[OF ok, of now]
  show "cm_ok cap (snd (try_reserve_context now m))"
    "context_count (snd (try_reserve_context now m)) \<le> context_count m"
    using res by simp_all
  show "fst (try_reserve_context now m) \<Longrightarrow>
      context_count (snd (try_reserve_context now m)) + cm_context_admission_reservations m < cap
      \<and> cm_context_admission_reservations (snd (try_reserve_context now m)) =
          Suc (cm_context_admission_reservations m)"
    "\<not> fst (try_reserve_context now m) \<Longrightarrow>
      cm_context_admission_reservations (snd (try_reserve_context now m)) =
        cm_context_admission_reservations m"
    using res by simp_all
  show "cm_ok cap ((case c of (now, cid, identity, connection) \<Rightarrow>
      insert_context now cid identity connection) m)"
    "context_count ((case c of (now, cid, identity, connection) \<Rightarrow>
      insert_context now cid identity connection) m) \<le> Suc (context_count m)"
    "cm_context_admission_reservations ((case c of (now, cid, identity, connection) \<Rightarrow>
      insert_context now cid identity connection) m) = cm_context_admission_reservations m"
    using insert_context_count[OF ok] by (simp_all split: prod.split)
  show "cm_ok cap (release_context_reservation m)"
    "context_count (release_context_reservation m) \<le> context_count m"
    "cm_context_admission_reservations (release_context_reservation m) =
       cm_context_admission_reservations m - 1"
    using ok by (simp_all add: release_context_reservation_def cm_ok_def context_count_def)
  show "cm_ok cap (manager_op_step d m)"
    "context_count (manager_op_step d m) \<le> context_count m
      \<or> context_count m + cm_context_admission_reservations m < cap
         \<and> context_count (manager_op_step d m) \<le> Suc (context_count m)"
    "cm_context_admission_reservations (manager_op_step d m) = cm_context_admission_reservations m"
    using manager_op_step_live[OF ok, of d] by simp_all
qed

section \<open>Properties\<close>

text \<open>
  C2.  The context cap is strict.  Take a manager created with a positive \<^verbatim>\<open>max_contexts\<close> and let any
  number of clients create contexts concurrently, with the reservation, the insertion and the
  release of the reservation as separate steps, interleaved in any order with \<open>Initialize\<close> calls that
  replace orphans, finalizes, reaps, removals and arbitrary updates of contexts by request handlers.
  At every moment the number of contexts in the table together with the reservations not yet turned
  into contexts is at most \<^verbatim>\<open>max_contexts\<close>, and the reservation counter equals the number of
  reservations not yet dropped, so no slot leaks.
\<close>
theorem context_cap_holds:
  assumes "0 < cap"
    and "ctx_admission.admission_step\<^sup>*\<^sup>* (context_manager_new lease cap, 0, 0) (m, held, committed)"
  shows "context_count m + held \<le> cap \<and> cm_context_admission_reservations m = held + committed"
proof (rule ctx_admission.admission_reachable[OF assms(2)])
  show "cm_ok cap (context_manager_new lease cap)"
    using assms(1) by (simp add: cm_ok_def context_manager_new_def)
qed (simp_all add: context_manager_new_def context_count_def)

definition admitted_manager :: ContextManager where
  "admitted_manager =
     insert_context 5 ''a'' (Some ''uid=1'') None
       (snd (try_reserve_context 5 (context_manager_new 60 1)))"

theorem context_cap_holds_witness:
  "context_count admitted_manager + 0 \<le> 1 \<and> cm_context_admission_reservations admitted_manager = 0 + 1"
proof -
  let ?s = "context_manager_new 60 1"
  let ?s1 = "snd (try_reserve_context 5 ?s)"
  have "fst (try_reserve_context 5 ?s)"
    by (simp add: try_reserve_context_def at_cap_def context_count_def context_manager_new_def Let_def)
  then have 1: "ctx_admission.admission_step (?s, 0, 0) (?s1, Suc 0, 0)"
    by (intro ctx_admission.admission_step.granted[of 5]) (simp add: prod_eq_iff)
  have "ctx_admission.admission_step (?s1, Suc 0, 0) (admitted_manager, 0, Suc 0)"
    using ctx_admission.admission_step.committed[of ?s1 0 0 "(5, ''a'', Some ''uid=1'', None)"]
    by (simp add: admitted_manager_def)
  then have "ctx_admission.admission_step\<^sup>*\<^sup>* (?s1, Suc 0, 0) (admitted_manager, 0, Suc 0)"
    by (rule r_into_rtranclp)
  with 1 have "ctx_admission.admission_step\<^sup>*\<^sup>* (?s, 0, 0) (admitted_manager, 0, Suc 0)"
    by (rule converse_rtranclp_into_rtranclp)
  from context_cap_holds[OF zero_less_one this] show ?thesis by simp
qed


lemma client_new_transport_dead:
  "is_transport_dead w (client_new cid now ident conn) =
     (case conn of None \<Rightarrow> False | Some r \<Rightarrow> conn_is_closed w r)"
  by (simp add: is_transport_dead_def live_connection_bindings_def client_new_def Let_def
      split: option.split)

definition two_tenants :: ContextManager where
  "two_tenants =
     insert_context 5 ''b'' (Some ''uid=2'') (Some 0)
       (insert_context 5 ''a'' (Some ''uid=1'') None (context_manager_new 60 2))
     \<lparr>cm_connections := snd (connection_state_new conn_world_new)\<rparr>"

lemmas manager_eval = two_tenants_def insert_context_def context_manager_new_def client_new_def
  create_context_replacing_idle_same_identity_on_connection_def at_cap_def context_count_def
  evict_expired_sessionless_for_admission_def is_reapable_def is_transport_dead_def
  live_connection_bindings_def conn_is_closed_def connection_state_new_def conn_world_new_def
  same_identity_ids_def remove_context_if_replaceable_def remove_context_if_outcome_def
  remove_context_if_def same_connection_as_def Let_def


text \<open>
  C4.  The reaper never cuts off live work.  Both eviction paths remove only contexts with no
  operation in flight; unless the owner's transport is gone, the lease must have expired, and a
  context that still holds backend sessions must also have passed the absolute lifetime cap.  The
  admission-time path, which has no backend to close sessions with, removes no context holding
  backend sessions at all.  Contexts that stay are unchanged.
\<close>
theorem eviction_spares_live_work:
  assumes "hget (cm_contexts m) cid = Some ctx"
  shows "(hget (cm_contexts (snd (remove_context_if (\<lambda>ctx. is_reapable m ctx now) cid m))) cid = Some ctx
      \<or> (lc_in_flight ctx = 0
          \<and> (is_transport_dead (cm_connections m) ctx
             \<or> now - lc_last_active ctx > cm_lease_duration m
               \<and> (has_open_backend_sessions ctx \<longrightarrow>
                     now - lc_created_at ctx > cm_max_context_lifetime m))))
    \<and> (hget (cm_contexts (evict_expired_sessionless_for_admission now m)) cid = Some ctx
      \<or> (lc_in_flight ctx = 0 \<and> \<not> has_open_backend_sessions ctx
          \<and> (is_transport_dead (cm_connections m) ctx
             \<or> now - lc_last_active ctx > cm_lease_duration m)))"
    (is "?reap \<and> ?admission")
proof
  show ?reap
    using assms by (auto simp: remove_context_if_def is_reapable_def split: if_splits)
  note s = evict_expired_sessionless_shrinks[of m now]
  show ?admission
  proof (cases "hget (cm_contexts (evict_expired_sessionless_for_admission now m)) cid")
    case None
    with s assms have "reapable_sessionless m now ctx" by (simp add: shrinks_def)
    then show ?thesis by (auto simp: reapable_sessionless_def is_reapable_def split: if_splits)
  next
    case (Some ctx1)
    with s assms show ?thesis by (fastforce simp: shrinks_def)
  qed
qed

theorem eviction_spares_live_work_witness:
  "hget (cm_contexts (evict_expired_sessionless_for_admission 1000000 two_tenants)) ''b''
     = Some (client_new ''b'' 5 (Some ''uid=2'') (Some 0))
   \<or> 1000000 - lc_last_active (client_new ''b'' 5 (Some ''uid=2'') (Some 0)) > cm_lease_duration two_tenants"
proof -
  have "hget (cm_contexts two_tenants) ''b'' = Some (client_new ''b'' 5 (Some ''uid=2'') (Some 0))"
    by (simp add: two_tenants_def insert_context_def context_manager_new_def)
  from eviction_spares_live_work[OF this, of 1000000]
  have "hget (cm_contexts (evict_expired_sessionless_for_admission 1000000 two_tenants)) ''b''
      = Some (client_new ''b'' 5 (Some ''uid=2'') (Some 0))
    \<or> is_transport_dead (cm_connections two_tenants) (client_new ''b'' 5 (Some ''uid=2'') (Some 0))
    \<or> 1000000 - lc_last_active (client_new ''b'' 5 (Some ''uid=2'') (Some 0)) > cm_lease_duration two_tenants"
    by blast
  moreover have "\<not> is_transport_dead (cm_connections two_tenants) (client_new ''b'' 5 (Some ''uid=2'') (Some 0))"
    by (simp add: two_tenants_def client_new_transport_dead conn_world_new_def)
  ultimately show ?thesis by blast
qed

end
