(* ===== verification/Session_Quota.thy ===== *)
theory Session_Quota
  imports Context_Manager
begin

text \<open>
  The per-principal session quota (\<^verbatim>\<open>try_reserve_session_for_principal\<close> and the session count it
  checks) keeps the admission contract for every principal key that is an identity or a context
  identifier.  (A peer address can become attributed to a context that already has sessions, which
  the code documents as conservative counting; such a key is excluded.)
\<close>

lemma sum_list_hput:
  fixes g :: "'k \<times> 'v \<Rightarrow> nat"
  shows "hwf m \<Longrightarrow> hget m k = Some c \<Longrightarrow>
   sum_list (map g (hput k c' m)) + g (k, c) = sum_list (map g m) + g (k, c')"
proof (induction m)
  case (Cons p m)
  obtain k1 c1 where p: "p = (k1, c1)" by fastforce
  then show ?case
  proof (cases "k1 = k")
    case False
    then have "hwf m" "hget m k = Some c" using Cons.prems p by (auto simp: hwf_def)
    from Cons.IH[OF this] False p show ?thesis by simp
  qed (use Cons.prems p in simp)
qed simp

lemma sum_list_hput_new:
  fixes g :: "'k \<times> 'v \<Rightarrow> nat"
  shows "hget m k = None \<Longrightarrow> sum_list (map g (hput k c' m)) = sum_list (map g m) + g (k, c')"
  by (induction m) (auto split: if_splits)

lemma sum_list_hdel:
  fixes g :: "'k \<times> 'v \<Rightarrow> nat"
  shows "sum_list (map g (hdel k m)) \<le> sum_list (map g m)"
  by (induction m) auto

definition quota_weight :: "string \<Rightarrow> ClientContextId \<times> LogicalClientInstance \<Rightarrow> nat" where
  "quota_weight key =
     (\<lambda>(cid, ctx). if attributable key cid ctx then length (lc_session_slots ctx) else 0)"

lemma session_count_alt:
  "session_count_for_principal m key = sum_list (map (quota_weight key) (cm_contexts m))"
  by (simp add: session_count_for_principal_def quota_weight_def)

definition quota_ok :: "string \<Rightarrow> ContextManager \<Rightarrow> bool" where
  "quota_ok key m =
     (hwf (cm_contexts m)
      \<and> (\<forall>(cid, ctx) \<in> set (cm_contexts m). hwf (lc_session_slots ctx) \<and> lc_last_peer_ip ctx \<noteq> Some key))"

lemma quota_ok_iff:
  "quota_ok key m \<longleftrightarrow> hwf (cm_contexts m) \<and>
     (\<forall>cid ctx. hget (cm_contexts m) cid = Some ctx \<longrightarrow>
        hwf (lc_session_slots ctx) \<and> lc_last_peer_ip ctx \<noteq> Some key)"
  unfolding quota_ok_def by (auto simp: hget_eq_Some_iff)

text \<open>Registering the backend session an open has produced, in the client's context.\<close>

definition commit_session ::
  "ClientContextId \<times> BackendHandle \<times> BackendSlotId \<Rightarrow> ContextManager \<Rightarrow> ContextManager" where
  "commit_session = (\<lambda>(cid, backend, slot). update_context cid (\<lambda>c. snd (register_session backend slot c)))"

datatype quota_op =
    QClose ClientContextId VirtualHandle
  | QRemove ClientContextId
  | QCreate instant ClientContextId "string option" "conn_ref option"

definition quota_op_step :: "quota_op \<Rightarrow> ContextManager \<Rightarrow> ContextManager" where
  "quota_op_step op m =
     (case op of
        QClose cid session \<Rightarrow> update_context cid (\<lambda>c. snd (remove_session session c)) m
      | QRemove cid \<Rightarrow> snd (remove_context cid m)
      | QCreate now cid identity connection \<Rightarrow> insert_context now cid identity connection m)"

lemma register_session_frame [simp]:
  "lc_session_slots (snd (register_session b slot c)) =
     hput (fst (handle_map_insert b (lc_session_handles c))) slot (lc_session_slots c)"
  "lc_last_peer_ip (snd (register_session b slot c)) = lc_last_peer_ip c"
  "lc_authenticated_identity (snd (register_session b slot c)) = lc_authenticated_identity c"
  by (simp_all add: register_session_def case_prod_beta Let_def)

lemma evict_objects_peer_ip [simp]:
  "lc_last_peer_ip (fold evict_object objs c) = lc_last_peer_ip c"
  by (induction objs arbitrary: c) (simp_all add: evict_object_def)

lemma remove_session_peer_ip [simp]:
  "lc_last_peer_ip (snd (remove_session s c)) = lc_last_peer_ip c"
  by (simp add: remove_session_alt drop_session_def evict_session_objects_alt
      forget_message_operations_def clear_slot_login_def split: option.split)

lemma update_context_count:
  assumes "quota_ok key m" "hget (cm_contexts m) cid = Some ctx"
  shows "session_count_for_principal (update_context cid f m) key + quota_weight key (cid, ctx) =
    session_count_for_principal m key + quota_weight key (cid, f ctx)"
  using assms sum_list_hput[of "cm_contexts m" cid ctx "quota_weight key" "f ctx"]
  by (simp add: session_count_alt update_context_def quota_ok_def)

lemma update_context_quota_ok:
  assumes "quota_ok key m"
    and "\<And>ctx. hwf (lc_session_slots ctx) \<Longrightarrow> hwf (lc_session_slots (f ctx))"
    and "\<And>ctx. lc_last_peer_ip (f ctx) = lc_last_peer_ip ctx"
  shows "quota_ok key (update_context cid f m)"
proof -
  have "hwf (cm_contexts (update_context cid f m))"
    using assms(1) by (simp add: update_context_def quota_ok_def split: option.split)
  then show ?thesis using assms by (auto simp: quota_ok_iff split: if_splits)
qed

lemma commit_session_quota:
  assumes "quota_ok key m"
  shows "quota_ok key (commit_session x m)
    \<and> session_count_for_principal (commit_session x m) key \<le> Suc (session_count_for_principal m key)
    \<and> outstanding_sessions (commit_session x m) key = outstanding_sessions m key"
proof -
  obtain cid b slot where x: "x = (cid, b, slot)" by (cases x) auto
  let ?f = "\<lambda>c. snd (register_session b slot c)"
  have ok: "quota_ok key (update_context cid ?f m)" by (rule update_context_quota_ok[OF assms]) auto
  have "session_count_for_principal (update_context cid ?f m) key \<le> Suc (session_count_for_principal m key)"
  proof (cases "hget (cm_contexts m) cid")
    case None
    then show ?thesis by (simp add: update_context_def)
  next
    case (Some ctx)
    have "hwf (lc_session_slots ctx)" using assms Some by (simp add: quota_ok_iff)
    then have "quota_weight key (cid, ?f ctx) \<le> Suc (quota_weight key (cid, ctx))"
      by (auto simp: quota_weight_def attributable_def length_hput)
    with update_context_count[OF assms Some, of ?f] show ?thesis by linarith
  qed
  with ok show ?thesis by (simp add: x commit_session_def outstanding_sessions_def)
qed

lemma remove_context_contexts:
  "cm_contexts (snd (remove_context cid m)) = hdel cid (cm_contexts m)
   \<and> cm_session_quota_reservations (snd (remove_context cid m)) = cm_session_quota_reservations m"
  by (auto simp: remove_context_def remove_context_if_def hdel_absent split: option.split)

lemma quota_op_step_quota:
  assumes "quota_ok key m"
  shows "quota_ok key (quota_op_step op m)
    \<and> session_count_for_principal (quota_op_step op m) key \<le> session_count_for_principal m key
    \<and> outstanding_sessions (quota_op_step op m) key = outstanding_sessions m key"
proof (cases op)
  case (QClose cid s)
  let ?f = "\<lambda>c. snd (remove_session s c)"
  have ok: "quota_ok key (update_context cid ?f m)" by (rule update_context_quota_ok[OF assms]) auto
  have "session_count_for_principal (update_context cid ?f m) key \<le> session_count_for_principal m key"
  proof (cases "hget (cm_contexts m) cid")
    case None
    then show ?thesis by (simp add: update_context_def)
  next
    case (Some ctx)
    have "quota_weight key (cid, ?f ctx) \<le> quota_weight key (cid, ctx)"
      using length_hdel_le[of s "lc_session_slots ctx"]
      by (simp add: quota_weight_def attributable_def)
    with update_context_count[OF assms Some, of ?f] show ?thesis by linarith
  qed
  with ok QClose show ?thesis by (simp add: quota_op_step_def outstanding_sessions_def)
next
  case (QRemove cid)
  with assms remove_context_contexts[of cid m] sum_list_hdel[of "quota_weight key" cid "cm_contexts m"]
  show ?thesis
    by (auto simp: quota_op_step_def quota_ok_iff session_count_alt outstanding_sessions_def
        split: if_splits)
next
  case (QCreate now cid identity connection)
  let ?c = "client_new cid now identity connection"
  have w: "quota_weight key (cid, ?c) = 0" by (simp add: quota_weight_def client_new_def)
  have "sum_list (map (quota_weight key) (hput cid ?c (cm_contexts m))) \<le>
      sum_list (map (quota_weight key) (cm_contexts m))"
    using sum_list_hput[of "cm_contexts m" cid _ "quota_weight key" ?c] assms w
      sum_list_hput_new[of "cm_contexts m" cid "quota_weight key" ?c]
    by (cases "hget (cm_contexts m) cid") (fastforce simp: quota_ok_def)+
  with QCreate assms show ?thesis
    by (auto simp: quota_op_step_def insert_context_def quota_ok_iff session_count_alt
        outstanding_sessions_def client_new_def split: if_splits)
qed

interpretation session_admission: bounded_admission "quota_ok key"
  "\<lambda>m. session_count_for_principal m key" "\<lambda>m. outstanding_sessions m key" quota
  "\<lambda>_ :: unit. try_reserve_session_for_principal key quota" commit_session
  "release_session_reservation key" quota_op_step for key quota
proof
  fix m :: ContextManager and t c d
  assume ok: "quota_ok key m"
  show "quota_ok key (snd (try_reserve_session_for_principal key quota m))"
    "session_count_for_principal (snd (try_reserve_session_for_principal key quota m)) key
      \<le> session_count_for_principal m key"
    using ok by (simp_all add: try_reserve_session_for_principal_def quota_ok_def session_count_alt)
  show "fst (try_reserve_session_for_principal key quota m) \<Longrightarrow>
      session_count_for_principal (snd (try_reserve_session_for_principal key quota m)) key
        + outstanding_sessions m key < quota
      \<and> outstanding_sessions (snd (try_reserve_session_for_principal key quota m)) key =
          Suc (outstanding_sessions m key)"
    "\<not> fst (try_reserve_session_for_principal key quota m) \<Longrightarrow>
      outstanding_sessions (snd (try_reserve_session_for_principal key quota m)) key =
        outstanding_sessions m key"
    by (simp_all add: try_reserve_session_for_principal_def session_count_alt outstanding_sessions_def
        split: if_splits)
  show "quota_ok key (release_session_reservation key m)"
    "session_count_for_principal (release_session_reservation key m) key
      \<le> session_count_for_principal m key"
    "outstanding_sessions (release_session_reservation key m) key = outstanding_sessions m key - 1"
    using ok by (auto simp: release_session_reservation_def quota_ok_def session_count_alt
        outstanding_sessions_def split: option.split)
qed (use commit_session_quota quota_op_step_quota in blast)+

section \<open>Properties\<close>



end
