(* ===== verification/Rate_Limit.thy ===== *)
theory Rate_Limit
  imports Prelude
begin

text \<open>
  \<^verbatim>\<open>crates/server/src/server/rate_limit.rs\<close>: the fixed-window limiter per peer address that guards
  the two unauthenticated calls.  Besides the limiter as written (one table for all peers, collected
  opportunistically) the theory has the reference automaton of a single peer, proves that the
  limiter behaves exactly like it, whatever the other peers do and whenever the collection runs, and
  derives the rate bound from the automaton.
\<close>

type_synonym IpAddr = string

record PeerCell =
  pc_count :: nat
  pc_window_start :: instant

record RateState =
  rs_window :: duration
  rs_max_per_window :: nat
  rs_peers :: "(IpAddr, PeerCell) hashmap"
  rs_last_gc :: instant

definition rate_configure :: "duration \<Rightarrow> nat \<Rightarrow> instant \<Rightarrow> RateState option \<Rightarrow> RateState option" where
  "rate_configure window max_per_window now state =
     (case state of
        Some s \<Rightarrow> Some s
      | None \<Rightarrow> Some \<lparr>rs_window = window, rs_max_per_window = max_per_window, rs_peers = [],
                     rs_last_gc = now\<rparr>)"

text \<open>The always-on budget of \<open>Initialize\<close>: 600 calls per 60 seconds (in milliseconds).\<close>

definition INIT_THROTTLE_WINDOW :: duration where
  "INIT_THROTTLE_WINDOW = 60 * 1000"

definition INIT_THROTTLE_MAX_PER_WINDOW :: nat where
  "INIT_THROTTLE_MAX_PER_WINDOW = 600"

definition init_state :: "instant \<Rightarrow> RateState" where
  "init_state now = \<lparr>rs_window = INIT_THROTTLE_WINDOW,
     rs_max_per_window = INIT_THROTTLE_MAX_PER_WINDOW, rs_peers = [], rs_last_gc = now\<rparr>"

text \<open>The collection; \<open>lock_free\<close> says whether \<^verbatim>\<open>try_lock\<close> gets the mutex.\<close>

definition rate_gc :: "bool \<Rightarrow> instant \<Rightarrow> RateState \<Rightarrow> RateState" where
  "rate_gc lock_free now s =
     (if length (rs_peers s) > 1024 \<and> lock_free \<and> now - rs_last_gc s \<ge> rs_window s
      then s\<lparr>rs_peers := hretain (\<lambda>_ cell. now - pc_window_start cell < rs_window s * 5) (rs_peers s),
             rs_last_gc := now\<rparr>
      else s)"

text \<open>\<^term>\<open>Inl r\<close> is a refusal with the time to wait, \<^term>\<open>Inr ()\<close> an admission.\<close>

definition check_against ::
  "RateState option \<Rightarrow> IpAddr \<Rightarrow> instant \<Rightarrow> bool \<Rightarrow> (duration + unit) \<times> RateState option" where
  "check_against state peer now lock_free =
     (case state of
        None \<Rightarrow> (Inr (), None)
      | Some s \<Rightarrow>
          if \<not> rs_max_per_window s > 0 then (Inr (), Some s)
          else
            let entry0 = (case hget (rs_peers s) peer of
                            None \<Rightarrow> \<lparr>pc_count = 0, pc_window_start = now\<rparr> | Some cell \<Rightarrow> cell);
                entry = (if now - pc_window_start entry0 \<ge> rs_window s
                         then \<lparr>pc_count = 0, pc_window_start = now\<rparr> else entry0)
            in if pc_count entry \<ge> rs_max_per_window s
               then (Inl (rs_window s - (now - pc_window_start entry)),
                     Some (s\<lparr>rs_peers := hput peer entry (rs_peers s)\<rparr>))
               else (Inr (),
                     Some (rate_gc lock_free now
                       (s\<lparr>rs_peers := hput peer (entry\<lparr>pc_count := pc_count entry + 1\<rparr>) (rs_peers s)\<rparr>))))"

section \<open>One peer alone\<close>

definition cell_check ::
  "duration \<Rightarrow> nat \<Rightarrow> instant \<Rightarrow> PeerCell option \<Rightarrow> (duration + unit) \<times> PeerCell" where
  "cell_check window max_calls now cell =
     (let fresh = \<lparr>pc_count = 0, pc_window_start = now\<rparr>;
          entry0 = (case cell of None \<Rightarrow> fresh | Some c \<Rightarrow> c);
          entry = (if now - pc_window_start entry0 \<ge> window then fresh else entry0)
      in if pc_count entry \<ge> max_calls
         then (Inl (window - (now - pc_window_start entry)), entry)
         else (Inr (), entry\<lparr>pc_count := pc_count entry + 1\<rparr>))"

fun cell_run :: "duration \<Rightarrow> nat \<Rightarrow> instant list \<Rightarrow> PeerCell option \<Rightarrow> (duration + unit) list" where
  "cell_run window max_calls [] cell = []"
| "cell_run window max_calls (now # ts) cell =
     (let (r, cell') = cell_check window max_calls now cell
      in r # cell_run window max_calls ts (Some cell'))"

text \<open>A run of the limiter over calls (peer, time, whether the collection may run).\<close>

fun rate_run :: "(IpAddr \<times> instant \<times> bool) list \<Rightarrow> RateState option \<Rightarrow> (IpAddr \<times> (duration + unit)) list" where
  "rate_run [] s = []"
| "rate_run ((peer, now, lock_free) # calls) s =
     (let (r, s') = check_against s peer now lock_free in (peer, r) # rate_run calls s')"

text \<open>
  The table and the automaton agree on one peer at a time, or the table has forgotten a cell whose
  window is over for good.
\<close>

definition agrees :: "RateState \<Rightarrow> IpAddr \<Rightarrow> instant \<Rightarrow> PeerCell option \<Rightarrow> bool" where
  "agrees s peer now cell =
     (hget (rs_peers s) peer = cell
      \<or> hget (rs_peers s) peer = None
         \<and> (case cell of None \<Rightarrow> True | Some c \<Rightarrow> now - pc_window_start c \<ge> rs_window s))"

lemma agrees_later: "agrees s peer t cell \<Longrightarrow> t \<le> now \<Longrightarrow> agrees s peer now cell"
  by (auto simp: agrees_def split: option.splits)

lemma rate_gc_frame [simp]:
  "rs_window (rate_gc l now s) = rs_window s"
  "rs_max_per_window (rate_gc l now s) = rs_max_per_window s"
  by (simp_all add: rate_gc_def)

lemma rate_gc_hwf: "hwf (rs_peers s) \<Longrightarrow> hwf (rs_peers (rate_gc l now s))"
  by (simp add: rate_gc_def)

lemma rate_gc_agrees:
  assumes "hwf (rs_peers s)" "agrees s peer now cell"
  shows "agrees (rate_gc l now s) peer now cell"
  using assms by (auto simp: rate_gc_def agrees_def hget_hretain split: option.splits)

lemma cell_check_agrees:
  assumes "agrees s peer now cell"
  shows "cell_check (rs_window s) m now (hget (rs_peers s) peer) = cell_check (rs_window s) m now cell"
  using assms by (auto simp: agrees_def cell_check_def Let_def split: option.splits)

lemma check_against_Some:
  assumes "0 < rs_max_per_window s"
  shows "check_against (Some s) peer now l =
    (let (r, cell) = cell_check (rs_window s) (rs_max_per_window s) now (hget (rs_peers s) peer);
         s' = s\<lparr>rs_peers := hput peer cell (rs_peers s)\<rparr>
     in (r, Some (case r of Inl _ \<Rightarrow> s' | Inr _ \<Rightarrow> rate_gc l now s')))"
  using assms by (simp add: check_against_def cell_check_def Let_def)

lemma check_against_step:
  assumes wf: "hwf (rs_peers s)" and mx: "0 < rs_max_per_window s"
    and run: "check_against (Some s) peer now l = (r, s1)"
  obtains s' where "s1 = Some s'" "hwf (rs_peers s')" "rs_window s' = rs_window s"
    "rs_max_per_window s' = rs_max_per_window s"
    "\<And>q cell. q \<noteq> peer \<Longrightarrow> agrees s q now cell \<Longrightarrow> agrees s' q now cell"
    "\<And>cell. agrees s peer now cell \<Longrightarrow>
       (r, snd (cell_check (rs_window s) (rs_max_per_window s) now cell))
         = cell_check (rs_window s) (rs_max_per_window s) now cell
       \<and> agrees s' peer now (Some (snd (cell_check (rs_window s) (rs_max_per_window s) now cell)))"
proof -
  let ?c = "cell_check (rs_window s) (rs_max_per_window s) now (hget (rs_peers s) peer)"
  let ?t = "s\<lparr>rs_peers := hput peer (snd ?c) (rs_peers s)\<rparr>"
  define s' where "s' = (case r of Inl _ \<Rightarrow> ?t | Inr _ \<Rightarrow> rate_gc l now ?t)"
  have r: "r = fst ?c" and s1: "s1 = Some s'"
    using run by (auto simp: check_against_Some[OF mx] s'_def case_prod_beta Let_def)
  have t: "agrees ?t q now cell" if "q \<noteq> peer" "agrees s q now cell" for q cell
    using that by (cases cell) (simp_all add: agrees_def)
  have tp: "agrees ?t peer now (Some (snd ?c))" by (simp add: agrees_def)
  have wft: "hwf (rs_peers ?t)" using wf by simp
  have keep: "agrees ?t q now cell \<Longrightarrow> agrees s' q now cell" for q cell
    using rate_gc_agrees[OF wft] by (auto simp: s'_def split: sum.splits)
  show thesis
  proof (rule that[OF s1])
    show "hwf (rs_peers s')" using rate_gc_hwf[OF wft] wft by (auto simp: s'_def split: sum.splits)
    show "rs_window s' = rs_window s" "rs_max_per_window s' = rs_max_per_window s"
      by (auto simp: s'_def split: sum.splits)
    show "q \<noteq> peer \<Longrightarrow> agrees s q now cell \<Longrightarrow> agrees s' q now cell" for q cell
      using keep t by blast
    show "agrees s peer now cell \<Longrightarrow>
       (r, snd (cell_check (rs_window s) (rs_max_per_window s) now cell))
         = cell_check (rs_window s) (rs_max_per_window s) now cell
       \<and> agrees s' peer now (Some (snd (cell_check (rs_window s) (rs_max_per_window s) now cell)))" for cell
      using cell_check_agrees[of s peer now cell "rs_max_per_window s"] r keep[OF tp] by simp
  qed
qed

definition calls_of :: "IpAddr \<Rightarrow> (IpAddr \<times> instant \<times> bool) list \<Rightarrow> instant list" where
  "calls_of p calls = map (\<lambda>(_, now, _). now) (filter (\<lambda>(q, _, _). q = p) calls)"

definition replies_to :: "IpAddr \<Rightarrow> (IpAddr \<times> (duration + unit)) list \<Rightarrow> (duration + unit) list" where
  "replies_to p rs = map snd (filter (\<lambda>(q, _). q = p) rs)"

lemma rate_run_agrees:
  assumes "hwf (rs_peers s)" "0 < rs_max_per_window s" "agrees s p t cell"
    "sorted (t # map (\<lambda>(_, now, _). now) calls)"
  shows "replies_to p (rate_run calls (Some s)) =
    cell_run (rs_window s) (rs_max_per_window s) (calls_of p calls) cell"
  using assms
proof (induction calls arbitrary: s t cell)
  case Nil
  then show ?case by (simp add: replies_to_def calls_of_def)
next
  case (Cons call calls)
  obtain q now l where call: "call = (q, now, l)" by (cases call) auto
  obtain r s1 where run: "check_against (Some s) q now l = (r, s1)" by fastforce
  from check_against_step[OF Cons.prems(1,2) run] obtain s' where
    s': "s1 = Some s'" "hwf (rs_peers s')" "rs_window s' = rs_window s"
      "rs_max_per_window s' = rs_max_per_window s"
    and other: "\<And>q' cell. q' \<noteq> q \<Longrightarrow> agrees s q' now cell \<Longrightarrow> agrees s' q' now cell"
    and own: "\<And>cell. agrees s q now cell \<Longrightarrow>
       (r, snd (cell_check (rs_window s) (rs_max_per_window s) now cell))
         = cell_check (rs_window s) (rs_max_per_window s) now cell
       \<and> agrees s' q now (Some (snd (cell_check (rs_window s) (rs_max_per_window s) now cell)))"
    by blast
  have ag: "agrees s p now cell" using agrees_later[OF Cons.prems(3)] Cons.prems(4) call by simp
  have srt: "sorted (now # map (\<lambda>(_, now, _). now) calls)" using Cons.prems(4) call by simp
  have mx': "0 < rs_max_per_window s'" using Cons.prems(2) s'(4) by simp
  show ?case
  proof (cases "q = p")
    case True
    let ?k = "snd (cell_check (rs_window s) (rs_max_per_window s) now cell)"
    from own ag True have eq: "cell_check (rs_window s) (rs_max_per_window s) now cell = (r, ?k)"
      and ag': "agrees s' p now (Some ?k)" by auto
    obtain k where k: "cell_check (rs_window s) (rs_max_per_window s) now cell = (r, k)"
      using eq by blast
    from Cons.IH[OF s'(2) mx' ag' srt] s' k True call run show ?thesis
      by (simp add: replies_to_def calls_of_def)
  next
    case False
    from Cons.IH[OF s'(2) mx' other[OF _ ag] srt] s' False call run show ?thesis
      by (simp add: replies_to_def calls_of_def)
  qed
qed


section \<open>The rate of one peer\<close>

definition admitted_times :: "instant list \<Rightarrow> (duration + unit) list \<Rightarrow> instant list" where
  "admitted_times ts rs = map fst (filter (\<lambda>(_, r). r = Inr ()) (zip ts rs))"

lemma admitted_times_simps [simp]:
  "admitted_times [] rs = []"
  "admitted_times (t # ts) (Inr () # rs) = t # admitted_times ts rs"
  "admitted_times (t # ts) (Inl r # rs) = admitted_times ts rs"
  by (simp_all add: admitted_times_def)

definition within :: "instant \<Rightarrow> instant \<Rightarrow> instant list \<Rightarrow> nat" where
  "within lo hi ts = length (filter (\<lambda>a. lo \<le> a \<and> a < hi) ts)"

lemma within_simps [simp]:
  "within lo hi [] = 0"
  "within lo hi (a # ts) = (if lo \<le> a \<and> a < hi then 1 else 0) + within lo hi ts"
  by (simp_all add: within_def)

lemma within_mono: "lo' \<le> lo \<Longrightarrow> hi \<le> hi' \<Longrightarrow> within lo hi ts \<le> within lo' hi' ts"
  by (induction ts) auto

lemma within_split: "lo \<le> mid \<Longrightarrow> mid \<le> hi \<Longrightarrow> within lo hi ts = within lo mid ts + within mid hi ts"
  by (induction ts) auto

lemma within_all_le: "\<forall>a\<in>set ts. a < hi \<Longrightarrow> hi \<le> hi' \<Longrightarrow> within lo hi' ts = within lo hi ts"
  by (induction ts) auto

text \<open>
  The invariant of the automaton, about the admissions \<open>A\<close> so far: those of the current window are
  counted, an interval that reaches into the current window has at most one window's worth of older
  ones, and no interval of the window's length has more than two.
\<close>

definition cell_inv :: "duration \<Rightarrow> nat \<Rightarrow> instant \<Rightarrow> instant list \<Rightarrow> PeerCell \<Rightarrow> bool" where
  "cell_inv w m now A c =
     (pc_window_start c \<le> now \<and> pc_count c \<le> m
      \<and> (\<forall>a\<in>set A. a \<le> now \<and> a < pc_window_start c + w)
      \<and> within (pc_window_start c) (Suc now) A \<le> pc_count c
      \<and> (\<forall>t. pc_window_start c < t + w \<longrightarrow> within t (pc_window_start c) A \<le> m)
      \<and> (\<forall>t. within t (t + w) A \<le> 2 * m))"

lemma cell_inv_later:
  assumes "cell_inv w m now A c" "now \<le> now'"
  shows "cell_inv w m now' A c"
proof -
  have "within (pc_window_start c) (Suc now') A = within (pc_window_start c) (Suc now) A"
    using assms by (intro within_all_le) (auto simp: cell_inv_def less_Suc_eq_le)
  then show ?thesis using assms by (auto simp: cell_inv_def)
qed

lemma cell_inv_roll:
  assumes inv: "cell_inv w m now A c" and over: "now - pc_window_start c \<ge> w" and w: "0 < w"
  shows "cell_inv w m now A \<lparr>pc_count = 0, pc_window_start = now\<rparr>"
proof -
  have old: "\<forall>a\<in>set A. a < now" using inv over by (fastforce simp: cell_inv_def)
  then have "within now (Suc now) A = 0" by (auto simp: within_def filter_empty_conv)
  moreover have "within t now A \<le> m" if "now < t + w" for t
  proof -
    have "within t now A \<le> within (pc_window_start c) (Suc now) A"
      using that over inv by (intro within_mono) (auto simp: cell_inv_def)
    then show ?thesis using inv by (simp add: cell_inv_def)
  qed
  ultimately show ?thesis using inv old w by (auto simp: cell_inv_def)
qed

lemma cell_inv_admit:
  assumes inv: "cell_inv w m now A c" and room: "pc_count c < m"
    and cur: "now - pc_window_start c < w"
  shows "cell_inv w m now (now # A) (c\<lparr>pc_count := pc_count c + 1\<rparr>)"
proof -
  have two: "within t (t + w) (now # A) \<le> 2 * m" for t
  proof (cases "t \<le> now \<and> now < t + w")
    case True
    have split: "within t (t + w) A \<le> within t (pc_window_start c) A + within (pc_window_start c) (Suc now) A"
    proof (cases "t \<le> pc_window_start c")
      case le: True
      have "pc_window_start c \<le> t + w" using True inv by (simp add: cell_inv_def)
      then have "within t (t + w) A = within t (pc_window_start c) A + within (pc_window_start c) (t + w) A"
        using le by (rule within_split[rotated])
      moreover have "within (pc_window_start c) (t + w) A = within (pc_window_start c) (Suc now) A"
        using inv True by (intro within_all_le) (auto simp: cell_inv_def less_Suc_eq_le)
      ultimately show ?thesis by simp
    next
      case False
      have "within t (t + w) A = within t (Suc now) A"
        using inv True by (intro within_all_le) (auto simp: cell_inv_def less_Suc_eq_le)
      also have "\<dots> \<le> within (pc_window_start c) (Suc now) A"
        using False by (intro within_mono) auto
      finally show ?thesis by simp
    qed
    moreover have "within t (pc_window_start c) A \<le> m" using inv True by (simp add: cell_inv_def)
    moreover have "within (pc_window_start c) (Suc now) A < m" using inv room by (simp add: cell_inv_def)
    ultimately show ?thesis using True by simp
  next
    case False
    then have "within t (t + w) (now # A) = within t (t + w) A" by simp
    then show ?thesis using inv by (simp only: cell_inv_def)
  qed
  have start: "within t (pc_window_start c) (now # A) \<le> m" if "pc_window_start c < t + w" for t
    using inv that by (simp add: cell_inv_def)
  have "now < pc_window_start c + w" using cur inv by (auto simp: cell_inv_def)
  then show ?thesis using inv room two start by (auto simp: cell_inv_def)
qed

lemma cell_inv_fresh: "0 < w \<Longrightarrow> cell_inv w m now [] \<lparr>pc_count = 0, pc_window_start = now\<rparr>"
  by (simp add: cell_inv_def)

lemma cell_check_inv:
  assumes w: "0 < w" and inv: "case c of None \<Rightarrow> A = [] | Some c0 \<Rightarrow> cell_inv w m t A c0" and t: "t \<le> now"
    and run: "cell_check w m now c = (r, c')"
  shows "cell_inv w m now (if r = Inr () then now # A else A) c'"
proof -
  let ?fresh = "\<lparr>pc_count = 0, pc_window_start = now\<rparr>"
  define e0 where "e0 = (case c of None \<Rightarrow> ?fresh | Some c0 \<Rightarrow> c0)"
  define e where "e = (if now - pc_window_start e0 \<ge> w then ?fresh else e0)"
  have "cell_inv w m now A e0"
    using inv t w by (auto simp: e0_def cell_inv_fresh cell_inv_later split: option.splits)
  then have e: "cell_inv w m now A e" by (auto simp: e_def w cell_inv_roll)
  have cur: "now - pc_window_start e < w" using w by (simp add: e_def)
  have "(r, c') = (if pc_count e \<ge> m then (Inl (w - (now - pc_window_start e)), e)
                   else (Inr (), e\<lparr>pc_count := pc_count e + 1\<rparr>))"
    unfolding run[symmetric] cell_check_def Let_def e_def e0_def ..
  then show ?thesis using e cur cell_inv_admit[OF e _ cur] by (auto split: if_splits)
qed

lemma within_append [simp]: "within lo hi (xs @ ys) = within lo hi xs + within lo hi ys"
  by (simp add: within_def)

lemma cell_run_bound:
  assumes w: "0 < w" and "case c of None \<Rightarrow> A = [] | Some c0 \<Rightarrow> cell_inv w m t A c0"
    and "sorted (t # ts)"
  shows "within lo (lo + w) (A @ admitted_times ts (cell_run w m ts c)) \<le> 2 * m"
  using assms(2,3)
proof (induction ts arbitrary: t c A)
  case Nil
  then show ?case by (auto simp: cell_inv_def split: option.splits)
next
  case (Cons now ts)
  obtain r c' where run: "cell_check w m now c = (r, c')" by fastforce
  let ?A = "if r = Inr () then now # A else A"
  have "cell_inv w m now ?A c'" using cell_check_inv[OF w Cons.prems(1) _ run] Cons.prems(2) by simp
  with Cons.IH[where c = "Some c'" and A = ?A and t = now] Cons.prems(2)
  have "within lo (lo + w) (?A @ admitted_times ts (cell_run w m ts (Some c'))) \<le> 2 * m" by simp
  then show ?case using run by (cases r) auto
qed

definition fresh_rate_state :: "duration \<Rightarrow> nat \<Rightarrow> instant \<Rightarrow> RateState" where
  "fresh_rate_state w m now = \<lparr>rs_window = w, rs_max_per_window = m, rs_peers = [], rs_last_gc = now\<rparr>"

lemma rate_run_fresh:
  assumes "0 < m" "sorted (map (\<lambda>(_, now, _). now) calls)"
  shows "replies_to p (rate_run calls (Some (fresh_rate_state w m start))) = cell_run w m (calls_of p calls) None"
  using rate_run_agrees[of "fresh_rate_state w m start" p 0 None calls] assms
  by (simp add: fresh_rate_state_def agrees_def)

lemma sorted_calls_of:
  "sorted (map (\<lambda>(_, now, _). now) calls) \<Longrightarrow> sorted (calls_of p calls)"
  by (auto simp: calls_of_def sorted_map sorted_wrt_filter)

section \<open>Claims\<close>

text \<open>
  C8. The limiter treats every peer as if it were alone: whatever the other peers do, and whenever
  the opportunistic collection runs, the replies a peer gets are those of the automaton of that peer
  by itself.  In particular one peer's flood never costs another its budget, and the collection
  never forgets a running window.
\<close>

theorem limiter_isolates_peers:
  assumes "0 < m" "sorted (map (\<lambda>(_, now, _). now) calls)"
  shows "replies_to p (rate_run calls (rate_configure w m start None)) = cell_run w m (calls_of p calls) None"
  using rate_run_fresh[OF assms, of p w start] by (simp add: rate_configure_def fresh_rate_state_def)

theorem limiter_isolates_peers_witness:
  "replies_to ''b'' (rate_run [(''a'', 0, True), (''a'', 1, True), (''b'', 2, True), (''b'', 9, False)]
     (rate_configure 10 1 0 None)) = [Inr (), Inl 3]"
  by (subst limiter_isolates_peers) (simp_all add: calls_of_def cell_check_def)



end
