(* ===== verification/Rate_Quota.thy ===== *)
theory Rate_Quota
  imports Slot_Map
begin

text \<open>
  \<^verbatim>\<open>crates/server/src/server/rate_quota.rs\<close>: the cap on the operations a principal has in flight,
  with its guards and its collection, and the failed-login budget of a backend slot.  Every limit is
  optional; the global \<^verbatim>\<open>OnceLock\<close> is an option.  A principal's counter is an \<^verbatim>\<open>i64\<close>; it is
  modelled as an integer, and the cast of the configured \<^verbatim>\<open>usize\<close> to \<^verbatim>\<open>i64\<close> is the signed reading
  of the word.  The two clock reads of one failed login are taken as one instant.
\<close>

section \<open>State\<close>

record FailedLoginState =
  fl_count :: nat
  fl_cooldown_until :: "instant option"

record RateQuota =
  rq_max_in_flight :: "u64 option"
  rq_max_sessions :: "nat option"
  rq_login_budget :: "nat option"
  rq_login_cooldown :: duration
  rq_in_flight :: "(string, int) hashmap"
  rq_last_inflight_gc :: instant
  rq_login_state :: "(BackendSlotId, FailedLoginState) hashmap"

datatype GuardKind = NoOp | Active string

definition INFLIGHT_GC_INTERVAL :: duration where
  "INFLIGHT_GC_INTERVAL = 60 * 1000"

definition DEFAULT_COOLDOWN_SECS :: nat where
  "DEFAULT_COOLDOWN_SECS = 60"

definition quota_configure ::
  "u64 option \<Rightarrow> nat option \<Rightarrow> nat option \<Rightarrow> nat option \<Rightarrow> instant \<Rightarrow> RateQuota option \<Rightarrow> RateQuota option" where
  "quota_configure per_principal_max_in_flight max_sessions per_slot_failed_login_budget cooldown_secs now state =
     (case state of
        Some s \<Rightarrow> Some s
      | None \<Rightarrow> Some \<lparr>
          rq_max_in_flight = per_principal_max_in_flight,
          rq_max_sessions = max_sessions,
          rq_login_budget = per_slot_failed_login_budget,
          rq_login_cooldown = 1000 * (case cooldown_secs of None \<Rightarrow> DEFAULT_COOLDOWN_SECS | Some n \<Rightarrow> n),
          rq_in_flight = [],
          rq_last_inflight_gc = now,
          rq_login_state = []\<rparr>)"

section \<open>Operations in flight\<close>

text \<open>The drop of a guard.\<close>

definition principal_op_guard_drop :: "GuardKind \<Rightarrow> (string, int) hashmap \<Rightarrow> (string, int) hashmap" where
  "principal_op_guard_drop g m =
     (case g of
        NoOp \<Rightarrow> m
      | Active key \<Rightarrow>
          (case hget m key of
             None \<Rightarrow> m
           | Some prev \<Rightarrow> hput key (if prev \<le> 0 then 0 else prev - 1) m))"

definition begin_op_on ::
  "u64 option \<Rightarrow> (string, int) hashmap \<Rightarrow> string \<Rightarrow> GuardKind option \<times> (string, int) hashmap" where
  "begin_op_on max_in_flight in_flight who =
     (case max_in_flight of
        None \<Rightarrow> (Some NoOp, in_flight)
      | Some mx \<Rightarrow>
          let prev = (case hget in_flight who of None \<Rightarrow> 0 | Some n \<Rightarrow> n)
          in if prev \<ge> sint mx then (None, hput who (prev + 1 - 1) in_flight)
             else (Some (Active who), hput who (prev + 1) in_flight))"

definition maybe_gc_inflight :: "bool \<Rightarrow> instant \<Rightarrow> RateQuota \<Rightarrow> RateQuota" where
  "maybe_gc_inflight lock_free now s =
     (if length (rq_in_flight s) > 1024 \<and> lock_free \<and> now - rq_last_inflight_gc s \<ge> INFLIGHT_GC_INTERVAL
      then s\<lparr>rq_in_flight := hretain (\<lambda>_ c. c > 0) (rq_in_flight s), rq_last_inflight_gc := now\<rparr>
      else s)"

definition try_begin_principal_op ::
  "bool \<Rightarrow> instant \<Rightarrow> string \<Rightarrow> RateQuota option \<Rightarrow> GuardKind option \<times> RateQuota option" where
  "try_begin_principal_op lock_free now who state =
     (case state of
        None \<Rightarrow> (Some NoOp, None)
      | Some s \<Rightarrow>
          (case begin_op_on (rq_max_in_flight s) (rq_in_flight s) who of
             (None, m) \<Rightarrow> (None, Some (s\<lparr>rq_in_flight := m\<rparr>))
           | (Some g, m) \<Rightarrow> (Some g, Some (maybe_gc_inflight lock_free now (s\<lparr>rq_in_flight := m\<rparr>)))))"

definition per_principal_max_sessions :: "RateQuota option \<Rightarrow> nat option" where
  "per_principal_max_sessions state = (case state of None \<Rightarrow> None | Some s \<Rightarrow> rq_max_sessions s)"

section \<open>Failed logins\<close>

definition record_failure_on ::
  "nat option \<Rightarrow> duration \<Rightarrow> instant \<Rightarrow> (BackendSlotId, FailedLoginState) hashmap \<Rightarrow> BackendSlotId
   \<Rightarrow> bool \<times> (BackendSlotId, FailedLoginState) hashmap" where
  "record_failure_on login_budget login_cooldown now login_state slot =
     (case login_budget of
        None \<Rightarrow> (False, login_state)
      | Some budget \<Rightarrow>
          let e0 = (case hget login_state slot of
                      None \<Rightarrow> \<lparr>fl_count = 0, fl_cooldown_until = None\<rparr> | Some e \<Rightarrow> e);
              e = (if fl_count e0 < budget then e0\<lparr>fl_count := fl_count e0 + 1\<rparr> else e0)
          in if fl_count e \<ge> budget
             then (True, hput slot
                     (if \<not> (case fl_cooldown_until e of None \<Rightarrow> False | Some t \<Rightarrow> t > now)
                      then e\<lparr>fl_cooldown_until := Some (now + login_cooldown)\<rparr> else e) login_state)
             else (False, hput slot e login_state))"

definition record_success_on ::
  "(BackendSlotId, FailedLoginState) hashmap \<Rightarrow> BackendSlotId \<Rightarrow> (BackendSlotId, FailedLoginState) hashmap" where
  "record_success_on login_state slot =
     (case hget login_state slot of
        None \<Rightarrow> login_state
      | Some e \<Rightarrow> hput slot (e\<lparr>fl_count := 0, fl_cooldown_until := None\<rparr>) login_state)"

definition in_cooldown_on :: "instant \<Rightarrow> (BackendSlotId, FailedLoginState) hashmap \<Rightarrow> BackendSlotId \<Rightarrow> bool" where
  "in_cooldown_on now login_state slot =
     (case hget login_state slot of
        None \<Rightarrow> False
      | Some e \<Rightarrow> (case fl_cooldown_until e of None \<Rightarrow> False | Some t \<Rightarrow> t > now))"

definition record_login_failure :: "instant \<Rightarrow> BackendSlotId \<Rightarrow> RateQuota option \<Rightarrow> bool \<times> RateQuota option" where
  "record_login_failure now slot state =
     (case state of
        None \<Rightarrow> (False, None)
      | Some s \<Rightarrow>
          let (tripped, m) = record_failure_on (rq_login_budget s) (rq_login_cooldown s) now (rq_login_state s) slot
          in (tripped, Some (s\<lparr>rq_login_state := m\<rparr>)))"

definition record_login_success :: "BackendSlotId \<Rightarrow> RateQuota option \<Rightarrow> RateQuota option" where
  "record_login_success slot state =
     (case state of
        None \<Rightarrow> None
      | Some s \<Rightarrow> if rq_login_budget s = None then Some s
                 else Some (s\<lparr>rq_login_state := record_success_on (rq_login_state s) slot\<rparr>))"

definition login_slot_in_cooldown :: "instant \<Rightarrow> BackendSlotId \<Rightarrow> RateQuota option \<Rightarrow> bool" where
  "login_slot_in_cooldown now slot state =
     (case state of
        None \<Rightarrow> False
      | Some s \<Rightarrow> if rq_login_budget s = None then False else in_cooldown_on now (rq_login_state s) slot)"

section \<open>Guards and their counters\<close>

text \<open>
  What a daemon does with the in-flight map: operations begin and guards are dropped, in any order.
  The guards held are a list.
\<close>

inductive inflight_step :: "RateQuota option \<times> GuardKind list \<Rightarrow> RateQuota option \<times> GuardKind list \<Rightarrow> bool" where
  begin_admitted:
    "try_begin_principal_op l now p s = (Some g, s') \<Longrightarrow> inflight_step (s, gs) (s', g # gs)"
| begin_refused:
    "try_begin_principal_op l now p s = (None, s') \<Longrightarrow> inflight_step (s, gs) (s', gs)"
| guard_dropped:
    "g \<in> set gs \<Longrightarrow>
     inflight_step (Some s, gs)
       (Some (s\<lparr>rq_in_flight := principal_op_guard_drop g (rq_in_flight s)\<rparr>), remove1 g gs)"

inductive inflight_reachable :: "RateQuota option \<Rightarrow> RateQuota option \<times> GuardKind list \<Rightarrow> bool"
  for s0 :: "RateQuota option" where
  start: "inflight_reachable s0 (s0, [])"
| step: "inflight_reachable s0 w \<Longrightarrow> inflight_step w w' \<Longrightarrow> inflight_reachable s0 w'"

definition counter_of :: "(string, int) hashmap \<Rightarrow> string \<Rightarrow> int" where
  "counter_of m p = (case hget m p of None \<Rightarrow> 0 | Some n \<Rightarrow> n)"

text \<open>Every counter is the number of guards held, and none is over the limit.\<close>

definition inflight_inv :: "u64 \<Rightarrow> RateQuota option \<times> GuardKind list \<Rightarrow> bool" where
  "inflight_inv mx w =
     (case fst w of
        None \<Rightarrow> False
      | Some s \<Rightarrow> hwf (rq_in_flight s) \<and> rq_max_in_flight s = Some mx
          \<and> (\<forall>p. counter_of (rq_in_flight s) p = int (count_list (snd w) (Active p))
                 \<and> count_list (snd w) (Active p) \<le> unat mx))"

lemma counter_of_hput [simp]: "counter_of (hput k v m) p = (if p = k then v else counter_of m p)"
  by (simp add: counter_of_def)

lemma maybe_gc_counter:
  assumes "hwf (rq_in_flight s)" "\<And>p. counter_of (rq_in_flight s) p \<ge> 0"
  shows "counter_of (rq_in_flight (maybe_gc_inflight l now s)) p = counter_of (rq_in_flight s) p"
    "hwf (rq_in_flight (maybe_gc_inflight l now s))"
    "rq_max_in_flight (maybe_gc_inflight l now s) = rq_max_in_flight s"
  using assms(1) assms(2)[of p]
  by (auto simp: maybe_gc_inflight_def counter_of_def hget_hretain split: option.splits)

lemma sint_less_imp_unat_less: "n < sint (w :: u64) \<Longrightarrow> n < int (unat w)"
proof -
  have "sint w \<le> uint w"
    using order_trans[of "- (2 ^ 63)" 0 "uint w"]
    by (simp add: sint_uint signed_take_bit_int_less_eq_self_iff)
  then show "n < sint w \<Longrightarrow> n < int (unat w)" by simp
qed

lemma begin_op_on_counter:
  "begin_op_on (Some mx) m p =
     (if counter_of m p \<ge> sint mx then (None, hput p (counter_of m p) m)
      else (Some (Active p), hput p (counter_of m p + 1) m))"
  by (simp add: begin_op_on_def counter_of_def)

lemma count_list_remove1: "count_list (remove1 x xs) y = (if x = y then count_list xs y - 1 else count_list xs y)"
  by (induction xs) auto

lemma begin_admitted_inv:
  assumes inv: "inflight_inv mx (s, gs)" and run: "try_begin_principal_op l now p s = (Some g, s')"
  shows "inflight_inv mx (s', g # gs)"
proof -
  from inv obtain q where s: "s = Some q" and wf: "hwf (rq_in_flight q)" "rq_max_in_flight q = Some mx"
    and cnt: "\<And>p. counter_of (rq_in_flight q) p = int (count_list gs (Active p))"
    and le: "\<And>p. count_list gs (Active p) \<le> unat mx"
    by (auto simp: inflight_inv_def split: option.splits)
  let ?n = "counter_of (rq_in_flight q) p"
  let ?q = "q\<lparr>rq_in_flight := hput p (?n + 1) (rq_in_flight q)\<rparr>"
  have lt: "?n < sint mx" and g: "g = Active p" and s': "s' = Some (maybe_gc_inflight l now ?q)"
    using run wf s by (auto simp: try_begin_principal_op_def begin_op_on_counter split: if_splits)
  have "?n < int (unat mx)" using lt by (rule sint_less_imp_unat_less)
  then have room: "count_list gs (Active p) < unat mx" using cnt[of p] by linarith
  have q: "hwf (rq_in_flight ?q)" using wf by simp
  have nn: "counter_of (rq_in_flight ?q) x \<ge> 0" for x using cnt by simp
  show ?thesis
    using maybe_gc_counter[OF q nn] wf cnt le room by (auto simp: inflight_inv_def s' g Suc_le_eq)
qed

lemma begin_refused_inv:
  assumes inv: "inflight_inv mx (s, gs)" and run: "try_begin_principal_op l now p s = (None, s')"
  shows "inflight_inv mx (s', gs)"
  using assms by (auto simp: inflight_inv_def try_begin_principal_op_def begin_op_on_counter
      split: option.splits if_splits)

lemma guard_dropped_inv:
  assumes inv: "inflight_inv mx (Some s, gs)" and g: "g \<in> set gs"
  shows "inflight_inv mx (Some (s\<lparr>rq_in_flight := principal_op_guard_drop g (rq_in_flight s)\<rparr>), remove1 g gs)"
proof (cases g)
  case NoOp
  then show ?thesis using inv by (auto simp: inflight_inv_def principal_op_guard_drop_def count_list_remove1)
next
  case (Active k)
  then have pos: "0 < count_list gs (Active k)" using g by (simp add: count_list_0_iff neq0_conv[symmetric])
  have "counter_of (rq_in_flight s) k = int (count_list gs (Active k))" using inv by (simp add: inflight_inv_def)
  then have "hget (rq_in_flight s) k = Some (int (count_list gs (Active k)))"
    using pos by (auto simp: counter_of_def split: option.splits)
  then show ?thesis
    using inv pos Active by (auto simp: inflight_inv_def principal_op_guard_drop_def count_list_remove1
        of_nat_diff intro: le_trans diff_le_self)
qed

lemma inflight_reachable_inv:
  assumes "inflight_reachable s0 w" "s0 = Some q" "rq_in_flight q = []" "rq_max_in_flight q = Some mx"
  shows "inflight_inv mx w"
  using assms
proof (induction rule: inflight_reachable.induct)
  case start
  then show ?case by (simp add: inflight_inv_def counter_of_def)
next
  case (step w w')
  from step.hyps(2) step.IH[OF step.prems] show ?case
    by cases (auto intro: begin_admitted_inv begin_refused_inv guard_dropped_inv)
qed


section \<open>The guessing rate\<close>

text \<open>
  Login attempts that all fail, one after the other on any slots: an attempt is forwarded unless its
  slot is in its cooldown.  The run collects the forwarded attempts.
\<close>

fun failing_logins :: "(BackendSlotId \<times> instant) list \<Rightarrow> RateQuota option \<Rightarrow> (BackendSlotId \<times> instant) list" where
  "failing_logins [] s = []"
| "failing_logins ((slot, now) # attempts) s =
     (if login_slot_in_cooldown now slot s then failing_logins attempts s
      else (slot, now) # failing_logins attempts (snd (record_login_failure now slot s)))"

definition login_entry :: "RateQuota \<Rightarrow> BackendSlotId \<Rightarrow> FailedLoginState" where
  "login_entry s slot =
     (case hget (rq_login_state s) slot of None \<Rightarrow> \<lparr>fl_count = 0, fl_cooldown_until = None\<rparr> | Some e \<Rightarrow> e)"

text \<open>\<open>n\<close> attempts on the slot were forwarded before \<open>now\<close>.\<close>

definition guess_inv :: "nat \<Rightarrow> duration \<Rightarrow> nat \<Rightarrow> FailedLoginState \<Rightarrow> bool" where
  "guess_inv budget cooldown n e =
     (case fl_cooldown_until e of
        None \<Rightarrow> fl_count e = n \<and> (n < budget \<or> n = 0)
      | Some u \<Rightarrow> fl_count e \<ge> budget \<and> cooldown \<le> u
          \<and> n \<le> max 1 budget + (u - cooldown) div cooldown)"

definition failed_login :: "nat \<Rightarrow> duration \<Rightarrow> instant \<Rightarrow> FailedLoginState \<Rightarrow> FailedLoginState" where
  "failed_login budget cooldown now e =
     (let e' = (if fl_count e < budget then e\<lparr>fl_count := fl_count e + 1\<rparr> else e)
      in if fl_count e' \<ge> budget
            \<and> \<not> (case fl_cooldown_until e' of None \<Rightarrow> False | Some t \<Rightarrow> t > now)
         then e'\<lparr>fl_cooldown_until := Some (now + cooldown)\<rparr> else e')"

lemma record_login_failure_entry:
  assumes "rq_login_budget s = Some b"
  obtains s' where "snd (record_login_failure now slot (Some s)) = Some s'"
    "rq_login_budget s' = Some b" "rq_login_cooldown s' = rq_login_cooldown s"
    "\<And>x. login_entry s' x =
       (if x = slot then failed_login b (rq_login_cooldown s) now (login_entry s x) else login_entry s x)"
proof -
  define m where "m = snd (record_failure_on (rq_login_budget s) (rq_login_cooldown s) now (rq_login_state s) slot)"
  have "hget m x = (if x = slot then Some (failed_login b (rq_login_cooldown s) now (login_entry s x))
                    else hget (rq_login_state s) x)" for x
    using assms by (simp add: m_def record_failure_on_def failed_login_def login_entry_def Let_def)
  then show thesis
    using assms by (intro that[of "s\<lparr>rq_login_state := m\<rparr>"])
      (simp_all add: record_login_failure_def m_def case_prod_beta login_entry_def)
qed

lemma guess_inv_failed:
  assumes inv: "guess_inv b cd n e" and cd: "0 < cd"
    and open': "case fl_cooldown_until e of None \<Rightarrow> True | Some u \<Rightarrow> u \<le> now"
  shows "guess_inv b cd (Suc n) (failed_login b cd now e)"
proof (cases "fl_cooldown_until e")
  case None
  then show ?thesis using inv cd by (auto simp: guess_inv_def failed_login_def Let_def)
next
  case (Some u)
  then have u: "cd \<le> u" "u \<le> now" "n \<le> max 1 b + (u - cd) div cd" "fl_count e \<ge> b"
    using inv open' by (simp_all add: guess_inv_def)
  have "Suc ((u - cd) div cd) = u div cd" using u(1) cd by (simp add: le_div_geq)
  also have "\<dots> \<le> now div cd" using u(2) by (rule div_le_mono)
  finally show ?thesis using u Some by (simp add: guess_inv_def failed_login_def Let_def)
qed

lemma guess_inv_bound:
  "guess_inv b cd n e \<Longrightarrow> (case fl_cooldown_until e of None \<Rightarrow> True | Some u \<Rightarrow> u - cd \<le> T)
   \<Longrightarrow> n \<le> max 1 b + T div cd"
  by (fastforce simp: guess_inv_def split: option.splits intro: order_trans add_left_mono div_le_mono)

lemma failed_login_until:
  "(case fl_cooldown_until e of None \<Rightarrow> True | Some u \<Rightarrow> u - cd \<le> T) \<Longrightarrow> now \<le> T
   \<Longrightarrow> (case fl_cooldown_until (failed_login b cd now e) of None \<Rightarrow> True | Some u \<Rightarrow> u - cd \<le> T)"
  by (auto simp: failed_login_def Let_def split: option.splits)

lemma in_cooldown_entry:
  "rq_login_budget s = Some b \<Longrightarrow>
   login_slot_in_cooldown now slot (Some s) =
     (case fl_cooldown_until (login_entry s slot) of None \<Rightarrow> False | Some t \<Rightarrow> t > now)"
  by (simp add: login_slot_in_cooldown_def in_cooldown_on_def login_entry_def split: option.split)

lemma failing_logins_bound:
  assumes "rq_login_budget s = Some b" "rq_login_cooldown s = cd" "0 < cd"
    "guess_inv b cd n (login_entry s slot)"
    "case fl_cooldown_until (login_entry s slot) of None \<Rightarrow> True | Some u \<Rightarrow> u - cd \<le> T"
    "\<forall>(x, now)\<in>set attempts. now \<le> T"
  shows "n + length (filter (\<lambda>(x, _). x = slot) (failing_logins attempts (Some s))) \<le> max 1 b + T div cd"
  using assms
proof (induction attempts arbitrary: s n)
  case Nil
  then show ?case using guess_inv_bound by simp
next
  case (Cons a attempts)
  obtain x now where a: "a = (x, now)" by (cases a)
  show ?case
  proof (cases "login_slot_in_cooldown now x (Some s)")
    case True
    then show ?thesis using Cons a by simp
  next
    case False
    obtain s' where s': "snd (record_login_failure now x (Some s)) = Some s'"
      "rq_login_budget s' = Some b" "rq_login_cooldown s' = cd"
      "\<And>y. login_entry s' y = (if y = x then failed_login b cd now (login_entry s y) else login_entry s y)"
      using record_login_failure_entry[OF Cons.prems(1), of now x] Cons.prems(2) by metis
    have op: "case fl_cooldown_until (login_entry s x) of None \<Rightarrow> True | Some u \<Rightarrow> u \<le> now"
      using False Cons.prems(1) by (auto simp: in_cooldown_entry split: option.splits)
    show ?thesis
    proof (cases "x = slot")
      case True
      have g: "guess_inv b cd (Suc n) (login_entry s' slot)"
        using guess_inv_failed[OF Cons.prems(4,3)] op True s'(4) by simp
      have u: "case fl_cooldown_until (login_entry s' slot) of None \<Rightarrow> True | Some u \<Rightarrow> u - cd \<le> T"
        using failed_login_until[OF Cons.prems(5)] Cons.prems(6) a True s'(4) by simp
      from Cons.IH[OF s'(2,3) Cons.prems(3) g u] Cons.prems(6) a True False s'(1) show ?thesis by simp
    next
      case other: False
      have g: "guess_inv b cd n (login_entry s' slot)" using Cons.prems(4) other s'(4) by simp
      have u: "case fl_cooldown_until (login_entry s' slot) of None \<Rightarrow> True | Some u \<Rightarrow> u - cd \<le> T"
        using Cons.prems(5) other s'(4) by simp
      from Cons.IH[OF s'(2,3) Cons.prems(3) g u] Cons.prems(6) a other False s'(1) show ?thesis by simp
    qed
  qed
qed

section \<open>Claims\<close>

text \<open>
  C10. The in-flight cap is exact: in every state a configured daemon reaches by beginning
  operations and dropping guards in any order, with the collection running at any time, the counter
  of a principal is the number of guards held for it, and that number is never over the limit.
\<close>

theorem principal_in_flight_exact:
  assumes "inflight_reachable (quota_configure (Some mx) ms b cd now None) (Some s, gs)"
  shows "counter_of (rq_in_flight s) p = int (count_list gs (Active p))
         \<and> count_list gs (Active p) \<le> unat mx"
proof -
  have "inflight_inv mx (Some s, gs)"
    by (rule inflight_reachable_inv[OF assms]) (simp add: quota_configure_def, simp_all)
  then show ?thesis by (simp add: inflight_inv_def)
qed

theorem principal_in_flight_exact_witness:
  "\<exists>s. inflight_reachable (quota_configure (Some 1) None None None 0 None) (Some s, [Active ''p''])
      \<and> counter_of (rq_in_flight s) ''p'' = 1"
proof -
  obtain s where r: "inflight_reachable (quota_configure (Some 1) None None None 0 None) (Some s, [Active ''p''])"
    using inflight_step.begin_admitted[of False 0 "''p''" "quota_configure (Some 1) None None None 0 None"]
    by (auto intro!: that inflight_reachable.step[OF inflight_reachable.start] inflight_step.begin_admitted
        simp: quota_configure_def try_begin_principal_op_def begin_op_on_def maybe_gc_inflight_def)
  from principal_in_flight_exact[OF r, of "''p''"] r show ?thesis by auto
qed



end
