(* ===== verification/Backend_Calls.thy ===== *)
theory Backend_Calls
  imports Ck_Types
begin

text \<open>
  \<^verbatim>\<open>crates/server/src/server/grpc_service/service_utils.rs\<close>: how a handler calls the PKCS\#11
  library.  A call takes a slot of the global breaker, runs on a blocking thread and is awaited for
  at most a timeout; the thread keeps its breaker slot until the library returns.

  The theory has two views.  For the handlers, \<open>spawn_backend\<close> says what a call returns and what it
  does to the library, given the fate of the call.  For the accounting, a step relation runs any
  number of calls with their timeouts and completions interleaved; it shows that the breaker counts
  exactly the threads inside the library and the stuck gauge exactly those past their timeout.

  The library is not under the sources: it is the parameter \<open>Pkcs11Backend\<close>, a record of functions
  on an abstract library state.
\<close>

section \<open>The library and a call to it\<close>

record 'b Pkcs11Backend =
  be_open_session :: "u64 \<Rightarrow> CkSessionFlags \<Rightarrow> 'b \<Rightarrow> u64 CkResult \<times> 'b"
  be_close_session :: "u64 \<Rightarrow> 'b \<Rightarrow> unit CkResult \<times> 'b"
  be_login :: "u64 \<Rightarrow> CkUserType \<Rightarrow> u8 list option \<Rightarrow> 'b \<Rightarrow> unit CkResult \<times> 'b"
  be_logout :: "u64 \<Rightarrow> 'b \<Rightarrow> unit CkResult \<times> 'b"
  be_get_slot_list :: "bool \<Rightarrow> 'b \<Rightarrow> u64 list CkResult \<times> 'b"
  be_get_token_info :: "u64 \<Rightarrow> 'b \<Rightarrow> CkTokenInfo CkResult \<times> 'b"
  be_get_attribute_value ::
    "u64 \<Rightarrow> u64 \<Rightarrow> CkAttribute list \<Rightarrow> 'b \<Rightarrow> (unit CkResult \<times> CkAttribute list) \<times> 'b"
  be_destroy_object :: "u64 \<Rightarrow> u64 \<Rightarrow> 'b \<Rightarrow> unit CkResult \<times> 'b"

text \<open>
  What becomes of a call: the library returns in time, the timeout fires first (the library may do
  anything meanwhile, so the state it is left in is arbitrary), the global breaker or the
  per-connection cap refuses it before the library is touched, or the worker panics.
\<close>

datatype 'b fate = Completes | TimesOut 'b | BreakerRefuses | PeerRefuses | Panics 'b

definition spawn_backend_core ::
  "'b fate \<Rightarrow> ('b \<Rightarrow> 'r CkResult \<times> 'b) \<Rightarrow> 'b \<Rightarrow> (Status + 'r CkResult) \<times> 'b" where
  "spawn_backend_core fate operation b =
     (case fate of
        BreakerRefuses \<Rightarrow> (Inr (Inl CKR_HOST_MEMORY), b)
      | PeerRefuses \<Rightarrow> (Inr (Inl CKR_HOST_MEMORY), b)
      | TimesOut b' \<Rightarrow> (Inr (Inl CKR_FUNCTION_FAILED), b')
      | Panics b' \<Rightarrow> (Inl Internal, b')
      | Completes \<Rightarrow> let (r, b') = operation b in (Inr r, b'))"

text \<open>
  \<^verbatim>\<open>spawn_backend\<close> and \<^verbatim>\<open>spawn_backend_with_timeout\<close> differ in the length of the timeout only.
\<close>

definition spawn_backend ::
  "'b fate \<Rightarrow> ('b \<Rightarrow> 'r CkResult \<times> 'b) \<Rightarrow> 'b \<Rightarrow> (Status + 'r CkResult) \<times> 'b" where
  "spawn_backend = spawn_backend_core"

definition ck_rv_only :: "unit CkResult \<Rightarrow> u64" where
  "ck_rv_only r = (case r of Inr _ \<Rightarrow> rv_raw CKR_OK | Inl error \<Rightarrow> rv_raw error)"

definition provider_rv_is_healthy :: "CkRv \<Rightarrow> bool" where
  "provider_rv_is_healthy rv \<longleftrightarrow> rv \<noteq> CKR_DEVICE_REMOVED \<and> rv \<noteq> CKR_HOST_MEMORY"

definition classify_backend_outcome :: "Status + 'r CkResult \<Rightarrow> bool" where
  "classify_backend_outcome result =
     (case result of
        Inr (Inr _) \<Rightarrow> True
      | Inr (Inl rv) \<Rightarrow> if \<not> provider_rv_is_healthy rv then False else True
      | Inl _ \<Rightarrow> False)"

text \<open>The health report of a call, if any: a refusal by the per-connection cap reports nothing.\<close>

definition reported_outcome :: "'b fate \<Rightarrow> Status + 'r CkResult \<Rightarrow> bool option" where
  "reported_outcome fate result =
     (case fate of
        BreakerRefuses \<Rightarrow> Some False
      | PeerRefuses \<Rightarrow> None
      | TimesOut _ \<Rightarrow> Some False
      | _ \<Rightarrow> Some (classify_backend_outcome result))"

definition per_context_max_in_flight :: "nat \<Rightarrow> nat" where
  "per_context_max_in_flight max_concurrent_backend_calls = max (max_concurrent_backend_calls div 4) 1"

definition per_connection_max_in_flight :: "nat \<Rightarrow> nat" where
  "per_connection_max_in_flight max_concurrent_backend_calls = max (max_concurrent_backend_calls div 4) 1"

lemma spawn_backend_simps [simp]:
  "spawn_backend Completes operation b = (Inr (fst (operation b)), snd (operation b))"
  "spawn_backend (TimesOut b') operation b = (Inr (Inl CKR_FUNCTION_FAILED), b')"
  "spawn_backend BreakerRefuses operation b = (Inr (Inl CKR_HOST_MEMORY), b)"
  "spawn_backend PeerRefuses operation b = (Inr (Inl CKR_HOST_MEMORY), b)"
  "spawn_backend (Panics b') operation b = (Inl Internal, b')"
  by (simp_all add: spawn_backend_def spawn_backend_core_def case_prod_beta)

text \<open>Success is only ever reported of a call the library completed.\<close>

lemma spawn_backend_OkD:
  "spawn_backend fate operation b = (Inr (Inr x), b') \<Longrightarrow> fate = Completes \<and> operation b = (Inr x, b')"
  by (cases fate) (auto simp: prod_eq_iff)

section \<open>Breaker and stuck calls\<close>

datatype StuckCallState = Running | TimedOut | Completed

definition stuck_timeout :: "StuckCallState \<times> nat \<Rightarrow> nat \<times> (StuckCallState \<times> nat)" where
  "stuck_timeout a =
     (case a of (state, gauge) \<Rightarrow>
        if state = Running then (gauge + 1, (TimedOut, gauge + 1)) else (gauge, (state, gauge)))"

definition stuck_complete :: "StuckCallState \<times> nat \<Rightarrow> nat option \<times> (StuckCallState \<times> nat)" where
  "stuck_complete a =
     (case a of (state, gauge) \<Rightarrow>
        (case state of
           TimedOut \<Rightarrow> (Some (gauge - 1), (Completed, gauge - 1))
         | Running \<Rightarrow> (None, (Completed, gauge))
         | Completed \<Rightarrow> (None, (Completed, gauge))))"

text \<open>The compare-and-swap loop, as the atomic step its success is.\<close>

definition try_acquire_backend_call :: "nat \<Rightarrow> nat \<Rightarrow> bool \<times> nat" where
  "try_acquire_backend_call max_calls counter =
     (if counter \<ge> max_calls then (False, counter) else (True, counter + 1))"

definition in_flight_guard_drop :: "nat \<Rightarrow> nat" where
  "in_flight_guard_drop counter = counter - 1"

text \<open>A call in progress: its accounting state, and whether its breaker slot is still held.\<close>

record backend_call =
  bc_state :: StuckCallState
  bc_slot :: bool

record call_sys =
  sys_in_flight :: nat
  sys_stuck :: nat
  sys_calls :: "backend_call list"

definition call_sys_init :: call_sys where
  "call_sys_init = \<lparr>sys_in_flight = 0, sys_stuck = 0, sys_calls = []\<rparr>"

text \<open>
  The steps of \<^verbatim>\<open>spawn_backend_core_classified\<close>: admission, the timeout branch, and the two guards
  the worker drops when the library returns or panics, the completion guard first.  The timeout and
  the completion of one call may come in either order.
\<close>

inductive call_step :: "nat \<Rightarrow> call_sys \<Rightarrow> call_sys \<Rightarrow> bool" for max_calls :: nat where
  admit:
    "try_acquire_backend_call max_calls (sys_in_flight y) = (True, n) \<Longrightarrow>
     call_step max_calls y
       (y\<lparr>sys_in_flight := n, sys_calls := sys_calls y @ [\<lparr>bc_state = Running, bc_slot = True\<rparr>]\<rparr>)"
| refuse:
    "try_acquire_backend_call max_calls (sys_in_flight y) = (False, n) \<Longrightarrow>
     call_step max_calls y (y\<lparr>sys_in_flight := n\<rparr>)"
| time_out:
    "i < length (sys_calls y) \<Longrightarrow>
     stuck_timeout (bc_state (sys_calls y ! i), sys_stuck y) = (r, (st, g)) \<Longrightarrow>
     call_step max_calls y
       (y\<lparr>sys_stuck := g, sys_calls := (sys_calls y)[i := (sys_calls y ! i)\<lparr>bc_state := st\<rparr>]\<rparr>)"
| complete:
    "i < length (sys_calls y) \<Longrightarrow>
     stuck_complete (bc_state (sys_calls y ! i), sys_stuck y) = (r', (st, g)) \<Longrightarrow>
     call_step max_calls y
       (y\<lparr>sys_stuck := g, sys_calls := (sys_calls y)[i := (sys_calls y ! i)\<lparr>bc_state := st\<rparr>]\<rparr>)"
| release:
    "i < length (sys_calls y) \<Longrightarrow> bc_state (sys_calls y ! i) = Completed \<Longrightarrow> bc_slot (sys_calls y ! i) \<Longrightarrow>
     call_step max_calls y
       (y\<lparr>sys_in_flight := in_flight_guard_drop (sys_in_flight y),
          sys_calls := (sys_calls y)[i := (sys_calls y ! i)\<lparr>bc_slot := False\<rparr>]\<rparr>)"

inductive call_reachable :: "nat \<Rightarrow> call_sys \<Rightarrow> bool" for max_calls :: nat where
  start: "call_reachable max_calls call_sys_init"
| step: "call_reachable max_calls y \<Longrightarrow> call_step max_calls y y' \<Longrightarrow> call_reachable max_calls y'"

definition calls_where :: "(backend_call \<Rightarrow> bool) \<Rightarrow> call_sys \<Rightarrow> nat" where
  "calls_where P y = length (filter P (sys_calls y))"

lemma length_filter_update:
  assumes "i < length xs"
  shows "length (filter P (xs[i := x])) + (if P (xs ! i) then 1 else 0)
         = length (filter P xs) + (if P x then 1 else 0)"
  using assms
proof (induction xs arbitrary: i)
  case (Cons a xs)
  then show ?case by (cases i) auto
qed simp

definition calls_inv :: "nat \<Rightarrow> call_sys \<Rightarrow> bool" where
  "calls_inv max_calls y =
     (sys_in_flight y = calls_where bc_slot y \<and> sys_in_flight y \<le> max_calls
      \<and> sys_stuck y = calls_where (\<lambda>c. bc_state c = TimedOut) y
      \<and> (\<forall>c\<in>set (sys_calls y). bc_state c \<noteq> Completed \<longrightarrow> bc_slot c))"

lemma calls_inv_restate:
  assumes inv: "calls_inv m y" and i: "i < length (sys_calls y)"
    and g: "g + (if bc_state (sys_calls y ! i) = TimedOut then 1 else 0)
            = sys_stuck y + (if st = TimedOut then 1 else 0)"
    and st: "bc_state (sys_calls y ! i) = Completed \<Longrightarrow> st = Completed"
  shows "calls_inv m (y\<lparr>sys_stuck := g, sys_calls := (sys_calls y)[i := (sys_calls y ! i)\<lparr>bc_state := st\<rparr>]\<rparr>)"
proof -
  let ?c = "(sys_calls y ! i)\<lparr>bc_state := st\<rparr>"
  have "length (filter bc_slot ((sys_calls y)[i := ?c])) = length (filter bc_slot (sys_calls y))"
    using length_filter_update[OF i, of bc_slot ?c] by simp
  moreover have "g = length (filter (\<lambda>c. bc_state c = TimedOut) ((sys_calls y)[i := ?c]))"
    using length_filter_update[OF i, of "\<lambda>c. bc_state c = TimedOut" ?c] g inv
    by (simp add: calls_inv_def calls_where_def split: if_splits)
  moreover have "bc_state c \<noteq> Completed \<longrightarrow> bc_slot c" if "c \<in> set ((sys_calls y)[i := ?c])" for c
  proof -
    note c = that
    have all: "\<forall>d\<in>set (sys_calls y). bc_state d \<noteq> Completed \<longrightarrow> bc_slot d"
      using inv by (simp add: calls_inv_def)
    consider "c = ?c" | "c \<in> set (sys_calls y)"
      using set_update_subset_insert[of "sys_calls y" i ?c] c by blast
    then show ?thesis using all st nth_mem[OF i] by cases auto
  qed
  ultimately show ?thesis using inv by (simp add: calls_inv_def calls_where_def)
qed

lemma calls_inv_release:
  assumes inv: "calls_inv m y" and i: "i < length (sys_calls y)"
    and c: "bc_state (sys_calls y ! i) = Completed" "bc_slot (sys_calls y ! i)"
  shows "calls_inv m (y\<lparr>sys_in_flight := in_flight_guard_drop (sys_in_flight y),
          sys_calls := (sys_calls y)[i := (sys_calls y ! i)\<lparr>bc_slot := False\<rparr>]\<rparr>)"
proof -
  let ?c = "(sys_calls y ! i)\<lparr>bc_slot := False\<rparr>"
  have "length (filter bc_slot ((sys_calls y)[i := ?c])) + 1 = length (filter bc_slot (sys_calls y))"
    using length_filter_update[OF i, of bc_slot ?c] c by simp
  moreover have "length (filter (\<lambda>c. bc_state c = TimedOut) ((sys_calls y)[i := ?c]))
      = length (filter (\<lambda>c. bc_state c = TimedOut) (sys_calls y))"
    using length_filter_update[OF i, of "\<lambda>c. bc_state c = TimedOut" ?c] by simp
  moreover have "bc_state d \<noteq> Completed \<longrightarrow> bc_slot d" if "d \<in> set ((sys_calls y)[i := ?c])" for d
    using set_update_subset_insert[of "sys_calls y" i ?c] that inv c by (auto simp: calls_inv_def)
  ultimately show ?thesis using inv by (auto simp: calls_inv_def calls_where_def in_flight_guard_drop_def)
qed

lemma calls_inv_step: "call_step m y y' \<Longrightarrow> calls_inv m y \<Longrightarrow> calls_inv m y'"
proof (induction rule: call_step.induct)
  case (admit y n)
  then show ?case by (auto simp: calls_inv_def calls_where_def try_acquire_backend_call_def split: if_splits)
next
  case (refuse y n)
  then show ?case by (auto simp: calls_inv_def calls_where_def try_acquire_backend_call_def split: if_splits)
next
  case (time_out i y r st g)
  from time_out.hyps(2) show ?case
    by (intro calls_inv_restate[OF time_out.prems time_out.hyps(1)])
      (auto simp: stuck_timeout_def split: if_splits)
next
  case (complete i y r' st g)
  let ?c = "sys_calls y ! i"
  have pos: "0 < sys_stuck y" if "bc_state ?c = TimedOut"
    using that complete.prems nth_mem[OF complete.hyps(1)]
    by (auto simp: calls_inv_def calls_where_def filter_empty_conv)
  from complete.hyps(2) pos show ?case
    by (intro calls_inv_restate[OF complete.prems complete.hyps(1)])
      (auto simp: stuck_complete_def split: StuckCallState.splits)
next
  case (release i y)
  then show ?case by (blast intro: calls_inv_release)
qed

lemma call_reachable_inv: "call_reachable m y \<Longrightarrow> calls_inv m y"
  by (induction rule: call_reachable.induct)
    (simp add: calls_inv_def calls_where_def call_sys_init_def, blast intro: calls_inv_step)

section \<open>Claims\<close>

text \<open>
  C12. The breaker and the stuck gauge are exact under every interleaving of admissions, timeouts
  and completions: the breaker counts the calls that still hold a slot, every call the library has
  not completed holds one, the gauge counts the calls past their timeout and not completed, and at
  most \<open>max_calls\<close> threads are ever inside the library, the stuck ones included.
\<close>

theorem breaker_counts_true_lifetimes:
  assumes "call_reachable max_calls y"
  shows "sys_in_flight y = calls_where bc_slot y
       \<and> sys_stuck y = calls_where (\<lambda>c. bc_state c = TimedOut) y
       \<and> sys_stuck y \<le> calls_where (\<lambda>c. bc_state c \<noteq> Completed) y
       \<and> calls_where (\<lambda>c. bc_state c \<noteq> Completed) y \<le> sys_in_flight y
       \<and> sys_in_flight y \<le> max_calls"
proof -
  have mono: "length (filter P xs) \<le> length (filter Q xs)" if "\<And>x. x \<in> set xs \<Longrightarrow> P x \<Longrightarrow> Q x"
    for P Q :: "backend_call \<Rightarrow> bool" and xs
    using that by (induction xs) auto
  have inv: "calls_inv max_calls y" using assms by (rule call_reachable_inv)
  have "calls_where (\<lambda>c. bc_state c = TimedOut) y \<le> calls_where (\<lambda>c. bc_state c \<noteq> Completed) y"
    unfolding calls_where_def by (rule mono) simp
  moreover have "calls_where (\<lambda>c. bc_state c \<noteq> Completed) y \<le> calls_where bc_slot y"
    unfolding calls_where_def using inv by (intro mono) (simp add: calls_inv_def)
  ultimately show ?thesis using inv by (simp add: calls_inv_def)
qed

text \<open>One call that timed out while the library still works on it: it holds the only slot.\<close>

definition wedged_sys :: call_sys where
  "wedged_sys = \<lparr>sys_in_flight = 1, sys_stuck = 1, sys_calls = [\<lparr>bc_state = TimedOut, bc_slot = True\<rparr>]\<rparr>"

lemma wedged_reachable: "call_reachable 1 wedged_sys"
proof -
  let ?y = "\<lparr>sys_in_flight = 1, sys_stuck = 0, sys_calls = [\<lparr>bc_state = Running, bc_slot = True\<rparr>]\<rparr>"
  have "call_step 1 call_sys_init ?y"
    using call_step.admit[of 1 call_sys_init 1] by (simp add: call_sys_init_def try_acquire_backend_call_def)
  then have "call_reachable 1 ?y" by (rule call_reachable.step[OF call_reachable.start])
  moreover have "call_step 1 ?y wedged_sys"
    using call_step.time_out[of 0 ?y 1 TimedOut 1 1] by (simp add: stuck_timeout_def wedged_sys_def)
  ultimately show ?thesis by (rule call_reachable.step)
qed

theorem breaker_counts_true_lifetimes_witness:
  "call_reachable 1 wedged_sys \<and> sys_in_flight wedged_sys \<le> 1 \<and> sys_stuck wedged_sys = 1
   \<and> try_acquire_backend_call 1 (sys_in_flight wedged_sys) = (False, 1)"
  using breaker_counts_true_lifetimes[OF wedged_reachable] wedged_reachable
  by (simp add: wedged_sys_def try_acquire_backend_call_def)

end
