(* ===== verification/Health_Gate.thy ===== *)
theory Health_Gate
  imports Backend_Calls
begin

text \<open>
  The readiness gate: \<^verbatim>\<open>report_backend_outcome\<close> of
  \<^verbatim>\<open>crates/server/src/server/grpc_service/service_utils.rs\<close>, which sends the outcomes of backend
  calls through a bounded channel and suppresses repeated successes, and
  \<^verbatim>\<open>spawn_backend_health_gate\<close> of \<^verbatim>\<open>crates/server/src/main.rs\<close>, which counts consecutive failures
  and flips the serving status.  The theory shows that suppressing successes does not change what
  the gate decides as long as no event is dropped, and what happens when one is.
\<close>

datatype BackendHealthEvent = HealthSuccess | HealthFailure

definition HEALTH_CHANNEL_CAPACITY :: nat where
  "HEALTH_CHANNEL_CAPACITY = 256"

record health_reporter =
  hr_last_sent_healthy :: bool
  hr_queue :: "BackendHealthEvent list"

definition health_reporter_new :: health_reporter where
  "health_reporter_new = \<lparr>hr_last_sent_healthy = True, hr_queue = []\<rparr>"

definition health_try_send :: "BackendHealthEvent \<Rightarrow> health_reporter \<Rightarrow> health_reporter" where
  "health_try_send e r =
     (if length (hr_queue r) < HEALTH_CHANNEL_CAPACITY then r\<lparr>hr_queue := hr_queue r @ [e]\<rparr> else r)"

definition report_backend_outcome :: "bool \<Rightarrow> health_reporter \<Rightarrow> health_reporter" where
  "report_backend_outcome success r =
     (if success
      then let r' = r\<lparr>hr_last_sent_healthy := True\<rparr>
           in if \<not> hr_last_sent_healthy r then health_try_send HealthSuccess r' else r'
      else health_try_send HealthFailure (r\<lparr>hr_last_sent_healthy := False\<rparr>))"

record health_gate =
  hg_consecutive_failures :: nat
  hg_currently_serving :: bool

definition health_gate_new :: health_gate where
  "health_gate_new = \<lparr>hg_consecutive_failures = 0, hg_currently_serving = True\<rparr>"

definition saturating_inc_u32 :: "nat \<Rightarrow> nat" where
  "saturating_inc_u32 n = min (n + 1) (2 ^ 32 - 1)"

definition health_gate_event :: "nat \<Rightarrow> BackendHealthEvent \<Rightarrow> health_gate \<Rightarrow> health_gate" where
  "health_gate_event threshold e g =
     (case e of
        HealthSuccess \<Rightarrow> \<lparr>hg_consecutive_failures = 0, hg_currently_serving = True\<rparr>
      | HealthFailure \<Rightarrow>
          let n = saturating_inc_u32 (hg_consecutive_failures g)
          in \<lparr>hg_consecutive_failures = n,
              hg_currently_serving = (if hg_currently_serving g \<and> n \<ge> threshold then False
                                      else hg_currently_serving g)\<rparr>)"

section \<open>The two ends of the channel\<close>

datatype health_op = Report bool | Receive

fun health_step :: "nat \<Rightarrow> health_op \<Rightarrow> health_reporter \<times> health_gate \<Rightarrow> health_reporter \<times> health_gate" where
  "health_step threshold (Report ok) (r, g) = (report_backend_outcome ok r, g)"
| "health_step threshold Receive (r, g) =
     (case hr_queue r of
        [] \<Rightarrow> (r, g)
      | e # q \<Rightarrow> (r\<lparr>hr_queue := q\<rparr>, health_gate_event threshold e g))"

definition health_run :: "nat \<Rightarrow> health_op list \<Rightarrow> health_reporter \<times> health_gate \<Rightarrow> health_reporter \<times> health_gate" where
  "health_run threshold ops s = fold (health_step threshold) ops s"

text \<open>The gate that sees every outcome.\<close>

definition outcome_event :: "bool \<Rightarrow> BackendHealthEvent" where
  "outcome_event ok = (if ok then HealthSuccess else HealthFailure)"

fun outcomes :: "health_op list \<Rightarrow> bool list" where
  "outcomes [] = []"
| "outcomes (Report ok # ops) = ok # outcomes ops"
| "outcomes (Receive # ops) = outcomes ops"

definition reference_gate :: "nat \<Rightarrow> bool list \<Rightarrow> health_gate \<Rightarrow> health_gate" where
  "reference_gate threshold oks g = fold (\<lambda>ok. health_gate_event threshold (outcome_event ok)) oks g"

text \<open>No report of the run finds the channel full.\<close>

fun never_full :: "nat \<Rightarrow> health_op list \<Rightarrow> health_reporter \<times> health_gate \<Rightarrow> bool" where
  "never_full threshold [] s \<longleftrightarrow> True"
| "never_full threshold (p # ops) s \<longleftrightarrow>
     length (hr_queue (fst s)) < HEALTH_CHANNEL_CAPACITY \<and> never_full threshold ops (health_step threshold p s)"

definition drained :: "nat \<Rightarrow> health_reporter \<times> health_gate \<Rightarrow> health_gate" where
  "drained threshold s = fold (health_gate_event threshold) (hr_queue (fst s)) (snd s)"

definition gate_synced :: "nat \<Rightarrow> health_reporter \<times> health_gate \<Rightarrow> bool" where
  "gate_synced threshold s \<longleftrightarrow> (hr_last_sent_healthy (fst s) \<longrightarrow> drained threshold s = health_gate_new)"

lemma drained_receive [simp]: "drained threshold (health_step threshold Receive s) = drained threshold s"
  by (cases s) (auto simp: drained_def split: list.split)

lemma synced_receive: "gate_synced threshold s \<Longrightarrow> gate_synced threshold (health_step threshold Receive s)"
  by (cases s) (auto simp: gate_synced_def drained_def split: list.splits)

lemma health_gate_event_success: "health_gate_event threshold HealthSuccess g = health_gate_new"
  by (simp add: health_gate_event_def health_gate_new_def)

lemma report_drained:
  assumes "gate_synced threshold s" "length (hr_queue (fst s)) < HEALTH_CHANNEL_CAPACITY"
  shows "drained threshold (health_step threshold (Report ok) s)
           = health_gate_event threshold (outcome_event ok) (drained threshold s)
         \<and> gate_synced threshold (health_step threshold (Report ok) s)"
  using assms by (cases s) (auto simp: gate_synced_def drained_def report_backend_outcome_def health_try_send_def
      outcome_event_def health_gate_event_success Let_def)

lemma health_run_drained:
  assumes "gate_synced threshold s" "never_full threshold ops s"
  shows "drained threshold (health_run threshold ops s)
         = reference_gate threshold (outcomes ops) (drained threshold s)"
  using assms
proof (induction ops arbitrary: s)
  case Nil
  then show ?case by (simp add: health_run_def reference_gate_def)
next
  case (Cons p ops)
  show ?case
  proof (cases p)
    case (Report ok)
    have "length (hr_queue (fst s)) < HEALTH_CHANNEL_CAPACITY" using Cons.prems by simp
    from report_drained[OF Cons.prems(1) this, of ok] Cons.IH[of "health_step threshold p s"] Cons.prems(2) Report
    show ?thesis by (simp add: health_run_def reference_gate_def)
  next
    case Receive
    with Cons.IH[of "health_step threshold p s"] synced_receive[OF Cons.prems(1)] Cons.prems(2)
    show ?thesis by (simp add: health_run_def)
  qed
qed

section \<open>A dropped recovery\<close>

text \<open>
  When the channel is full, \<^verbatim>\<open>report_backend_outcome\<close> marks the recovery as sent and drops it; later
  successes are then suppressed as repetitions, and the gate stays closed although every call
  succeeds, until some call fails and another succeeds.
\<close>

lemma report_failures:
  assumes "length q + n \<le> HEALTH_CHANNEL_CAPACITY"
  shows "health_run threshold (replicate n (Report False)) (\<lparr>hr_last_sent_healthy = l, hr_queue = q\<rparr>, g)
         = (\<lparr>hr_last_sent_healthy = (l \<and> n = 0), hr_queue = q @ replicate n HealthFailure\<rparr>, g)"
  using assms
proof (induction n arbitrary: q l)
  case 0
  then show ?case by (simp add: health_run_def)
next
  case (Suc n)
  then show ?case
    using Suc.IH[of "q @ [HealthFailure]" False]
    by (simp add: health_run_def report_backend_outcome_def health_try_send_def)
qed

lemma receive_all:
  "health_run threshold (replicate (length q) Receive) (\<lparr>hr_last_sent_healthy = l, hr_queue = q\<rparr>, g)
   = (\<lparr>hr_last_sent_healthy = l, hr_queue = []\<rparr>, fold (health_gate_event threshold) q g)"
  by (induction q arbitrary: g) (simp_all add: health_run_def)

lemma receive_none:
  "health_run threshold (replicate n Receive) (\<lparr>hr_last_sent_healthy = l, hr_queue = []\<rparr>, g)
   = (\<lparr>hr_last_sent_healthy = l, hr_queue = []\<rparr>, g)"
  by (induction n) (simp_all add: health_run_def)

lemma report_successes:
  "health_run threshold (replicate n (Report True)) (\<lparr>hr_last_sent_healthy = True, hr_queue = q\<rparr>, g)
   = (\<lparr>hr_last_sent_healthy = True, hr_queue = q\<rparr>, g)"
  by (induction n) (simp_all add: health_run_def report_backend_outcome_def)

lemma gate_after_failures:
  assumes "n < 2 ^ 32"
  shows "fold (health_gate_event threshold) (replicate n HealthFailure) health_gate_new
         = \<lparr>hg_consecutive_failures = n, hg_currently_serving = (n = 0 \<or> n < threshold)\<rparr>"
  using assms
proof (induction n)
  case 0
  then show ?case by (simp add: health_gate_new_def)
next
  case (Suc n)
  have "replicate (Suc n) HealthFailure = replicate n HealthFailure @ [HealthFailure]"
    by (simp add: replicate_append_same)
  with Suc show ?case by (auto simp: health_gate_event_def saturating_inc_u32_def Let_def)
qed

text \<open>
  C17. A recovery that finds the channel full is lost for good: after as many failures as the channel
  holds and one success, the readiness gate stays down however many further successes are reported
  and however many events it receives, as long as no failure is reported in between.
\<close>

theorem dropped_recovery_is_permanent:
  assumes "threshold \<le> HEALTH_CHANNEL_CAPACITY"
  shows "hg_currently_serving (snd (health_run threshold
           (replicate HEALTH_CHANNEL_CAPACITY (Report False) @ [Report True]
            @ replicate HEALTH_CHANNEL_CAPACITY Receive
            @ replicate n (Report True) @ replicate k Receive)
           (health_reporter_new, health_gate_new))) = False"
proof -
  let ?c = HEALTH_CHANNEL_CAPACITY
  let ?q = "replicate ?c HealthFailure"
  have pos: "0 < ?c" "?c < 2 ^ 32" by (simp_all add: HEALTH_CHANNEL_CAPACITY_def)
  have app: "health_run threshold (xs @ ys) s = health_run threshold ys (health_run threshold xs s)" for xs ys s
    by (simp add: health_run_def)
  have one: "health_run threshold [Report True] (\<lparr>hr_last_sent_healthy = False, hr_queue = ?q\<rparr>, health_gate_new)
      = (\<lparr>hr_last_sent_healthy = True, hr_queue = ?q\<rparr>, health_gate_new)"
    by (simp add: health_run_def report_backend_outcome_def health_try_send_def)
  have drain: "health_run threshold (replicate ?c Receive) (\<lparr>hr_last_sent_healthy = True, hr_queue = ?q\<rparr>, health_gate_new)
      = (\<lparr>hr_last_sent_healthy = True, hr_queue = []\<rparr>, fold (health_gate_event threshold) ?q health_gate_new)"
    using receive_all[of threshold ?q True health_gate_new] by simp
  have fail: "health_run threshold (replicate ?c (Report False)) (health_reporter_new, health_gate_new)
      = (\<lparr>hr_last_sent_healthy = False, hr_queue = ?q\<rparr>, health_gate_new)"
    using report_failures[of "[]" ?c threshold True health_gate_new] pos by (simp add: health_reporter_new_def)
  show ?thesis
    unfolding app fail one drain report_successes receive_none gate_after_failures[OF pos(2)]
    using assms pos by simp
qed

theorem dropped_recovery_is_permanent_witness:
  "(3::nat) \<le> HEALTH_CHANNEL_CAPACITY
   \<and> hg_currently_serving (snd (health_run 3
           (replicate HEALTH_CHANNEL_CAPACITY (Report False) @ [Report True]
            @ replicate HEALTH_CHANNEL_CAPACITY Receive
            @ replicate 5 (Report True) @ replicate 2 Receive)
           (health_reporter_new, health_gate_new))) = False"
proof -
  have "(3::nat) \<le> HEALTH_CHANNEL_CAPACITY" by (simp add: HEALTH_CHANNEL_CAPACITY_def)
  with dropped_recovery_is_permanent[OF this, of 5 2] show ?thesis by blast
qed

section \<open>Claims\<close>

text \<open>
  Suppressing repeated successes is invisible to the gate: as long as no event finds the channel
  full, the gate, once it has received what is queued, is in the state it would be in had it seen the
  outcome of every single call.
\<close>

theorem health_coalescing_exact:
  assumes "never_full threshold ops (health_reporter_new, health_gate_new)"
  shows "drained threshold (health_run threshold ops (health_reporter_new, health_gate_new))
         = reference_gate threshold (outcomes ops) health_gate_new"
  using health_run_drained[OF _ assms] by (simp add: gate_synced_def drained_def health_reporter_new_def)

theorem health_coalescing_exact_witness:
  "hg_currently_serving (drained 2 (health_run 2
     [Report True, Report False, Report False, Receive, Receive, Report True, Report True]
     (health_reporter_new, health_gate_new)))"
  by (subst health_coalescing_exact)
    (simp_all add: HEALTH_CHANNEL_CAPACITY_def health_reporter_new_def health_gate_new_def
      report_backend_outcome_def health_try_send_def reference_gate_def outcome_event_def
      health_gate_event_def saturating_inc_u32_def Let_def)

end
