(* ===== verification/Peer_Admission.thy ===== *)
theory Peer_Admission
  imports Backend_Calls
begin

text \<open>
  The per-connection admission of \<^verbatim>\<open>crates/server/src/server/grpc_service/service_utils.rs\<close>
  (\<^verbatim>\<open>try_admit_peer\<close> and the drop of \<^verbatim>\<open>PeerAdmissionGuard\<close>), with its atomic steps apart: a caller
  first fetches the shared counter of its peer, creating it if absent, and later increments it; a
  guard first decrements its counter and, when it was the last, later removes the table entry if it
  still names that counter and the counter is still zero.  A counter is an \<^verbatim>\<open>Arc\<close>, modelled as an
  address.

  The theory shows what holds under every interleaving, a cap per counter and a table that drains,
  and exhibits the interleaving in which a peer has more calls in flight than the cap.
\<close>

type_synonym SocketAddr = string
type_synonym counter_ref = nat

record peer_sys =
  ps_table :: "(SocketAddr, counter_ref) hashmap"
  ps_count :: "(counter_ref, nat) hashmap"
  ps_next :: counter_ref
  ps_fetched :: "(SocketAddr \<times> counter_ref) list"
  ps_guards :: "(SocketAddr \<times> counter_ref) list"
  ps_draining :: "(SocketAddr \<times> counter_ref) list"

definition peer_sys_init :: peer_sys where
  "peer_sys_init = \<lparr>ps_table = [], ps_count = [], ps_next = 0, ps_fetched = [], ps_guards = [], ps_draining = []\<rparr>"

definition peer_counter :: "peer_sys \<Rightarrow> counter_ref \<Rightarrow> nat" where
  "peer_counter y c = (case hget (ps_count y) c of None \<Rightarrow> 0 | Some n \<Rightarrow> n)"

text \<open>\<^verbatim>\<open>try_admit_peer\<close>: the lookup, and the compare-and-swap that succeeds or finds the cap reached.\<close>

definition admit_peer_fetch :: "SocketAddr \<Rightarrow> peer_sys \<Rightarrow> peer_sys" where
  "admit_peer_fetch peer y =
     (case hget (ps_table y) peer of
        Some c \<Rightarrow> y\<lparr>ps_fetched := (peer, c) # ps_fetched y\<rparr>
      | None \<Rightarrow> y\<lparr>ps_table := hput peer (ps_next y) (ps_table y),
                  ps_count := hput (ps_next y) 0 (ps_count y),
                  ps_fetched := (peer, ps_next y) # ps_fetched y,
                  ps_next := Suc (ps_next y)\<rparr>)"

definition admit_peer_cas :: "nat \<Rightarrow> SocketAddr \<times> counter_ref \<Rightarrow> peer_sys \<Rightarrow> peer_sys" where
  "admit_peer_cas max_in_flight g y =
     (if peer_counter y (snd g) \<ge> max_in_flight
      then y\<lparr>ps_fetched := remove1 g (ps_fetched y)\<rparr>
      else y\<lparr>ps_count := hput (snd g) (peer_counter y (snd g) + 1) (ps_count y),
             ps_fetched := remove1 g (ps_fetched y),
             ps_guards := g # ps_guards y\<rparr>)"

text \<open>The drop of a guard: the decrement, and the conditional removal.\<close>

definition peer_guard_sub :: "SocketAddr \<times> counter_ref \<Rightarrow> peer_sys \<Rightarrow> peer_sys" where
  "peer_guard_sub g y =
     (let previous = peer_counter y (snd g);
          y' = y\<lparr>ps_count := hput (snd g) (previous - 1) (ps_count y), ps_guards := remove1 g (ps_guards y)\<rparr>
      in if previous = 1 then y'\<lparr>ps_draining := g # ps_draining y\<rparr> else y')"

definition peer_guard_remove :: "SocketAddr \<times> counter_ref \<Rightarrow> peer_sys \<Rightarrow> peer_sys" where
  "peer_guard_remove g y =
     (let y' = y\<lparr>ps_draining := remove1 g (ps_draining y)\<rparr>
      in if hget (ps_table y) (fst g) = Some (snd g) \<and> peer_counter y (snd g) = 0
         then y'\<lparr>ps_table := hdel (fst g) (ps_table y)\<rparr> else y')"

inductive peer_step :: "nat \<Rightarrow> peer_sys \<Rightarrow> peer_sys \<Rightarrow> bool" for max_in_flight :: nat where
  fetch: "peer_step max_in_flight y (admit_peer_fetch peer y)"
| cas: "g \<in> set (ps_fetched y) \<Longrightarrow> peer_step max_in_flight y (admit_peer_cas max_in_flight g y)"
| sub: "g \<in> set (ps_guards y) \<Longrightarrow> peer_step max_in_flight y (peer_guard_sub g y)"
| remove: "g \<in> set (ps_draining y) \<Longrightarrow> peer_step max_in_flight y (peer_guard_remove g y)"

inductive peer_reachable :: "nat \<Rightarrow> peer_sys \<Rightarrow> bool" for max_in_flight :: nat where
  start: "peer_reachable max_in_flight peer_sys_init"
| step: "peer_reachable max_in_flight y \<Longrightarrow> peer_step max_in_flight y y' \<Longrightarrow> peer_reachable max_in_flight y'"

section \<open>What holds under every interleaving\<close>

definition guards_on :: "peer_sys \<Rightarrow> counter_ref \<Rightarrow> nat" where
  "guards_on y c = length (filter (\<lambda>g. snd g = c) (ps_guards y))"

definition in_use :: "peer_sys \<Rightarrow> SocketAddr \<times> counter_ref \<Rightarrow> bool" where
  "in_use y g \<longleftrightarrow> g \<in> set (ps_fetched y) \<or> g \<in> set (ps_guards y) \<or> g \<in> set (ps_draining y)"

text \<open>
  Counters are those of the guards, a counter belongs to one peer, and a table entry is in use: some
  caller has fetched it, holds a guard on it, or is about to remove it.
\<close>

definition peer_inv :: "nat \<Rightarrow> peer_sys \<Rightarrow> bool" where
  "peer_inv m y \<longleftrightarrow>
     (\<forall>c. peer_counter y c = guards_on y c \<and> guards_on y c \<le> m)
     \<and> (\<forall>p c. hget (ps_table y) p = Some c \<longrightarrow> in_use y (p, c))
     \<and> (\<forall>g. in_use y g \<longrightarrow> snd g < ps_next y)
     \<and> (\<forall>p q c. in_use y (p, c) \<longrightarrow> in_use y (q, c) \<longrightarrow> p = q)"

lemma peer_counter_hput:
  "ps_count y' = hput c n (ps_count y) \<Longrightarrow> peer_counter y' d = (if d = c then n else peer_counter y d)"
  by (simp add: peer_counter_def)

lemma guards_on_pos: "guards_on y c > 0 \<longleftrightarrow> (\<exists>p. (p, c) \<in> set (ps_guards y))"
  by (force simp: guards_on_def filter_empty_conv)

lemma peer_inv_nextD: "peer_inv m y \<Longrightarrow> in_use y g \<Longrightarrow> snd g < ps_next y"
  unfolding peer_inv_def by blast

lemma peer_inv_fetch:
  assumes inv: "peer_inv m y"
  shows "peer_inv m (admit_peer_fetch peer y)"
proof (cases "hget (ps_table y) peer")
  case (Some c)
  then have "in_use y (peer, c)" using inv by (simp add: peer_inv_def)
  then have "in_use (admit_peer_fetch peer y) g = in_use y g" for g
    using Some by (auto simp: admit_peer_fetch_def in_use_def)
  then show ?thesis
    using inv Some by (simp add: peer_inv_def admit_peer_fetch_def guards_on_def peer_counter_def)
next
  case None
  let ?y = "admit_peer_fetch peer y"
  have use: "in_use ?y g = (in_use y g \<or> g = (peer, ps_next y))" for g
    using None by (auto simp: admit_peer_fetch_def in_use_def)
  have fresh: "\<not> in_use y (p, ps_next y)" for p using inv by (auto simp: peer_inv_def)
  have guards: "guards_on ?y = guards_on y" using None by (simp add: admit_peer_fetch_def guards_on_def fun_eq_iff)
  have "guards_on y (ps_next y) = 0" using fresh guards_on_pos[of y "ps_next y"] by (auto simp: in_use_def)
  then have "peer_counter ?y c = guards_on ?y c" for c
    using None inv guards by (simp add: peer_inv_def admit_peer_fetch_def peer_counter_hput)
  moreover have "hget (ps_table ?y) p = Some c \<longrightarrow> in_use ?y (p, c)" for p c
    using None inv use by (auto simp: peer_inv_def admit_peer_fetch_def)
  moreover have "in_use ?y g \<longrightarrow> snd g < ps_next ?y" for g
    using None use[of g] peer_inv_nextD[OF inv, of g] by (auto simp: admit_peer_fetch_def less_Suc_eq)
  moreover have "in_use ?y (p, c) \<longrightarrow> in_use ?y (q, c) \<longrightarrow> p = q" for p q c
    using inv use fresh by (auto simp: peer_inv_def)
  ultimately show ?thesis using inv guards by (simp add: peer_inv_def)
qed

text \<open>Steps that only move entries between the three lists, and adjust one counter with its guards.\<close>

lemma peer_inv_shrink:
  assumes inv: "peer_inv m y" and next': "ps_next y' = ps_next y"
    and cnt: "\<And>c. peer_counter y' c = guards_on y' c \<and> guards_on y' c \<le> m"
    and use: "\<And>g. in_use y' g \<Longrightarrow> in_use y g"
    and tab: "\<And>p c. hget (ps_table y') p = Some c \<Longrightarrow> in_use y' (p, c)"
  shows "peer_inv m y'"
proof -
  have "snd g < ps_next y'" if "in_use y' g" for g
    using peer_inv_nextD[OF inv use[OF that]] next' by simp
  moreover have "p = q" if "in_use y' (p, c)" "in_use y' (q, c)" for p q c
    using use[OF that(1)] use[OF that(2)] inv unfolding peer_inv_def by blast
  ultimately show ?thesis using cnt tab unfolding peer_inv_def by blast
qed

lemma peer_inv_cas:
  assumes inv: "peer_inv m y" and g: "g \<in> set (ps_fetched y)" and m: "0 < m"
  shows "peer_inv m (admit_peer_cas m g y)"
proof (cases "peer_counter y (snd g) \<ge> m")
  case True
  let ?y = "admit_peer_cas m g y"
  have y: "?y = y\<lparr>ps_fetched := remove1 g (ps_fetched y)\<rparr>" using True by (simp add: admit_peer_cas_def)
  have "guards_on y (snd g) > 0" using True m inv by (auto simp: peer_inv_def)
  then obtain q where q: "(q, snd g) \<in> set (ps_guards y)" by (auto simp: guards_on_pos)
  have "in_use y (q, snd g)" "in_use y (fst g, snd g)" using q g by (auto simp: in_use_def)
  then have "q = fst g" using inv unfolding peer_inv_def by blast
  then have held: "g \<in> set (ps_guards y)" using q by simp
  show ?thesis
  proof (rule peer_inv_shrink[OF inv])
    show "in_use ?y h \<Longrightarrow> in_use y h" for h
      by (auto simp: y in_use_def dest: notin_set_remove1)
    show "hget (ps_table ?y) p = Some c \<Longrightarrow> in_use ?y (p, c)" for p c
    proof -
      assume "hget (ps_table ?y) p = Some c"
      then have "in_use y (p, c)" using inv by (simp add: y peer_inv_def)
      then show ?thesis using held by (cases "(p, c) = g") (auto simp: y in_use_def)
    qed
  qed (use inv in \<open>simp_all add: y peer_inv_def guards_on_def peer_counter_def\<close>)
next
  case False
  let ?y = "admit_peer_cas m g y"
  have y: "?y = y\<lparr>ps_count := hput (snd g) (peer_counter y (snd g) + 1) (ps_count y),
             ps_fetched := remove1 g (ps_fetched y), ps_guards := g # ps_guards y\<rparr>"
    using False by (simp add: admit_peer_cas_def)
  show ?thesis
  proof (rule peer_inv_shrink[OF inv])
    show "in_use ?y h \<Longrightarrow> in_use y h" for h
      using g by (auto simp: y in_use_def dest: notin_set_remove1)
    show "hget (ps_table ?y) p = Some c \<Longrightarrow> in_use ?y (p, c)" for p c
    proof -
      assume "hget (ps_table ?y) p = Some c"
      then have "in_use y (p, c)" using inv by (simp add: y peer_inv_def)
      then show ?thesis by (cases "(p, c) = g") (auto simp: y in_use_def)
    qed
    show "peer_counter ?y c = guards_on ?y c \<and> guards_on ?y c \<le> m" for c
      using inv False by (auto simp: y peer_inv_def guards_on_def peer_counter_def)
  qed (simp add: y)
qed

lemma guards_on_remove1:
  "g \<in> set xs \<Longrightarrow> length (filter (\<lambda>h. snd h = c) (remove1 g xs))
     = length (filter (\<lambda>h. snd h = c) xs) - (if snd g = c then 1 else 0)"
proof (induction xs)
  case (Cons a xs)
  have "snd g = c \<Longrightarrow> g \<in> set xs \<Longrightarrow> 0 < length (filter (\<lambda>h. snd h = c) xs)"
    by (auto simp: filter_empty_conv)
  then show ?case using Cons by auto
qed simp

lemma peer_inv_sub:
  assumes inv: "peer_inv m y" and g: "g \<in> set (ps_guards y)"
  shows "peer_inv m (peer_guard_sub g y)"
proof -
  let ?y = "peer_guard_sub g y"
  have guards: "ps_guards ?y = remove1 g (ps_guards y)" and rest: "ps_table ?y = ps_table y"
    "ps_fetched ?y = ps_fetched y" "ps_next ?y = ps_next y"
    "ps_count ?y = hput (snd g) (peer_counter y (snd g) - 1) (ps_count y)"
    "ps_draining ?y = (if peer_counter y (snd g) = 1 then g # ps_draining y else ps_draining y)"
    by (simp_all add: peer_guard_sub_def Let_def)
  have cnt: "guards_on ?y c = guards_on y c - (if snd g = c then 1 else 0)" for c
    using guards_on_remove1[OF g] by (simp add: guards_on_def guards)
  have keep: "g \<in> set (ps_guards ?y) \<or> g \<in> set (ps_draining ?y)"
  proof (cases "peer_counter y (snd g) = 1")
    case False
    have "0 < guards_on y (snd g)" using g by (auto simp: guards_on_pos intro: exI[of _ "fst g"])
    then have "0 < guards_on ?y (snd g)" using False inv cnt[of "snd g"] by (auto simp: peer_inv_def)
    then obtain q where q: "(q, snd g) \<in> set (ps_guards ?y)" by (auto simp: guards_on_pos)
    then have "in_use y (q, snd g)" "in_use y (fst g, snd g)"
      using g notin_set_remove1[of "(q, snd g)" "ps_guards y" g] by (auto simp: in_use_def guards)
    then have "q = fst g" using inv unfolding peer_inv_def by blast
    then show ?thesis using q by simp
  qed (simp add: rest)
  show ?thesis
  proof (rule peer_inv_shrink[OF inv])
    show "in_use ?y h \<Longrightarrow> in_use y h" for h
      using g set_remove1_subset[of g "ps_guards y"] by (auto simp: in_use_def guards rest split: if_splits)
    show "hget (ps_table ?y) p = Some c \<Longrightarrow> in_use ?y (p, c)" for p c
    proof -
      assume "hget (ps_table ?y) p = Some c"
      then have "in_use y (p, c)" using inv by (simp add: rest peer_inv_def)
      then show ?thesis using keep by (cases "(p, c) = g") (auto simp: in_use_def guards rest)
    qed
    show "peer_counter ?y c = guards_on ?y c \<and> guards_on ?y c \<le> m" for c
      using inv cnt[of c] rest(4) by (auto simp: peer_inv_def peer_counter_hput intro: diff_le_self le_trans)
  qed (simp add: rest)
qed

lemma peer_inv_remove:
  assumes inv: "peer_inv m y" and g: "g \<in> set (ps_draining y)"
  shows "peer_inv m (peer_guard_remove g y)"
proof -
  let ?y = "peer_guard_remove g y"
  have rest: "ps_draining ?y = remove1 g (ps_draining y)" "ps_guards ?y = ps_guards y"
    "ps_fetched ?y = ps_fetched y" "ps_next ?y = ps_next y" "ps_count ?y = ps_count y"
    by (simp_all add: peer_guard_remove_def Let_def)
  have tab: "hget (ps_table ?y) p = Some c \<Longrightarrow>
      hget (ps_table y) p = Some c \<and> ((p, c) = g \<longrightarrow> peer_counter y c \<noteq> 0)" for p c
    by (auto simp: peer_guard_remove_def Let_def split: if_splits)
  show ?thesis
  proof (rule peer_inv_shrink[OF inv])
    show "in_use ?y h \<Longrightarrow> in_use y h" for h
      by (auto simp: in_use_def rest dest: notin_set_remove1)
    show "hget (ps_table ?y) p = Some c \<Longrightarrow> in_use ?y (p, c)" for p c
    proof -
      assume "hget (ps_table ?y) p = Some c"
      from tab[OF this] have t: "hget (ps_table y) p = Some c" "(p, c) = g \<longrightarrow> peer_counter y c \<noteq> 0" by auto
      have use: "in_use y (p, c)" using t inv by (simp add: peer_inv_def)
      show ?thesis
      proof (cases "(p, c) = g")
        case True
        then have "0 < guards_on y c" using t inv by (simp add: peer_inv_def)
        then obtain q where q: "(q, c) \<in> set (ps_guards y)" by (auto simp: guards_on_pos)
        then have "q = p" using use inv unfolding peer_inv_def in_use_def by blast
        then show ?thesis using q by (simp add: in_use_def rest)
      qed (use use in \<open>auto simp: in_use_def rest\<close>)
    qed
  qed (use inv in \<open>simp_all add: rest peer_inv_def guards_on_def peer_counter_def\<close>)
qed

lemma peer_reachable_inv: "peer_reachable m y \<Longrightarrow> 0 < m \<Longrightarrow> peer_inv m y"
proof (induction rule: peer_reachable.induct)
  case start
  then show ?case by (simp add: peer_inv_def peer_sys_init_def peer_counter_def guards_on_def in_use_def)
next
  case (step y y')
  from step.hyps(2) step.IH[OF step.prems] step.prems show ?case
    by cases (auto intro: peer_inv_fetch peer_inv_cas peer_inv_sub peer_inv_remove)
qed


section \<open>More calls than the cap\<close>

text \<open>
  One guard held, a second caller has fetched the counter; the guard is dropped and removes the
  entry; the second caller then increments a counter the table no longer names, and two more calls
  are admitted on a fresh one.
\<close>

definition overrun_trace :: "(peer_sys \<Rightarrow> peer_sys) list" where
  "overrun_trace =
     [admit_peer_fetch ''p'', admit_peer_cas 2 (''p'', 0), admit_peer_fetch ''p'',
      peer_guard_sub (''p'', 0), peer_guard_remove (''p'', 0), admit_peer_cas 2 (''p'', 0),
      admit_peer_fetch ''p'', admit_peer_cas 2 (''p'', 1),
      admit_peer_fetch ''p'', admit_peer_cas 2 (''p'', 1)]"

fun trace_ok :: "nat \<Rightarrow> (peer_sys \<Rightarrow> peer_sys) list \<Rightarrow> peer_sys \<Rightarrow> bool" where
  "trace_ok m [] y \<longleftrightarrow> True"
| "trace_ok m (f # fs) y \<longleftrightarrow> peer_step m y (f y) \<and> trace_ok m fs (f y)"

lemma trace_reachable: "peer_reachable m y \<Longrightarrow> trace_ok m fs y \<Longrightarrow> peer_reachable m (fold (\<lambda>f. f) fs y)"
  by (induction fs arbitrary: y) (auto intro: peer_reachable.step)

lemmas overrun_defs = overrun_trace_def peer_sys_init_def admit_peer_fetch_def admit_peer_cas_def
  peer_guard_sub_def peer_guard_remove_def peer_counter_def

lemma overrun_ok: "trace_ok 2 overrun_trace peer_sys_init"
  unfolding overrun_trace_def trace_ok.simps
  by (intro conjI peer_step.intros TrueI) (simp_all add: overrun_defs)

text \<open>
  C16. The cap of calls in flight per connection can be exceeded: with a cap of two there is an
  interleaving of the atomic steps, starting from the empty table, after which three guards of the
  same peer are held.  A guard that is dropped removes the table entry after its decrement, and a
  caller that fetched the old counter in between goes on counting on it.
\<close>

theorem peer_cap_overrun:
  "\<exists>y. peer_reachable 2 y \<and> length (filter (\<lambda>g. fst g = ''p'') (ps_guards y)) = 3"
proof -
  have "length (filter (\<lambda>g. fst g = ''p'') (ps_guards (fold (\<lambda>f. f) overrun_trace peer_sys_init))) = 3"
    by (simp add: overrun_defs)
  then show ?thesis using trace_reachable[OF peer_reachable.start overrun_ok] by blast
qed

section \<open>Claims\<close>

text \<open>
  Under every interleaving of admissions and releases a counter counts the guards held on it
  and is never over the cap; and the table does not leak: once no caller has a counter in hand, no
  guard is held and no removal is pending, it is empty.
\<close>

theorem peer_admission_exact:
  assumes "peer_reachable (per_connection_max_in_flight budget) y"
  shows "peer_counter y c = guards_on y c \<and> guards_on y c \<le> per_connection_max_in_flight budget
       \<and> (hget (ps_table y) p = Some c \<longrightarrow> in_use y (p, c))"
proof -
  have "0 < per_connection_max_in_flight budget" by (simp add: per_connection_max_in_flight_def)
  from peer_reachable_inv[OF assms this] show ?thesis by (simp add: peer_inv_def)
qed

theorem peer_admission_exact_witness:
  "\<exists>y. peer_reachable (per_connection_max_in_flight 8) y \<and> guards_on y 1 = 2 \<and> peer_counter y 1 = 2
      \<and> in_use y (''p'', 1)"
proof -
  let ?y = "fold (\<lambda>f. f) overrun_trace peer_sys_init"
  have r: "peer_reachable (per_connection_max_in_flight 8) ?y"
  proof -
    have two: "per_connection_max_in_flight 8 = 2" by (simp add: per_connection_max_in_flight_def)
    show ?thesis unfolding two by (rule trace_reachable[OF peer_reachable.start overrun_ok])
  qed
  have "guards_on ?y 1 = 2" "hget (ps_table ?y) ''p'' = Some 1"
    by (simp_all add: guards_on_def overrun_defs)
  then show ?thesis using r peer_admission_exact[OF r, of 1 "''p''"] by auto
qed

end
