(* ===== verification/Server_World.thy ===== *)
theory Server_World
  imports Context_Manager Backend_Calls Rate_Quota
begin

text \<open>
  What the asynchronous code of the daemon runs in: the state it shares, and the schedule.  A handler
  is suspended at each \<^verbatim>\<open>await\<close>; meanwhile other tasks may change the shared state in any way and
  the library in any way.  The schedule gives, for one run of one handler, what the others do at each
  suspension (a function on the world) and what becomes of each backend call.  Theorems quantify over
  schedules; when the lists are used up, nothing happens and calls complete.
\<close>

record 'b world =
  w_mgr :: ContextManager
  w_backend :: 'b
  w_quota :: "RateQuota option"
  w_now :: instant

record 'b schedule =
  sc_env :: "('b world \<Rightarrow> 'b world) list"
  sc_fates :: "'b fate list"

type_synonym 'b run = "'b world \<times> 'b schedule"

text \<open>A suspension point.\<close>

definition pause :: "'b run \<Rightarrow> 'b run" where
  "pause s =
     (case sc_env (snd s) of
        [] \<Rightarrow> s
      | f # fs \<Rightarrow> (f (fst s), (snd s)\<lparr>sc_env := fs\<rparr>))"

text \<open>An awaited backend call: others run before the library is entered and before the caller resumes.\<close>

definition call_backend ::
  "('b \<Rightarrow> 'r CkResult \<times> 'b) \<Rightarrow> 'b run \<Rightarrow> (Status + 'r CkResult) \<times> 'b run" where
  "call_backend operation s =
     (let (w, sc) = pause s;
          (fate, fates) = (case sc_fates sc of [] \<Rightarrow> (Completes, []) | f # fs \<Rightarrow> (f, fs));
          (r, b) = spawn_backend fate operation (w_backend w)
      in (r, pause (w\<lparr>w_backend := b\<rparr>, sc\<lparr>sc_fates := fates\<rparr>)))"

definition on_mgr :: "(ContextManager \<Rightarrow> ContextManager) \<Rightarrow> 'b run \<Rightarrow> 'b run" where
  "on_mgr f s = ((fst s)\<lparr>w_mgr := f (w_mgr (fst s))\<rparr>, snd s)"

definition mgr_of :: "'b run \<Rightarrow> ContextManager" where
  "mgr_of s = w_mgr (fst s)"

definition in_context ::
  "ClientContextId \<Rightarrow> (LogicalClientInstance \<Rightarrow> 'r \<times> LogicalClientInstance) \<Rightarrow> 'b run \<Rightarrow> 'r option \<times> 'b run" where
  "in_context cid f s =
     (let (r, m) = get_context (w_now (fst s)) cid f (mgr_of s) in (r, on_mgr (\<lambda>_. m) s))"

section \<open>The per-slot login lock\<close>

text \<open>
  \<^verbatim>\<open>acquire_slot_login_lock\<close>: waiting is a suspension; the lock is then taken, or the bound has
  passed with another task still holding it.
\<close>

definition slot_lock_held :: "BackendSlotId \<Rightarrow> ContextManager \<Rightarrow> bool" where
  "slot_lock_held slot m \<longleftrightarrow> slot \<in> cm_login_locks_held m"

definition lock_slot :: "BackendSlotId \<Rightarrow> ContextManager \<Rightarrow> ContextManager" where
  "lock_slot slot m = m\<lparr>cm_login_locks_held := insert slot (cm_login_locks_held m)\<rparr>"

definition unlock_slot :: "BackendSlotId \<Rightarrow> ContextManager \<Rightarrow> ContextManager" where
  "unlock_slot slot m = m\<lparr>cm_login_locks_held := cm_login_locks_held m - {slot}\<rparr>"

definition acquire_slot_login_lock :: "BackendSlotId \<Rightarrow> 'b run \<Rightarrow> unit CkResult \<times> 'b run" where
  "acquire_slot_login_lock slot s =
     (let s' = pause s
      in if slot_lock_held slot (mgr_of s') then (Inl CKR_GENERAL_ERROR, s')
         else (Inr (), on_mgr (lock_slot slot) s'))"

lemma run_simps [simp]:
  "mgr_of (on_mgr f s) = f (mgr_of s)"
  "w_backend (fst (on_mgr f s)) = w_backend (fst s)"
  "w_quota (fst (on_mgr f s)) = w_quota (fst s)"
  "w_now (fst (on_mgr f s)) = w_now (fst s)"
  "snd (on_mgr f s) = snd s"
  by (simp_all add: on_mgr_def mgr_of_def)

lemma slot_lock_simps [simp]:
  "cm_contexts (lock_slot slot m) = cm_contexts m"
  "cm_contexts (unlock_slot slot m) = cm_contexts m"
  "cm_login_locks_held (lock_slot slot m) = insert slot (cm_login_locks_held m)"
  "cm_login_locks_held (unlock_slot slot m) = cm_login_locks_held m - {slot}"
  by (simp_all add: lock_slot_def unlock_slot_def)

text \<open>Schedules without interference; the fates of the calls remain arbitrary.\<close>

definition quiet :: "'b run \<Rightarrow> bool" where
  "quiet s \<longleftrightarrow> sc_env (snd s) = []"

lemma pause_quiet [simp]: "quiet s \<Longrightarrow> pause s = s"
  by (simp add: quiet_def pause_def)

lemma quiet_on_mgr [simp]: "quiet (on_mgr f s) = quiet s"
  by (simp add: quiet_def)

text \<open>A successful call is one that ran to completion in the library.\<close>

lemma call_backend_OkE:
  assumes "call_backend operation s = (Inr (Inr x), s')"
  obtains b where "operation (w_backend (fst (pause s))) = (Inr x, b)"
    "\<exists>sc. s' = pause ((fst (pause s))\<lparr>w_backend := b\<rparr>, sc)"
proof -
  obtain w sc where p: "pause s = (w, sc)" by fastforce
  obtain fate fates where f: "(case sc_fates sc of [] \<Rightarrow> (Completes, []) | f # fs \<Rightarrow> (f, fs)) = (fate, fates)"
    by fastforce
  obtain r b where r: "spawn_backend fate operation (w_backend w) = (r, b)" by fastforce
  have "r = Inr (Inr x)" and s': "s' = pause (w\<lparr>w_backend := b\<rparr>, sc\<lparr>sc_fates := fates\<rparr>)"
    using assms p f r by (simp_all add: call_backend_def)
  with r have "operation (w_backend w) = (Inr x, b)" by (auto dest: spawn_backend_OkD)
  then show thesis using that[of b] s' p by auto
qed

lemma call_backend_mgr_quiet:
  assumes "quiet s" "call_backend operation s = (r, s')"
  shows "mgr_of s' = mgr_of s \<and> w_quota (fst s') = w_quota (fst s) \<and> w_now (fst s') = w_now (fst s) \<and> quiet s'"
  using assms by (auto simp: call_backend_def pause_def quiet_def mgr_of_def Let_def split: list.splits prod.splits)

end
