(* ===== verification/Context_Login.thy ===== *)
theory Context_Login
  imports Server_World
begin

text \<open>
  The shared-login part of \<^verbatim>\<open>crates/server/src/server/context_manager.rs\<close>: who holds a login on a
  slot, which backend sessions are still referenced, what to do when a context leaves (the teardown
  plan), and the release of the backend login by the last holder.
\<close>

section \<open>Scans\<close>

fun find_map :: "('a \<Rightarrow> 'b option) \<Rightarrow> 'a list \<Rightarrow> 'b option" where
  "find_map f [] = None"
| "find_map f (x # xs) = (case f x of None \<Rightarrow> find_map f xs | Some y \<Rightarrow> Some y)"

lemma find_map_None [simp]: "find_map f xs = None \<longleftrightarrow> (\<forall>x\<in>set xs. f x = None)"
  by (induction xs) (auto split: option.splits)

lemma find_map_Some: "find_map f xs = Some y \<Longrightarrow> \<exists>x\<in>set xs. f x = Some y"
  by (induction xs) (auto split: option.splits)

definition slot_login_holder_ids :: "ContextManager \<Rightarrow> BackendSlotId \<Rightarrow> ClientContextId list option" where
  "slot_login_holder_ids m slot = hget (cm_slot_login_holders m) slot"

text \<open>The login of one context on a slot, read through the live table.\<close>

definition context_login :: "ContextManager \<Rightarrow> BackendSlotId \<Rightarrow> ClientContextId \<Rightarrow> LoginState option" where
  "context_login m slot cid = Option.bind (hget (cm_contexts m) cid) (\<lambda>ctx. hget (lc_login_state ctx) slot)"

text \<open>The loop over the indexed candidates: a live holder, or the stale ids met.\<close>

fun scan_holders ::
  "ContextManager \<Rightarrow> BackendSlotId \<Rightarrow> ClientContextId \<Rightarrow> ClientContextId list \<Rightarrow> ClientContextId list
   \<Rightarrow> LoginState option \<times> ClientContextId list" where
  "scan_holders m slot excluded [] stale = (None, stale)"
| "scan_holders m slot excluded (cid # ids) stale =
     (case context_login m slot cid of
        Some state \<Rightarrow> if cid \<noteq> excluded then (Some state, stale) else scan_holders m slot excluded ids stale
      | None \<Rightarrow> scan_holders m slot excluded ids (stale @ [cid]))"

definition first_login_state_for_slot_excluding ::
  "BackendSlotId \<Rightarrow> ClientContextId \<Rightarrow> ContextManager \<Rightarrow> LoginState option \<times> ContextManager" where
  "first_login_state_for_slot_excluding slot excluded m =
     (case slot_login_holder_ids m slot of
        None \<Rightarrow> (None, m)
      | Some candidates \<Rightarrow>
          (case scan_holders m slot excluded candidates [] of
             (Some state, _) \<Rightarrow> (Some state, m)
           | (None, stale) \<Rightarrow> (None, fold (\<lambda>cid. note_login_released cid slot) stale m)))"

definition first_login_state_for_slot_excluding_authoritative ::
  "ContextManager \<Rightarrow> BackendSlotId \<Rightarrow> ClientContextId \<Rightarrow> LoginState option" where
  "first_login_state_for_slot_excluding_authoritative m slot excluded =
     find_map (\<lambda>(cid, ctx). if cid = excluded then None else hget (lc_login_state ctx) slot) (cm_contexts m)"

definition any_login_state_for_slot :: "ContextManager \<Rightarrow> BackendSlotId \<Rightarrow> bool" where
  "any_login_state_for_slot m slot =
     list_ex (\<lambda>(_, ctx). hget (lc_login_state ctx) slot \<noteq> None) (cm_contexts m)"

definition other_login_state_for_slot :: "ContextManager \<Rightarrow> BackendSlotId \<Rightarrow> ClientContextId \<Rightarrow> bool" where
  "other_login_state_for_slot m slot exclude =
     list_ex (\<lambda>(cid, ctx). cid \<noteq> exclude \<and> hget (lc_login_state ctx) slot \<noteq> None) (cm_contexts m)"

definition slot_login_held :: "ContextManager \<Rightarrow> BackendSlotId \<Rightarrow> bool" where
  "slot_login_held m slot = any_login_state_for_slot m slot"

definition backend_session_referenced_by_live_context :: "ContextManager \<Rightarrow> BackendHandle \<Rightarrow> bool" where
  "backend_session_referenced_by_live_context m handle =
     list_ex (\<lambda>(_, ctx). handle_map_references_backend (lc_session_handles ctx) handle) (cm_contexts m)"

definition any_active_backend_session_for_slot :: "ContextManager \<Rightarrow> BackendSlotId \<Rightarrow> u64 option" where
  "any_active_backend_session_for_slot m slot =
     find_map (\<lambda>(_, ctx).
       Option.bind (find (\<lambda>(_, s). s = slot) (lc_session_slots ctx))
         (\<lambda>(vh, _). map_option bh_raw (handle_map_resolve (lc_session_handles ctx) vh)))
       (cm_contexts m)"

section \<open>Teardown plans\<close>

definition plan_sessions_to_close :: "ContextManager \<Rightarrow> LogicalClientInstance \<Rightarrow> u64 list" where
  "plan_sessions_to_close m departed =
     filter (\<lambda>h. \<not> backend_session_referenced_by_live_context m (BackendHandle h))
       (map bh_raw (handle_map_backend_handles (lc_session_handles departed)))"

definition logout_carrier :: "ContextManager \<Rightarrow> LogicalClientInstance \<Rightarrow> BackendSlotId \<Rightarrow> u64 option" where
  "logout_carrier m departed slot =
     (case find_map (\<lambda>(vh, s). if s = slot then map_option bh_raw (handle_map_resolve (lc_session_handles departed) vh)
                               else None) (lc_session_slots departed) of
        Some b \<Rightarrow> Some b
      | None \<Rightarrow> any_active_backend_session_for_slot m slot)"

definition plan_slot_logouts :: "ContextManager \<Rightarrow> LogicalClientInstance \<Rightarrow> SlotLogout list" where
  "plan_slot_logouts m departed =
     List.map_filter (\<lambda>(slot, login).
       if first_login_state_for_slot_excluding_authoritative m slot (lc_id departed) \<noteq> None then None
       else map_option (\<lambda>via. \<lparr>sl_slot = slot, sl_via_session = via, sl_login = login\<rparr>)
              (logout_carrier m departed slot))
       (lc_login_state departed)"

definition plan_removed_context_teardown ::
  "LogicalClientInstance \<Rightarrow> ContextManager \<Rightarrow> ContextTeardownPlan \<times> LogicalClientInstance \<times> ContextManager" where
  "plan_removed_context_teardown departed m =
     (\<lparr>tp_sessions_to_close = plan_sessions_to_close m departed,
       tp_slot_logouts = plan_slot_logouts m departed\<rparr>,
      snd (client_teardown departed),
      release_all_logins (lc_id departed) departed m)"

section \<open>Releasing the backend login\<close>

datatype TransientCarrierOutcome = Settled "unit CkResult" | OpenFailed CkRv

text \<open>The closure of the transient carrier: open, logout, close; a close that fails is recorded.\<close>

definition transient_carrier ::
  "'b Pkcs11Backend \<Rightarrow> BackendSlotId \<Rightarrow> CkSessionFlags \<Rightarrow> 'b
   \<Rightarrow> (TransientCarrierOutcome \<times> UnresolvedCarrierCleanup list) CkResult \<times> 'b" where
  "transient_carrier be slot carrier_flags b =
     (case be_open_session be (bs_raw slot) carrier_flags b of
        (Inl rv, b1) \<Rightarrow> (Inr (OpenFailed rv, []), b1)
      | (Inr temp, b1) \<Rightarrow>
          let (logout, b2) = be_logout be temp b1;
              (close, b3) = be_close_session be temp b2
          in (Inr (Settled logout,
                   (case close of
                      Inl rv \<Rightarrow> [\<lparr>uc_slot = slot, uc_session = temp, uc_rv = Some rv\<rparr>]
                    | Inr _ \<Rightarrow> [])), b3))"

definition record_unresolved :: "UnresolvedCarrierCleanup list \<Rightarrow> ContextManager \<Rightarrow> ContextManager" where
  "record_unresolved led m = m\<lparr>cm_carrier_cleanup_ledger := cm_carrier_cleanup_ledger m @ led\<rparr>"

text \<open>
  The closure owns the slot lock: it is released when the closure ends or is never run, and stays
  held when the caller's timeout fires first.  \<open>unwound\<close> is the session the closure had open if it
  panicked.
\<close>

definition last_holder_logout_via_transient_carrier ::
  "'b Pkcs11Backend \<Rightarrow> u64 option \<Rightarrow> BackendSlotId \<Rightarrow> LoginState \<Rightarrow> 'b run \<Rightarrow> bool \<times> 'b run" where
  "last_holder_logout_via_transient_carrier be unwound slot departed_login s =
     (let carrier_flags = (if departed_login = So then session_flags_or RW_SESSION SERIAL_SESSION
                           else SERIAL_SESSION)
      in case call_backend (transient_carrier be slot carrier_flags) s of
           (Inr (Inr (outcome, led)), s1) \<Rightarrow>
             (outcome = Settled (Inr ()), on_mgr (unlock_slot slot \<circ> record_unresolved led) s1)
         | (Inr (Inl rv), s1) \<Rightarrow>
             (False, if rv = CKR_FUNCTION_FAILED then s1 else on_mgr (unlock_slot slot) s1)
         | (Inl status, s1) \<Rightarrow>
             (False, on_mgr (unlock_slot slot \<circ> record_unresolved
                (case unwound of None \<Rightarrow> []
                 | Some temp \<Rightarrow> [\<lparr>uc_slot = slot, uc_session = temp, uc_rv = None\<rparr>])) s1))"

fun logout_via :: "'b Pkcs11Backend \<Rightarrow> u64 list \<Rightarrow> 'b run \<Rightarrow> bool \<times> 'b run" where
  "logout_via be [] s = (False, s)"
| "logout_via be (via # carriers) s =
     (case call_backend (be_logout be via) s of
        (Inr (Inr _), s1) \<Rightarrow> (True, s1)
      | (Inr (Inl rv), s1) \<Rightarrow>
          if rv = CKR_SESSION_HANDLE_INVALID \<or> rv = CKR_SESSION_CLOSED
          then logout_via be carriers s1 else (False, s1)
      | (Inl status, s1) \<Rightarrow> (False, s1))"

definition logout_carriers :: "ContextManager \<Rightarrow> BackendSlotId \<Rightarrow> u64 option \<Rightarrow> u64 list" where
  "logout_carriers m slot preferred_session =
     (let live = any_active_backend_session_for_slot m slot
      in (case preferred_session of None \<Rightarrow> [] | Some via \<Rightarrow> [via])
         @ (case live of None \<Rightarrow> [] | Some via \<Rightarrow> if Some via \<noteq> preferred_session then [via] else []))"

text \<open>Other tasks may run between the check without the lock and the attempt to take it.\<close>

definition backend_logout_if_last_holder_out_inner ::
  "'b Pkcs11Backend \<Rightarrow> u64 option \<Rightarrow> BackendSlotId \<Rightarrow> u64 option \<Rightarrow> LoginState \<Rightarrow> 'b run \<Rightarrow> bool \<times> 'b run" where
  "backend_logout_if_last_holder_out_inner be unwound slot preferred_session departed_login s =
     (if slot_login_held (mgr_of s) slot then (False, s)
      else
        let s1 = pause s
        in if slot_lock_held slot (mgr_of s1) then (False, s1)
           else if slot_login_held (mgr_of s1) slot then (False, s1)
           else
             let s2 = on_mgr (lock_slot slot) s1;
                 carriers = logout_carriers (mgr_of s2) slot preferred_session
             in if carriers = []
                then last_holder_logout_via_transient_carrier be unwound slot departed_login s2
                else let (released, s3) = logout_via be carriers s2
                     in (released, on_mgr (unlock_slot slot) s3))"

section \<open>Executing plans, and the reaper\<close>

text \<open>Logouts deduplicated by slot, an SO departure winning.\<close>

definition merge_logout ::
  "SlotLogout \<Rightarrow> (BackendSlotId, u64 \<times> LoginState) hashmap \<Rightarrow> (BackendSlotId, u64 \<times> LoginState) hashmap" where
  "merge_logout l acc =
     (case hget acc (sl_slot l) of
        None \<Rightarrow> hput (sl_slot l) (sl_via_session l, sl_login l) acc
      | Some _ \<Rightarrow> if sl_login l = So then hput (sl_slot l) (sl_via_session l, sl_login l) acc else acc)"

definition merge_plans ::
  "ContextTeardownPlan list \<Rightarrow> (BackendSlotId, u64 \<times> LoginState) hashmap \<times> u64 list" where
  "merge_plans plans =
     (fold merge_logout (concat (map tp_slot_logouts plans)) [], concat (map tp_sessions_to_close plans))"

fun close_backend_sessions :: "'b Pkcs11Backend \<Rightarrow> u64 list \<Rightarrow> 'b run \<Rightarrow> 'b run" where
  "close_backend_sessions be [] s = s"
| "close_backend_sessions be (handle # hs) s =
     close_backend_sessions be hs
       (snd (call_backend (\<lambda>b. (Inr () :: unit CkResult, snd (be_close_session be handle b))) s))"

fun logout_slots ::
  "'b Pkcs11Backend \<Rightarrow> u64 option \<Rightarrow> (BackendSlotId \<times> u64 \<times> LoginState) list \<Rightarrow> 'b run \<Rightarrow> 'b run" where
  "logout_slots be unwound [] s = s"
| "logout_slots be unwound ((slot, via_session, login) # ls) s =
     logout_slots be unwound ls
       (snd (backend_logout_if_last_holder_out_inner be unwound slot (Some via_session) login s))"

definition execute_teardown_plans_with_timeout ::
  "'b Pkcs11Backend \<Rightarrow> u64 option \<Rightarrow> ContextTeardownPlan list \<Rightarrow> 'b run \<Rightarrow> 'b run" where
  "execute_teardown_plans_with_timeout be unwound plans s =
     (let (logouts, closes) = merge_plans plans
      in close_backend_sessions be closes (logout_slots be unwound logouts s))"

fun evict_candidates ::
  "instant \<Rightarrow> ClientContextId list \<Rightarrow> ContextManager
   \<Rightarrow> ClientContextId list \<times> ContextTeardownPlan list \<times> ContextManager" where
  "evict_candidates now [] m = ([], [], m)"
| "evict_candidates now (cid # ids) m =
     (case remove_context_if (\<lambda>ctx. is_reapable m ctx now) cid m of
        (None, m1) \<Rightarrow> evict_candidates now ids m1
      | (Some ctx, m1) \<Rightarrow>
          let (plan, _, m2) = plan_removed_context_teardown ctx m1;
              (evicted, plans, m3) = evict_candidates now ids m2
          in (cid # evicted, plan # plans, m3))"

definition evict_expired_with_timeout ::
  "'b Pkcs11Backend \<Rightarrow> u64 option \<Rightarrow> 'b run \<Rightarrow> ClientContextId list \<times> 'b run" where
  "evict_expired_with_timeout be unwound s =
     (let now = w_now (fst s);
          expired = collect_expired_context_ids (mgr_of s) now;
          (evicted, plans, m) = evict_candidates now expired (mgr_of s)
      in (evicted, execute_teardown_plans_with_timeout be unwound plans (on_mgr (\<lambda>_. m) s)))"


section \<open>What the scans find\<close>

definition manager_inv :: "ContextManager \<Rightarrow> bool" where
  "manager_inv m \<longleftrightarrow> hwf (cm_contexts m)
     \<and> (\<forall>cid ctx. hget (cm_contexts m) cid = Some ctx \<longrightarrow> client_inv ctx \<and> lc_id ctx = cid)"

lemma manager_invD:
  "manager_inv m \<Longrightarrow> hwf (cm_contexts m)"
  "manager_inv m \<Longrightarrow> hget (cm_contexts m) cid = Some ctx \<Longrightarrow> client_inv ctx \<and> lc_id ctx = cid"
  by (simp_all add: manager_inv_def)

lemma list_ex_hget:
  "hwf m \<Longrightarrow> list_ex (\<lambda>(k, v). P k v) m \<longleftrightarrow> (\<exists>k v. hget m k = Some v \<and> P k v)"
  by (auto simp: list_ex_iff hget_eq_Some_iff)

lemma context_login_None:
  "context_login m slot cid = None \<longleftrightarrow>
     (\<forall>ctx. hget (cm_contexts m) cid = Some ctx \<longrightarrow> hget (lc_login_state ctx) slot = None)"
  by (cases "hget (cm_contexts m) cid") (simp_all add: context_login_def)

lemma any_login_iff:
  "hwf (cm_contexts m) \<Longrightarrow> any_login_state_for_slot m slot \<longleftrightarrow> (\<exists>cid. context_login m slot cid \<noteq> None)"
  by (auto simp: any_login_state_for_slot_def list_ex_hget context_login_def bind_eq_Some_conv)

lemma other_login_iff:
  "hwf (cm_contexts m) \<Longrightarrow>
   other_login_state_for_slot m slot cid \<longleftrightarrow> (\<exists>c. c \<noteq> cid \<and> context_login m slot c \<noteq> None)"
  by (auto simp: other_login_state_for_slot_def list_ex_hget context_login_def bind_eq_Some_conv)

lemma authoritative_None_iff:
  assumes "hwf (cm_contexts m)"
  shows "first_login_state_for_slot_excluding_authoritative m slot cid = None
     \<longleftrightarrow> (\<forall>c. c \<noteq> cid \<longrightarrow> context_login m slot c = None)"
proof -
  have "first_login_state_for_slot_excluding_authoritative m slot cid = None \<longleftrightarrow>
      (\<forall>k v. hget (cm_contexts m) k = Some v \<longrightarrow> k = cid \<or> hget (lc_login_state v) slot = None)"
  proof -
    have "first_login_state_for_slot_excluding_authoritative m slot cid = None \<longleftrightarrow>
        (\<forall>(k, v)\<in>set (cm_contexts m). k = cid \<or> hget (lc_login_state v) slot = None)"
      unfolding first_login_state_for_slot_excluding_authoritative_def find_map_None
      by (intro ball_cong refl) (auto split: prod.splits)
    then show ?thesis unfolding set_ball_hget[OF assms] .
  qed
  also have "\<dots> \<longleftrightarrow> (\<forall>c. c \<noteq> cid \<longrightarrow> context_login m slot c = None)"
    unfolding context_login_None by (intro iffI allI impI) auto
  finally show ?thesis .
qed

definition context_sessions :: "LogicalClientInstance \<Rightarrow> u64 set" where
  "context_sessions ctx = bh_raw ` set (handle_map_backend_handles (lc_session_handles ctx))"

lemma references_iff:
  assumes "handle_map_inv hm"
  shows "handle_map_references_backend hm b \<longleftrightarrow> b \<in> set (handle_map_backend_handles hm)"
proof -
  have "(\<exists>v. hget (hm_backend_to_virtual hm) b = Some v) \<longleftrightarrow> b \<in> set (hvalues (hm_virtual_to_backend hm))"
    using handle_map_inv_inverse[OF assms] handle_map_inv_wf[OF assms]
    by (auto simp: set_hvalues dest: inverse_mapsD)
  then show ?thesis by (auto simp: handle_map_references_backend_def handle_map_backend_handles_def list_ex_iff)
qed

lemma session_referenced_iff:
  assumes "manager_inv m"
  shows "backend_session_referenced_by_live_context m (BackendHandle h) \<longleftrightarrow>
         (\<exists>cid ctx. hget (cm_contexts m) cid = Some ctx \<and> h \<in> context_sessions ctx)"
proof -
  have "handle_map_references_backend (lc_session_handles ctx) (BackendHandle h) \<longleftrightarrow> h \<in> context_sessions ctx"
    if "hget (cm_contexts m) cid = Some ctx" for cid ctx
  proof -
    have inv: "handle_map_inv (lc_session_handles ctx)"
      using manager_invD(2)[OF assms that] by (simp add: client_inv_def)
    show ?thesis unfolding references_iff[OF inv] context_sessions_def
      by (force simp: image_iff)
  qed
  then show ?thesis
    using manager_invD(1)[OF assms]
    by (auto simp: backend_session_referenced_by_live_context_def list_ex_hget)
qed

lemma plan_closes_iff:
  assumes "manager_inv m"
  shows "h \<in> set (plan_sessions_to_close m departed) \<longleftrightarrow>
         h \<in> context_sessions departed
         \<and> (\<forall>cid ctx. hget (cm_contexts m) cid = Some ctx \<longrightarrow> h \<notin> context_sessions ctx)"
  using session_referenced_iff[OF assms] by (auto simp: plan_sessions_to_close_def context_sessions_def)

lemma plan_logouts_unheld:
  assumes "hwf (cm_contexts m)" "l \<in> set (plan_slot_logouts m departed)" "hget (cm_contexts m) (lc_id departed) = None"
  shows "context_login m (sl_slot l) cid = None"
proof -
  have "first_login_state_for_slot_excluding_authoritative m (sl_slot l) (lc_id departed) = None"
    using assms(2) by (auto simp: plan_slot_logouts_def map_filter_def split: if_splits)
  then show ?thesis using authoritative_None_iff[OF assms(1)] assms(3)
    by (cases "cid = lc_id departed") (auto simp: context_login_def)
qed

section \<open>Eviction, exactly\<close>

lemma plan_cong:
  "cm_contexts m = cm_contexts m' \<Longrightarrow> plan_sessions_to_close m departed = plan_sessions_to_close m' departed"
  "cm_contexts m = cm_contexts m' \<Longrightarrow> plan_slot_logouts m departed = plan_slot_logouts m' departed"
  unfolding plan_sessions_to_close_def backend_session_referenced_by_live_context_def
    plan_slot_logouts_def first_login_state_for_slot_excluding_authoritative_def logout_carrier_def
    any_active_backend_session_for_slot_def by (erule subst, rule refl)+

text \<open>One candidate: it stays, or it leaves with its plan.\<close>

lemma evict_candidates_ConsE:
  assumes run: "evict_candidates now (c # ids) m = (evicted, plans, m')" and wf: "hwf (cm_contexts m)"
  obtains "evict_candidates now ids m = (evicted, plans, m')"
    "\<And>ctx. hget (cm_contexts m) c = Some ctx \<Longrightarrow> \<not> is_reapable m ctx now"
  | ctx m1 ev ps where "hget (cm_contexts m) c = Some ctx" "is_reapable m ctx now"
    "hwf (cm_contexts m1)" "\<And>k. hget (cm_contexts m1) k = (if k = c then None else hget (cm_contexts m) k)"
    "\<And>x. is_reapable m1 x now = is_reapable m x now"
    "evict_candidates now ids m1 = (ev, ps, m')" "evicted = c # ev"
    "plans = \<lparr>tp_sessions_to_close = plan_sessions_to_close m1 ctx, tp_slot_logouts = plan_slot_logouts m1 ctx\<rparr> # ps"
proof (cases "\<exists>ctx. hget (cm_contexts m) c = Some ctx \<and> is_reapable m ctx now")
  case False
  then have "remove_context_if (\<lambda>ctx. is_reapable m ctx now) c m = (None, m)"
    by (auto simp: remove_context_if_def split: option.split)
  then show ?thesis using run that(1) False by simp
next
  case True
  then obtain ctx where ctx: "hget (cm_contexts m) c = Some ctx" "is_reapable m ctx now" by blast
  define m0 where "m0 = m\<lparr>cm_contexts := hdel c (cm_contexts m),
    cm_total_contexts_removed := cm_total_contexts_removed m + 1\<rparr>"
  define m1 where "m1 = release_all_logins (lc_id ctx) ctx m0"
  have rm: "remove_context_if (\<lambda>ctx. is_reapable m ctx now) c m = (Some ctx, m0)"
    using ctx by (simp add: remove_context_if_def m0_def)
  obtain ev ps m3 where rec: "evict_candidates now ids m1 = (ev, ps, m3)" by (metis prod_cases3)
  have same: "cm_contexts m0 = cm_contexts m1" by (simp add: m1_def)
  show ?thesis
  proof (rule that(2)[OF ctx])
    show "hwf (cm_contexts m1)" using wf by (simp add: m1_def m0_def)
    show "hget (cm_contexts m1) k = (if k = c then None else hget (cm_contexts m) k)" for k
      by (simp add: m1_def m0_def)
    show "is_reapable m1 x now = is_reapable m x now" for x
      by (rule is_reapable_cong) (simp_all add: m1_def m0_def)
    show "evict_candidates now ids m1 = (ev, ps, m')" "evicted = c # ev"
      "plans = \<lparr>tp_sessions_to_close = plan_sessions_to_close m1 ctx, tp_slot_logouts = plan_slot_logouts m1 ctx\<rparr> # ps"
      using run rm rec plan_cong[OF same] by (simp_all add: plan_removed_context_teardown_def m1_def[symmetric])
  qed
qed

lemma evict_candidates_table:
  assumes "evict_candidates now ids m = (evicted, plans, m')" "hwf (cm_contexts m)"
  shows "hwf (cm_contexts m')
     \<and> (\<forall>k. hget (cm_contexts m') k = (if k \<in> set evicted then None else hget (cm_contexts m) k))
     \<and> (\<forall>k\<in>set evicted. \<exists>ctx. hget (cm_contexts m) k = Some ctx \<and> is_reapable m ctx now)"
  using assms
proof (induction ids arbitrary: m evicted plans)
  case (Cons c ids)
  from Cons.prems show ?case
  proof (cases rule: evict_candidates_ConsE)
    case 1
    with Cons show ?thesis by blast
  next
    case (2 ctx m1 ev ps)
    from Cons.IH[OF 2(6,3)] 2 show ?thesis by (auto split: if_splits)
  qed
qed simp

lemma evict_candidates_closes:
  assumes "evict_candidates now ids m = (evicted, plans, m')" "manager_inv m"
  shows "h \<in> set (snd (merge_plans plans)) \<longleftrightarrow>
     (\<exists>k\<in>set evicted. \<exists>ctx. hget (cm_contexts m) k = Some ctx \<and> h \<in> context_sessions ctx)
     \<and> (\<forall>k ctx. hget (cm_contexts m') k = Some ctx \<longrightarrow> h \<notin> context_sessions ctx)"
  using assms
proof (induction ids arbitrary: m evicted plans)
  case (Cons c ids)
  from Cons.prems(1) manager_invD(1)[OF Cons.prems(2)] show ?case
  proof (cases rule: evict_candidates_ConsE)
    case 1
    with Cons show ?thesis by blast
  next
    case (2 ctx m1 ev ps)
    have inv1: "manager_inv m1" using Cons.prems(2) 2(3,4) by (simp add: manager_inv_def)
    note IH = Cons.IH[OF 2(6) inv1]
    note tab = evict_candidates_table[OF 2(6,3)]
    have dead: "(\<forall>k x. hget (cm_contexts m1) k = Some x \<longrightarrow> h \<notin> context_sessions x) \<longleftrightarrow>
        (\<forall>k x. hget (cm_contexts m') k = Some x \<longrightarrow> h \<notin> context_sessions x)
        \<and> \<not> (\<exists>k\<in>set ev. \<exists>x. hget (cm_contexts m1) k = Some x \<and> h \<in> context_sessions x)"
      using tab by (metis option.distinct(1))
    have head: "(\<exists>k\<in>set evicted. \<exists>x. hget (cm_contexts m) k = Some x \<and> h \<in> context_sessions x) \<longleftrightarrow>
        h \<in> context_sessions ctx \<or> (\<exists>k\<in>set ev. \<exists>x. hget (cm_contexts m1) k = Some x \<and> h \<in> context_sessions x)"
    proof -
      have "c \<notin> set ev" using tab 2(4)[of c] by auto
      then have "hget (cm_contexts m1) k = hget (cm_contexts m) k" if "k \<in> set ev" for k using 2(4) that by auto
      then show ?thesis using 2(1,7) by auto
    qed
    have "h \<in> set (snd (merge_plans plans)) \<longleftrightarrow>
        h \<in> set (plan_sessions_to_close m1 ctx) \<or> h \<in> set (snd (merge_plans ps))"
      by (simp add: merge_plans_def 2(8))
    then show ?thesis unfolding head IH plan_closes_iff[OF inv1] dead by blast
  qed
qed (simp add: merge_plans_def)

lemma evict_candidates_logouts:
  assumes "evict_candidates now ids m = (evicted, plans, m')" "manager_inv m"
    "l \<in> set (concat (map tp_slot_logouts plans))"
  shows "context_login m' (sl_slot l) cid = None"
  using assms
proof (induction ids arbitrary: m evicted plans)
  case (Cons c ids)
  from Cons.prems(1) manager_invD(1)[OF Cons.prems(2)] show ?case
  proof (cases rule: evict_candidates_ConsE)
    case 1
    with Cons show ?thesis by blast
  next
    case (2 ctx m1 ev ps)
    have inv1: "manager_inv m1" using Cons.prems(2) 2(3,4) by (simp add: manager_inv_def)
    show ?thesis
    proof (cases "l \<in> set (plan_slot_logouts m1 ctx)")
      case True
      have "lc_id ctx = c" using manager_invD(2)[OF Cons.prems(2) 2(1)] by simp
      then have "context_login m1 (sl_slot l) cid = None"
        using plan_logouts_unheld[OF 2(3) True] 2(4) by simp
      then show ?thesis
        using evict_candidates_table[OF 2(6,3)] by (simp add: context_login_None)
    next
      case False
      with Cons.IH[OF 2(6) inv1] Cons.prems(3) 2(8) show ?thesis by simp
    qed
  qed
qed simp


lemma evict_candidates_complete:
  assumes "evict_candidates now ids m = (evicted, plans, m')" "hwf (cm_contexts m)"
    "k \<in> set ids" "hget (cm_contexts m) k = Some x" "is_reapable m x now"
  shows "k \<in> set evicted"
  using assms
proof (induction ids arbitrary: m evicted plans)
  case (Cons c ids)
  from Cons.prems(1,2) show ?case
  proof (cases rule: evict_candidates_ConsE)
    case 1
    then have "k \<noteq> c" using Cons.prems(4,5) by auto
    with Cons.IH[OF 1(1) Cons.prems(2)] Cons.prems show ?thesis by simp
  next
    case (2 ctx m1 ev ps)
    show ?thesis
    proof (cases "k = c")
      case False
      with Cons.IH[OF 2(6,3)] Cons.prems 2(4,5) show ?thesis by (simp add: 2(7))
    qed (simp add: 2(7))
  qed
qed simp


section \<open>The holder index\<close>

text \<open>
  The index is complete when every context that holds a login on a slot is listed for it.  It may list
  more: those entries are met as stale and pruned.
\<close>

definition holders_complete :: "ContextManager \<Rightarrow> bool" where
  "holders_complete m \<longleftrightarrow>
     (\<forall>cid slot. context_login m slot cid \<noteq> None \<longrightarrow>
        (case hget (cm_slot_login_holders m) slot of None \<Rightarrow> False | Some ids \<Rightarrow> cid \<in> set ids))"

lemma scan_holders_spec:
  "scan_holders m slot excluded ids stale = (r, stale') \<Longrightarrow>
   (r = None \<longleftrightarrow> (\<forall>cid\<in>set ids. cid \<noteq> excluded \<longrightarrow> context_login m slot cid = None))
   \<and> (\<forall>st. r = Some st \<longrightarrow> (\<exists>cid\<in>set ids. cid \<noteq> excluded \<and> context_login m slot cid = Some st))
   \<and> (\<forall>cid\<in>set stale'. cid \<in> set stale \<or> context_login m slot cid = None)"
proof (induction ids arbitrary: stale)
  case (Cons c ids)
  show ?case
  proof (cases "context_login m slot c")
    case None
    with Cons.prems have "scan_holders m slot excluded ids (stale @ [c]) = (r, stale')" by simp
    from Cons.IH[OF this] None show ?thesis by auto
  next
    case (Some st)
    show ?thesis
    proof (cases "c = excluded")
      case True
      with Some Cons.prems have "scan_holders m slot excluded ids stale = (r, stale')" by simp
      from Cons.IH[OF this] True show ?thesis by auto
    next
      case False
      with Some Cons.prems have "r = Some st" "stale' = stale" by auto
      with False Some show ?thesis by auto
    qed
  qed
qed simp

lemma holders_of_released:
  "hget (cm_slot_login_holders (note_login_released c s m)) slot =
     (if slot \<noteq> s then hget (cm_slot_login_holders m) slot
      else case hget (cm_slot_login_holders m) s of
             None \<Rightarrow> None
           | Some ids \<Rightarrow> if removeAll c ids = [] then None else Some (removeAll c ids))"
  by (auto simp: note_login_released_def Let_def split: option.splits)

lemma release_complete:
  assumes "holders_complete m" "context_login m s c = None"
  shows "holders_complete (note_login_released c s m)"
proof -
  have login: "context_login (note_login_released c s m) = context_login m"
    by (simp add: context_login_def fun_eq_iff)
  have "case hget (cm_slot_login_holders (note_login_released c s m)) slot of None \<Rightarrow> False | Some ids \<Rightarrow> cid \<in> set ids"
    if "context_login m slot cid \<noteq> None" for cid slot
  proof -
    have old: "case hget (cm_slot_login_holders m) slot of None \<Rightarrow> False | Some ids \<Rightarrow> cid \<in> set ids"
      using assms(1) that by (simp add: holders_complete_def)
    show ?thesis
    proof (cases "slot = s")
      case True
      then have "cid \<noteq> c" using that assms(2) by auto
      obtain ids where ids: "hget (cm_slot_login_holders m) s = Some ids" "cid \<in> set ids"
        using old True by (auto split: option.splits)
      then have "cid \<in> set (removeAll c ids)" using \<open>cid \<noteq> c\<close> by simp
      then have "removeAll c ids \<noteq> []" by (metis empty_iff empty_set)
      then show ?thesis using ids True \<open>cid \<noteq> c\<close> by (simp add: holders_of_released)
    qed (use old in \<open>simp add: holders_of_released\<close>)
  qed
  then show ?thesis by (simp add: holders_complete_def login)
qed

lemma release_list_complete:
  "holders_complete m \<Longrightarrow> (\<forall>c\<in>set cs. context_login m s c = None) \<Longrightarrow>
   holders_complete (fold (\<lambda>c. note_login_released c s) cs m)"
proof (induction cs arbitrary: m)
  case (Cons c cs)
  have "context_login (note_login_released c s m) = context_login m"
    by (simp add: context_login_def fun_eq_iff)
  with Cons release_complete[of m s c] show ?case by simp
qed simp

section \<open>Any resolvable session\<close>

lemma any_active_sound:
  assumes "any_active_backend_session_for_slot m slot = Some h"
  shows "\<exists>cid ctx vh. (cid, ctx) \<in> set (cm_contexts m) \<and> (vh, slot) \<in> set (lc_session_slots ctx)
      \<and> handle_map_resolve (lc_session_handles ctx) vh = Some (BackendHandle h)"
proof -
  obtain cid ctx where c: "(cid, ctx) \<in> set (cm_contexts m)"
    and b: "Option.bind (find (\<lambda>(_, s). s = slot) (lc_session_slots ctx))
         (\<lambda>(vh, _). map_option bh_raw (handle_map_resolve (lc_session_handles ctx) vh)) = Some h"
    using find_map_Some[OF assms[unfolded any_active_backend_session_for_slot_def]] by auto
  then obtain vh s bh where f: "find (\<lambda>(_, s). s = slot) (lc_session_slots ctx) = Some (vh, s)"
    and r: "handle_map_resolve (lc_session_handles ctx) vh = Some bh" "h = bh_raw bh"
    by (auto simp: bind_eq_Some_conv)
  have "(vh, slot) \<in> set (lc_session_slots ctx)" using f by (auto simp: find_Some_iff in_set_conv_nth)
  then show ?thesis using c r by auto
qed

text \<open>
  The converse fails: the search looks at one session of the slot per context, and when that one has
  a close in flight an active session of the same context is overlooked.
\<close>

definition half_closed :: LogicalClientInstance where
  "half_closed =
     (let c1 = snd (register_session (BackendHandle 11) (BackendSlotId 5) (client_new ''c'' 0 None None));
          c2 = snd (register_session (BackendHandle 12) (BackendSlotId 5) c1)
      in c2\<lparr>lc_session_handles := snd (handle_map_suspend (VirtualHandle 1) (lc_session_handles c2))\<rparr>)"

definition half_closed_manager :: ContextManager where
  "half_closed_manager = (context_manager_new 1000 4)\<lparr>cm_contexts := [(''c'', half_closed)]\<rparr>"

lemmas half_closed_eval = half_closed_manager_def half_closed_def context_manager_new_def client_new_def
  register_session_def handle_map_insert_def handle_map_new_def handle_map_suspend_def detach_reverse_def
  handle_map_resolve_def


section \<open>Who releases the backend login\<close>

lemma logout_via_released:
  assumes "logout_via be carriers s = (True, s')"
  shows "\<exists>via\<in>set carriers. \<exists>b b'. be_logout be via b = (Inr (), b')"
  using assms
proof (induction carriers arbitrary: s)
  case (Cons via carriers)
  obtain r s1 where call: "call_backend (be_logout be via) s = (r, s1)"
    by (cases "call_backend (be_logout be via) s")
  show ?case
  proof (cases "\<exists>x. r = Inr (Inr x)")
    case True
    with call have "call_backend (be_logout be via) s = (Inr (Inr ()), s1)" by auto
    from call_backend_OkE[OF this] show ?thesis by (metis list.set_intros(1))
  next
    case False
    with Cons call have "logout_via be carriers s1 = (True, s')"
      by (auto split: sum.splits if_splits)
    from Cons.IH[OF this] show ?thesis by simp
  qed
qed simp

lemma transient_released:
  assumes "last_holder_logout_via_transient_carrier be unwound slot login s = (True, s')"
  shows "\<exists>via b b'. be_logout be via b = (Inr (), b')"
proof -
  define op where "op = transient_carrier be slot
    (if login = So then session_flags_or RW_SESSION SERIAL_SESSION else SERIAL_SESSION)"
  obtain led s1 where "call_backend op s = (Inr (Inr (Settled (Inr ()), led)), s1)"
    using assms unfolding last_holder_logout_via_transient_carrier_def op_def[symmetric] Let_def
    by (auto split: prod.splits sum.splits)
  from call_backend_OkE[OF this] obtain b0 b where "op b0 = (Inr (Settled (Inr ()), led), b)" by metis
  then show ?thesis
    unfolding op_def transient_carrier_def by (auto split: prod.splits sum.splits)
qed

lemma carriers_contexts:
  "cm_contexts m = cm_contexts m' \<Longrightarrow> logout_carriers m slot p = logout_carriers m' slot p"
  by (simp add: logout_carriers_def any_active_backend_session_for_slot_def)

section \<open>Claims\<close>

text \<open>
  C13. The reaper takes exactly the contexts that may be reaped and closes exactly the backend
  sessions that are orphaned by it: those of the evicted contexts that no surviving context still
  references, none that a survivor uses and none left over.  A slot is logged out only if no survivor
  holds a login on it.
\<close>

theorem eviction_exact:
  assumes "manager_inv m" "evict_candidates now (collect_expired_context_ids m now) m = (evicted, plans, m')"
  shows "(\<forall>cid. cid \<in> set evicted \<longleftrightarrow> (\<exists>ctx. hget (cm_contexts m) cid = Some ctx \<and> is_reapable m ctx now))
     \<and> (\<forall>cid. hget (cm_contexts m') cid = (if cid \<in> set evicted then None else hget (cm_contexts m) cid))
     \<and> (\<forall>h. h \<in> set (snd (merge_plans plans)) \<longleftrightarrow>
           (\<exists>cid\<in>set evicted. \<exists>ctx. hget (cm_contexts m) cid = Some ctx \<and> h \<in> context_sessions ctx)
           \<and> \<not> backend_session_referenced_by_live_context m' (BackendHandle h))
     \<and> (\<forall>l\<in>set (concat (map tp_slot_logouts plans)). \<not> slot_login_held m' (sl_slot l))"
proof -
  note wf = manager_invD(1)[OF assms(1)]
  note tab = evict_candidates_table[OF assms(2) wf]
  have "cid \<in> set evicted" if "hget (cm_contexts m) cid = Some ctx" "is_reapable m ctx now" for cid ctx
  proof -
    have "cid \<in> set (collect_expired_context_ids m now)"
      using that wf by (force simp: collect_expired_context_ids_def hget_eq_Some_iff)
    then show ?thesis using evict_candidates_complete[OF assms(2) wf _ that] by simp
  qed
  then have who: "cid \<in> set evicted \<longleftrightarrow> (\<exists>ctx. hget (cm_contexts m) cid = Some ctx \<and> is_reapable m ctx now)" for cid
    using tab by blast
  have inv': "manager_inv m'" using assms(1) tab by (simp add: manager_inv_def)
  have "\<not> slot_login_held m' (sl_slot l)" if "l \<in> set (concat (map tp_slot_logouts plans))" for l
    using evict_candidates_logouts[OF assms(2,1) that] any_login_iff[of m'] tab by (simp add: slot_login_held_def)
  then show ?thesis
    using who tab evict_candidates_closes[OF assms(2,1)] session_referenced_iff[OF inv'] by blast
qed

definition reaped_client :: LogicalClientInstance where
  "reaped_client = snd (register_session (BackendHandle 11) (BackendSlotId 5) (client_new ''c'' 0 None None))"

definition reaped_manager :: ContextManager where
  "reaped_manager = (context_manager_new 10 4)\<lparr>cm_contexts := [(''c'', reaped_client)],
     cm_max_context_lifetime := 20\<rparr>"

lemma reaped_manager_inv: "manager_inv reaped_manager"
proof -
  have "client_inv reaped_client" "lc_id reaped_client = ''c''"
    by (simp_all add: reaped_client_def register_session_def client_new_def handle_map_insert_def
        handle_map_new_def client_inv_def handle_map_inv_def issued_def hkeys_def hwf_def Let_def)
  then show ?thesis by (simp add: manager_inv_def reaped_manager_def hwf_def)
qed

theorem eviction_exact_witness:
  "\<exists>plans m'. evict_candidates 100 (collect_expired_context_ids reaped_manager 100) reaped_manager = ([''c''], plans, m')
     \<and> 11 \<in> set (snd (merge_plans plans))"
proof -
  obtain ev plans m' where r:
    "evict_candidates 100 (collect_expired_context_ids reaped_manager 100) reaped_manager = (ev, plans, m')"
    by (metis prod_cases3)
  have "ev = [''c'']"
    using r by (simp add: collect_expired_context_ids_def is_reapable_def is_transport_dead_def
        reaped_manager_def reaped_client_def context_manager_new_def client_new_def register_session_def
        handle_map_insert_def handle_map_new_def remove_context_if_def plan_removed_context_teardown_def
        live_connection_bindings_def Let_def split: prod.splits)
  moreover have "11 \<in> context_sessions reaped_client"
    by (simp add: context_sessions_def reaped_client_def register_session_def client_new_def
        handle_map_insert_def handle_map_new_def handle_map_backend_handles_def hvalues_def Let_def)
  moreover have "hget (cm_contexts reaped_manager) ''c'' = Some reaped_client"
    "hget (cm_contexts reaped_manager) k = Some x \<longrightarrow> k = ''c''" for k x
    by (simp_all add: reaped_manager_def)
  ultimately show ?thesis
    using r eviction_exact[OF reaped_manager_inv r] session_referenced_iff[of m' 11] reaped_manager_inv
    by (metis (no_types, lifting) list.set_intros(1) manager_inv_def option.distinct(1) evict_candidates_table)
qed



text \<open>A library in which every call succeeds.\<close>

definition easy_backend :: "nat Pkcs11Backend" where
  "easy_backend = \<lparr>be_open_session = (\<lambda>_ _ b. (Inr 1, b)), be_close_session = (\<lambda>_ b. (Inr (), b)),
     be_login = (\<lambda>_ _ _ b. (Inr (), b)), be_logout = (\<lambda>_ b. (Inr (), b + 1)),
     be_get_slot_list = (\<lambda>_ b. (Inr [], b)), be_get_token_info = (\<lambda>_ b. (Inl CKR_TOKEN_NOT_PRESENT, b)),
     be_get_attribute_value = (\<lambda>_ _ t b. ((Inl CKR_ATTRIBUTE_TYPE_INVALID, t), b)),
     be_destroy_object = (\<lambda>_ _ b. (Inr (), b))\<rparr>"

definition idle_run :: "nat run" where
  "idle_run = (\<lparr>w_mgr = context_manager_new 10 4, w_backend = 0, w_quota = None, w_now = 0\<rparr>,
     \<lparr>sc_env = [], sc_fates = []\<rparr>)"


text \<open>
  The holder index is equivalent to the full scan: as long as every holder is indexed, the
  indexed search finds a holder other than the caller exactly when a scan of all contexts does, and
  the pruning it does keeps every holder indexed.
\<close>

theorem holder_index_equivalent:
  assumes "hwf (cm_contexts m)" "holders_complete m"
  shows "(fst (first_login_state_for_slot_excluding slot cid m) = None) =
           (first_login_state_for_slot_excluding_authoritative m slot cid = None)
       \<and> holders_complete (snd (first_login_state_for_slot_excluding slot cid m))"
proof (cases "slot_login_holder_ids m slot")
  case None
  then have "context_login m slot c = None" for c
    using assms(2) unfolding holders_complete_def slot_login_holder_ids_def by (metis option.simps(4))
  then show ?thesis using None assms authoritative_None_iff[OF assms(1)]
    by (simp add: first_login_state_for_slot_excluding_def)
next
  case (Some ids)
  obtain r stale where scan: "scan_holders m slot cid ids [] = (r, stale)"
    by (cases "scan_holders m slot cid ids []")
  note spec = scan_holders_spec[OF scan]
  have all: "c \<in> set ids" if "context_login m slot c \<noteq> None" for c
    using assms(2) that Some by (fastforce simp: holders_complete_def slot_login_holder_ids_def)
  have "r = None \<longleftrightarrow> (\<forall>c. c \<noteq> cid \<longrightarrow> context_login m slot c = None)"
    using spec all by blast
  moreover have "holders_complete (fold (\<lambda>c. note_login_released c slot) stale m)"
    using spec by (intro release_list_complete[OF assms(2)]) auto
  ultimately show ?thesis
    using Some scan assms(2) authoritative_None_iff[OF assms(1)]
    by (cases r) (simp_all add: first_login_state_for_slot_excluding_def)
qed

theorem holder_index_equivalent_witness:
  "fst (first_login_state_for_slot_excluding (BackendSlotId 1) ''a'' (context_manager_new 10 4)) = None"
  using holder_index_equivalent[of "context_manager_new 10 4" "BackendSlotId 1" "''a''"]
  by (simp add: holders_complete_def context_login_def context_manager_new_def
      first_login_state_for_slot_excluding_authoritative_def)

end
