(* ===== verification/Close_Session.thy ===== *)
theory Close_Session
  imports Context_Login
begin

text \<open>
  The two-phase close of a session, from \<^verbatim>\<open>crates/server/src/server/context_manager.rs\<close>:
  \<^verbatim>\<open>begin_close_session_with_guard\<close> suspends the virtual handle and hands out a transition, which is
  moved into the blocking call and completes exactly once, by \<^verbatim>\<open>settle\<close> with the library's answer or by
  being dropped.  The theory shows where each of these paths leaves the handle.

  An operation guard the transition inherits is shared with the dispatcher and stays counted as
  long as one of them holds it; the model counts the guard the transition takes for itself.
\<close>

datatype CloseSessionBeginError = ContextMissing | SessionMissing

datatype CloseSessionCompletion = Terminal | Transient | Ambiguous

record CloseSessionTransition =
  ct_context_id :: ClientContextId
  ct_virtual_session :: VirtualHandle
  ct_backend_handle :: BackendHandle
  ct_own_guard :: bool
  ct_started :: bool
  ct_settled :: bool

text \<open>\<open>inherited\<close> is the context of the guard the caller passes, if any.\<close>

definition begin_close_session_with_guard ::
  "instant \<Rightarrow> ClientContextId \<Rightarrow> VirtualHandle \<Rightarrow> ClientContextId option \<Rightarrow> ContextManager
   \<Rightarrow> (CloseSessionBeginError + CloseSessionTransition) \<times> ContextManager" where
  "begin_close_session_with_guard now cid vh inherited m =
     (let own = (inherited \<noteq> Some cid);
          (began, m1) = (if own then begin_operation cid m else (True, m));
          release = (\<lambda>m. if own then drop_operation_guard now cid m else m)
      in if \<not> began then (Inl ContextMissing, m1)
         else case hget (cm_contexts m1) cid of
                None \<Rightarrow> (Inl ContextMissing, release m1)
              | Some ctx \<Rightarrow>
                  (case handle_map_suspend vh (lc_session_handles ctx) of
                     (None, _) \<Rightarrow> (Inl SessionMissing, release m1)
                   | (Some b, sh) \<Rightarrow>
                       (Inr \<lparr>ct_context_id = cid, ct_virtual_session = vh, ct_backend_handle = b,
                             ct_own_guard = own, ct_started = False, ct_settled = False\<rparr>,
                        m1\<lparr>cm_contexts := hput cid (ctx\<lparr>lc_session_handles := sh\<rparr>) (cm_contexts m1)\<rparr>)))"

definition complete_close_session ::
  "ClientContextId \<Rightarrow> VirtualHandle \<Rightarrow> BackendHandle \<Rightarrow> CloseSessionCompletion \<Rightarrow> ContextManager \<Rightarrow> ContextManager" where
  "complete_close_session cid vh expected_backend completion m =
     (case hget (cm_contexts m) cid of
        None \<Rightarrow> m
      | Some ctx \<Rightarrow>
          if handle_map_suspended_backend (lc_session_handles ctx) vh \<noteq> Some expected_backend then m
          else case completion of
                 Terminal \<Rightarrow>
                   let slot = hget (lc_session_slots ctx) vh;
                       ctx' = snd (remove_session vh ctx);
                       m' = m\<lparr>cm_contexts := hput cid ctx' (cm_contexts m)\<rparr>
                   in (case slot of
                         None \<Rightarrow> m'
                       | Some s \<Rightarrow> if \<not> has_session_for_slot ctx' s then note_login_released cid s m' else m')
               | Transient \<Rightarrow>
                   let (ok, sh) = handle_map_reactivate_suspended vh expected_backend (lc_session_handles ctx);
                       ctx' = ctx\<lparr>lc_session_handles := sh\<rparr>
                   in m\<lparr>cm_contexts := hput cid (if ok then ctx' else forget_message_operations vh ctx') (cm_contexts m)\<rparr>
               | Ambiguous \<Rightarrow>
                   m\<lparr>cm_contexts := hput cid (forget_message_operations vh ctx) (cm_contexts m)\<rparr>)"

definition close_completion :: "unit CkResult \<Rightarrow> CloseSessionCompletion" where
  "close_completion result =
     (case result of
        Inr _ \<Rightarrow> Terminal
      | Inl error \<Rightarrow>
          if error = CKR_SESSION_CLOSED \<or> error = CKR_SESSION_HANDLE_INVALID then Terminal
          else if error = CKR_DEVICE_ERROR then Ambiguous
          else Transient)"

definition transition_mark_started :: "CloseSessionTransition \<Rightarrow> CloseSessionTransition" where
  "transition_mark_started t = t\<lparr>ct_started := True\<rparr>"

definition transition_settle ::
  "unit CkResult \<Rightarrow> CloseSessionTransition \<times> ContextManager \<Rightarrow> CloseSessionTransition \<times> ContextManager" where
  "transition_settle result = (\<lambda>(t, m).
     (t\<lparr>ct_settled := True\<rparr>,
      complete_close_session (ct_context_id t) (ct_virtual_session t) (ct_backend_handle t)
        (close_completion result) m))"

text \<open>The drop: an unsettled transition completes first, then its own guard is released.\<close>

definition transition_drop :: "instant \<Rightarrow> CloseSessionTransition \<Rightarrow> ContextManager \<Rightarrow> ContextManager" where
  "transition_drop now t m =
     (let m1 = (if ct_settled t then m
                else complete_close_session (ct_context_id t) (ct_virtual_session t) (ct_backend_handle t)
                       (if ct_started t then Ambiguous else Transient) m)
      in if ct_own_guard t then drop_operation_guard now (ct_context_id t) m1 else m1)"

text \<open>The blocking closure of a close, for one transition.\<close>

definition run_close ::
  "instant \<Rightarrow> (BackendHandle \<Rightarrow> 'b \<Rightarrow> unit CkResult \<times> 'b) \<Rightarrow> CloseSessionTransition \<Rightarrow> ContextManager \<times> 'b
   \<Rightarrow> unit CkResult \<times> ContextManager \<times> 'b" where
  "run_close now close t mb =
     (let t1 = transition_mark_started t;
          (result, b) = close (ct_backend_handle t1) (snd mb);
          (t2, m) = transition_settle result (t1, fst mb)
      in (result, transition_drop now t2 m, b))"

section \<open>Where a close leaves the handle\<close>

text \<open>The three states of a session handle a client can observe.\<close>

datatype session_fate = SessionLive BackendHandle | SessionSuspended BackendHandle | SessionGone

definition handle_fate :: "HandleMap \<Rightarrow> VirtualHandle \<Rightarrow> session_fate" where
  "handle_fate hm v =
     (case handle_map_resolve hm v of
        Some b \<Rightarrow> SessionLive b
      | None \<Rightarrow> (case handle_map_suspended_backend hm v of
                  Some b \<Rightarrow> SessionSuspended b
                | None \<Rightarrow> SessionGone))"

definition session_fate_of :: "ContextManager \<Rightarrow> ClientContextId \<Rightarrow> VirtualHandle \<Rightarrow> session_fate" where
  "session_fate_of m cid vh =
     (case hget (cm_contexts m) cid of
        None \<Rightarrow> SessionGone
      | Some ctx \<Rightarrow> handle_fate (lc_session_handles ctx) vh)"

lemma handle_fate_simps:
  assumes "handle_map_inv hm"
  shows "handle_fate hm v = SessionLive b \<longleftrightarrow> hget (hm_virtual_to_backend hm) v = Some b"
    "handle_fate hm v = SessionSuspended b \<longleftrightarrow> hget (hm_suspended hm) v = Some b"
  using handle_map_inv_suspended[OF assms, of v]
  by (auto simp: handle_fate_def handle_map_resolve_def handle_map_suspended_backend_def split: option.splits)

lemma handle_fate_raw:
  "handle_fate hm v =
     (case hget (hm_virtual_to_backend hm) v of
        Some b \<Rightarrow> SessionLive b
      | None \<Rightarrow> (case hget (hm_suspended hm) v of Some b \<Rightarrow> SessionSuspended b | None \<Rightarrow> SessionGone))"
  unfolding handle_fate_def handle_map_resolve_def handle_map_suspended_backend_def ..

lemma handle_fate_suspend:
  assumes "handle_map_inv hm" "hget (hm_virtual_to_backend hm) vh = Some b"
  shows "handle_fate (snd (handle_map_suspend vh hm)) v = (if v = vh then SessionSuspended b else handle_fate hm v)"
  using assms by (simp add: handle_map_suspend_live handle_fate_raw cong: option.case_cong)

lemma handle_fate_remove:
  assumes "handle_map_inv hm" "hget (hm_suspended hm) vh = Some b"
  shows "handle_fate (snd (handle_map_remove vh hm)) v = (if v = vh then SessionGone else handle_fate hm v)"
  using assms handle_map_inv_suspended[OF assms] by (simp add: handle_map_remove_suspended handle_fate_raw cong: option.case_cong)

lemma handle_fate_reactivate:
  assumes "handle_map_inv hm" "hget (hm_suspended hm) vh = Some b"
  shows "handle_fate (snd (handle_map_reactivate_suspended vh b hm)) v =
     (if v = vh \<and> hget (hm_backend_to_virtual hm) b = None then SessionLive b else handle_fate hm v)"
proof (cases "hget (hm_backend_to_virtual hm) b = None")
  case True
  then show ?thesis using assms by (simp add: handle_map_reactivate_ok handle_fate_raw cong: option.case_cong)
next
  case False
  then show ?thesis using handle_map_reactivate_refused[OF assms(1), of vh b] by auto
qed

lemma fate_contexts:
  "cm_contexts m = cm_contexts m' \<Longrightarrow> session_fate_of m = session_fate_of m'"
  by (simp add: session_fate_of_def fun_eq_iff)

lemma fate_update_context:
  assumes "\<And>ctx. lc_session_handles (f ctx) = lc_session_handles ctx"
  shows "session_fate_of (update_context cid f m) = session_fate_of m"
  using assms by (auto simp: session_fate_of_def update_context_def fun_eq_iff split: option.split)

lemma fate_drop_guard [simp]: "session_fate_of (drop_operation_guard now cid m) = session_fate_of m"
  unfolding drop_operation_guard_def by (rule fate_update_context) (simp add: client_touch_def)

lemma fate_begin_operation [simp]: "session_fate_of (snd (begin_operation cid m)) = session_fate_of m"
  by (auto simp: begin_operation_def intro: fate_update_context split: option.split)

lemma fate_of_put:
  "session_fate_of (m\<lparr>cm_contexts := hput cid ctx (cm_contexts m)\<rparr>) c v =
     (if c = cid then handle_fate (lc_session_handles ctx) v else session_fate_of m c v)"
  by (simp add: session_fate_of_def)

lemma update_context_inv:
  assumes "manager_inv m" "\<And>ctx. client_inv ctx \<Longrightarrow> client_inv (f ctx) \<and> lc_id (f ctx) = lc_id ctx"
  shows "manager_inv (update_context cid f m)"
  using assms by (auto simp: manager_inv_def update_context_def split: option.split if_splits)

lemma client_inv_counters [simp]:
  "client_inv (lc_in_flight_update f ctx) = client_inv ctx"
  "client_inv (lc_last_active_update g ctx) = client_inv ctx"
  by (simp_all add: client_inv_def)

lemma guard_inv:
  "manager_inv m \<Longrightarrow> manager_inv (drop_operation_guard now cid m)"
  "manager_inv m \<Longrightarrow> manager_inv (snd (begin_operation cid m))"
  by (auto simp: drop_operation_guard_def begin_operation_def client_touch_def
      intro!: update_context_inv split: option.split)

lemma suspend_client_inv:
  assumes "client_inv ctx" "handle_map_suspend vh (lc_session_handles ctx) = (r, sh)"
  shows "client_inv (ctx\<lparr>lc_session_handles := sh\<rparr>)"
  using assms handle_map_suspend_inv[of "lc_session_handles ctx" vh]
    handle_map_suspend_binding[of vh "lc_session_handles ctx"]
  by (simp add: client_inv_iff)

lemma reactivate_client_inv:
  assumes "client_inv ctx" "handle_map_reactivate_suspended vh b (lc_session_handles ctx) = (r, sh)"
  shows "client_inv (ctx\<lparr>lc_session_handles := sh\<rparr>)"
  using assms handle_map_reactivate_inv[of "lc_session_handles ctx" vh b]
    handle_map_reactivate_binding[of "lc_session_handles ctx" vh b]
  by (simp add: client_inv_iff)

lemma forget_client_inv: "client_inv ctx \<Longrightarrow> client_inv (forget_message_operations vh ctx)"
  by (simp add: client_inv_iff forget_message_operations_def)

lemma manager_inv_cong: "cm_contexts m = cm_contexts m' \<Longrightarrow> manager_inv m = manager_inv m'"
  by (simp add: manager_inv_def)

lemma put_context_inv:
  "manager_inv m \<Longrightarrow> client_inv ctx \<Longrightarrow> lc_id ctx = cid \<Longrightarrow>
   manager_inv (m\<lparr>cm_contexts := hput cid ctx (cm_contexts m)\<rparr>)"
  by (auto simp: manager_inv_def)


lemma manager_inv_handles:
  "manager_inv m \<Longrightarrow> hget (cm_contexts m) cid = Some ctx \<Longrightarrow> handle_map_inv (lc_session_handles ctx)"
  by (simp add: manager_inv_def client_inv_iff)

lemma fate_suspended:
  assumes "manager_inv m"
  shows "session_fate_of m cid vh = SessionSuspended b \<longleftrightarrow>
    (\<exists>ctx. hget (cm_contexts m) cid = Some ctx \<and> hget (hm_suspended (lc_session_handles ctx)) vh = Some b)"
  using handle_fate_simps(2)[OF manager_inv_handles[OF assms]]
  by (auto simp: session_fate_of_def split: option.split)

lemma begin_close_InrE:
  assumes "begin_close_session_with_guard now cid vh inherited m = (Inr t, m')"
  obtains m1 ctx b sh where "m1 = (if inherited \<noteq> Some cid then snd (begin_operation cid m) else m)"
    "hget (cm_contexts m1) cid = Some ctx" "handle_map_suspend vh (lc_session_handles ctx) = (Some b, sh)"
    "t = \<lparr>ct_context_id = cid, ct_virtual_session = vh, ct_backend_handle = b,
          ct_own_guard = (inherited \<noteq> Some cid), ct_started = False, ct_settled = False\<rparr>"
    "m' = m1\<lparr>cm_contexts := hput cid (ctx\<lparr>lc_session_handles := sh\<rparr>) (cm_contexts m1)\<rparr>"
  using assms unfolding begin_close_session_with_guard_def Let_def
  by (cases "begin_operation cid m") (auto split: if_splits option.splits prod.splits)

lemma begin_close_spec:
  assumes inv: "manager_inv m" and run: "begin_close_session_with_guard now cid vh inherited m = (Inr t, m')"
  shows "manager_inv m' \<and> ct_context_id t = cid \<and> ct_virtual_session t = vh \<and> \<not> ct_started t \<and> \<not> ct_settled t
    \<and> session_fate_of m cid vh = SessionLive (ct_backend_handle t)
    \<and> session_fate_of m' c v =
        (if c = cid \<and> v = vh then SessionSuspended (ct_backend_handle t) else session_fate_of m c v)"
  using run
proof (cases rule: begin_close_InrE)
  case (1 m1 ctx b sh)
  have inv1: "manager_inv m1" using inv guard_inv(2) by (simp add: 1(1))
  have fate1: "session_fate_of m1 = session_fate_of m" by (simp add: 1(1))
  have cinv: "client_inv ctx" and cid: "lc_id ctx = cid" using manager_invD(2)[OF inv1 1(2)] by auto
  have hinv: "handle_map_inv (lc_session_handles ctx)" using cinv by (simp add: client_inv_iff)
  have live: "hget (hm_virtual_to_backend (lc_session_handles ctx)) vh = Some b"
    using 1(3) by (auto simp: handle_map_suspend_def Let_def split: option.splits)
  have "manager_inv m'"
    unfolding 1(5) using put_context_inv[OF inv1 suspend_client_inv[OF cinv 1(3)]] cid by simp
  moreover have "session_fate_of m1 cid vh = SessionLive b"
    using 1(2) live by (simp add: session_fate_of_def handle_fate_raw)
  moreover have "session_fate_of m' c v = (if c = cid \<and> v = vh then SessionSuspended b else session_fate_of m1 c v)"
    unfolding 1(5) fate_of_put using 1(2,3) handle_fate_suspend[OF hinv live, of v]
    by (auto simp: session_fate_of_def)
  ultimately show ?thesis using fate1 by (simp add: 1(4))
qed

lemma complete_stale:
  assumes "manager_inv m" "session_fate_of m cid vh \<noteq> SessionSuspended b"
  shows "complete_close_session cid vh b k m = m"
  using assms by (auto simp: complete_close_session_def fate_suspended handle_map_suspended_backend_def
      split: option.split)

text \<open>Whether the backend handle has meanwhile been bound to a newer virtual handle.\<close>

definition rebound :: "ContextManager \<Rightarrow> ClientContextId \<Rightarrow> BackendHandle \<Rightarrow> bool" where
  "rebound m cid b \<longleftrightarrow> (\<exists>w. session_fate_of m cid w = SessionLive b)"

lemma rebound_iff:
  assumes "handle_map_inv (lc_session_handles ctx)" "hget (cm_contexts m) cid = Some ctx"
  shows "rebound m cid b \<longleftrightarrow> hget (hm_backend_to_virtual (lc_session_handles ctx)) b \<noteq> None"
proof -
  have "session_fate_of m cid w = SessionLive b \<longleftrightarrow> hget (hm_virtual_to_backend (lc_session_handles ctx)) w = Some b" for w
    using assms by (simp add: session_fate_of_def handle_fate_simps)
  then have eq: "rebound m cid b \<longleftrightarrow> (\<exists>w. hget (hm_virtual_to_backend (lc_session_handles ctx)) w = Some b)"
    by (simp only: rebound_def)
  show ?thesis
  proof
    assume "rebound m cid b"
    then obtain w where "hget (hm_virtual_to_backend (lc_session_handles ctx)) w = Some b" using eq by blast
    from handle_map_inv_reverse[OF assms(1) this]
    show "hget (hm_backend_to_virtual (lc_session_handles ctx)) b \<noteq> None" by simp
  next
    assume "hget (hm_backend_to_virtual (lc_session_handles ctx)) b \<noteq> None"
    then obtain w where "hget (hm_backend_to_virtual (lc_session_handles ctx)) b = Some w" by blast
    from handle_map_inv_forward[OF assms(1) this] show "rebound m cid b" using eq by blast
  qed
qed

lemma live_fate_inj:
  assumes "manager_inv m" "session_fate_of m cid v = SessionLive b" "session_fate_of m cid w = SessionLive b"
  shows "v = w"
proof -
  obtain ctx where ctx: "hget (cm_contexts m) cid = Some ctx" "handle_fate (lc_session_handles ctx) v = SessionLive b"
    "handle_fate (lc_session_handles ctx) w = SessionLive b"
    using assms(2,3) by (auto simp: session_fate_of_def split: option.splits)
  note inv = manager_inv_handles[OF assms(1) ctx(1)]
  show ?thesis
    using inverse_maps_inj[OF handle_map_inv_inverse[OF inv]] ctx(2,3) unfolding handle_fate_simps(1)[OF inv] by blast
qed

definition completed_fate :: "CloseSessionCompletion \<Rightarrow> bool \<Rightarrow> BackendHandle \<Rightarrow> session_fate" where
  "completed_fate k was_rebound b =
     (case k of
        Terminal \<Rightarrow> SessionGone
      | Transient \<Rightarrow> if was_rebound then SessionSuspended b else SessionLive b
      | Ambiguous \<Rightarrow> SessionSuspended b)"

lemma complete_contexts:
  assumes "hget (cm_contexts m) cid = Some ctx" "hget (hm_suspended (lc_session_handles ctx)) vh = Some b"
    "client_inv ctx"
  obtains ctx' where "cm_contexts (complete_close_session cid vh b k m) = hput cid ctx' (cm_contexts m)"
    "client_inv ctx'" "lc_id ctx' = lc_id ctx"
    "lc_session_handles ctx' =
       (case k of Terminal \<Rightarrow> snd (handle_map_remove vh (lc_session_handles ctx))
        | Transient \<Rightarrow> snd (handle_map_reactivate_suspended vh b (lc_session_handles ctx))
        | Ambiguous \<Rightarrow> lc_session_handles ctx)"
proof (cases k)
  case Terminal
  then show ?thesis
    using assms remove_session_inv[OF assms(3), of vh] that[of "snd (remove_session vh ctx)"]
    by (simp add: complete_close_session_def handle_map_suspended_backend_def Let_def split: option.splits)
next
  case Transient
  obtain ok sh where r: "handle_map_reactivate_suspended vh b (lc_session_handles ctx) = (ok, sh)" by fastforce
  let ?c = "ctx\<lparr>lc_session_handles := sh\<rparr>"
  show ?thesis
  proof (rule that[of "if ok then ?c else forget_message_operations vh ?c"])
    show "client_inv (if ok then ?c else forget_message_operations vh ?c)"
      using reactivate_client_inv[OF assms(3) r] forget_client_inv by auto
  qed (use assms r Transient in \<open>simp_all add: complete_close_session_def handle_map_suspended_backend_def
      forget_message_operations_def\<close>)
next
  case Ambiguous
  then show ?thesis
    using assms forget_client_inv[OF assms(3), of vh] that[of "forget_message_operations vh ctx"]
    by (simp add: complete_close_session_def handle_map_suspended_backend_def forget_message_operations_def)
qed

lemma complete_spec:
  assumes inv: "manager_inv m" and susp: "session_fate_of m cid vh = SessionSuspended b"
  shows "manager_inv (complete_close_session cid vh b k m)
    \<and> session_fate_of (complete_close_session cid vh b k m) c v =
       (if c = cid \<and> v = vh then completed_fate k (rebound m cid b) b else session_fate_of m c v)"
proof -
  obtain ctx where ctx: "hget (cm_contexts m) cid = Some ctx"
    and s: "hget (hm_suspended (lc_session_handles ctx)) vh = Some b"
    using susp fate_suspended[OF inv] by blast
  have cinv: "client_inv ctx" and id: "lc_id ctx = cid" using manager_invD(2)[OF inv ctx] by auto
  have hinv: "handle_map_inv (lc_session_handles ctx)" using cinv by (simp add: client_inv_iff)
  obtain ctx' where c': "cm_contexts (complete_close_session cid vh b k m) = hput cid ctx' (cm_contexts m)"
    "client_inv ctx'" "lc_id ctx' = lc_id ctx"
    and hs: "lc_session_handles ctx' =
       (case k of Terminal \<Rightarrow> snd (handle_map_remove vh (lc_session_handles ctx))
        | Transient \<Rightarrow> snd (handle_map_reactivate_suspended vh b (lc_session_handles ctx))
        | Ambiguous \<Rightarrow> lc_session_handles ctx)"
    using complete_contexts[OF ctx s cinv, of k] by blast
  have "manager_inv (complete_close_session cid vh b k m)"
  proof -
    have "manager_inv (m\<lparr>cm_contexts := hput cid ctx' (cm_contexts m)\<rparr>)"
      using put_context_inv[OF inv c'(2)] id c'(3) by simp
    then show ?thesis by (rule manager_inv_cong[THEN iffD1, rotated]) (simp add: c'(1))
  qed
  moreover have "handle_fate (lc_session_handles ctx') v =
      (if v = vh then completed_fate k (rebound m cid b) b else handle_fate (lc_session_handles ctx) v)"
  proof -
    have self: "handle_fate (lc_session_handles ctx) vh = SessionSuspended b"
      using handle_fate_simps(2)[OF hinv] s by blast
    show ?thesis
      by (cases k) (auto simp: hs completed_fate_def self handle_fate_remove[OF hinv s]
          handle_fate_reactivate[OF hinv s] rebound_iff[OF hinv ctx])
  qed
  ultimately show ?thesis using c' ctx by (auto simp: session_fate_of_def)
qed


lemma complete_fate:
  assumes "manager_inv m"
  shows "manager_inv (complete_close_session cid vh b k m)"
    "session_fate_of (complete_close_session cid vh b k m) c v =
       (if c = cid \<and> v = vh \<and> session_fate_of m cid vh = SessionSuspended b
        then completed_fate k (rebound m cid b) b else session_fate_of m c v)"
  using complete_spec[OF assms, of cid vh b k c v] complete_stale[OF assms, of cid vh b k] assms
  by (cases "session_fate_of m cid vh = SessionSuspended b"; simp)+

lemma transition_drop_fate:
  assumes "manager_inv m"
  shows "session_fate_of (transition_drop now t m) c v =
     (if \<not> ct_settled t \<and> c = ct_context_id t \<and> v = ct_virtual_session t
         \<and> session_fate_of m c v = SessionSuspended (ct_backend_handle t)
      then completed_fate (if ct_started t then Ambiguous else Transient)
             (rebound m (ct_context_id t) (ct_backend_handle t)) (ct_backend_handle t)
      else session_fate_of m c v)"
  using complete_fate(2)[OF assms] by (auto simp: transition_drop_def Let_def)

lemma transition_drop_inv: "manager_inv m \<Longrightarrow> manager_inv (transition_drop now t m)"
  by (simp add: transition_drop_def Let_def guard_inv complete_fate)

lemma run_close_fate:
  assumes "manager_inv m" "run_close now close t (m, b) = (result, m', b')"
  shows "manager_inv m' \<and> close (ct_backend_handle t) b = (result, b')
    \<and> session_fate_of m' c v =
       (if c = ct_context_id t \<and> v = ct_virtual_session t
           \<and> session_fate_of m c v = SessionSuspended (ct_backend_handle t)
        then completed_fate (close_completion result)
               (rebound m (ct_context_id t) (ct_backend_handle t)) (ct_backend_handle t)
        else session_fate_of m c v)"
proof -
  let ?t = "t\<lparr>ct_started := True, ct_settled := True\<rparr>"
  let ?m = "complete_close_session (ct_context_id t) (ct_virtual_session t) (ct_backend_handle t)
      (close_completion result) m"
  have r: "close (ct_backend_handle t) b = (result, b')" and m': "m' = transition_drop now ?t ?m"
    using assms(2) by (auto simp: run_close_def transition_mark_started_def transition_settle_def Let_def
        split: prod.splits)
  note inv = complete_fate(1)[OF assms(1), of "ct_context_id t" "ct_virtual_session t" "ct_backend_handle t"
      "close_completion result"]
  show ?thesis
    using r transition_drop_inv[OF inv, of now ?t] transition_drop_fate[OF inv, of now ?t c v]
      complete_fate(2)[OF assms(1)] by (auto simp: m')
qed

section \<open>Claims\<close>

text \<open>
  C15. A close is exact under interference: beginning it makes the live handle unresolvable without
  touching another; whatever the rest of the daemon does until the library has answered, the
  completion touches this one handle, and only if it is still suspended on the very backend session
  the close began with.  It is then gone if the library closed it or no longer knew it, usable again
  on a failure that left it open (unless the backend handle was bound anew), and stays suspended when
  the device failed and the outcome is unknown.
\<close>

theorem close_transition_exact:
  assumes "manager_inv m" "begin_close_session_with_guard now cid vh inherited m = (Inr t, m1)"
    "manager_inv m2" "run_close now' close t (m2, b) = (result, m3, b')"
  shows "session_fate_of m cid vh = SessionLive (ct_backend_handle t)
    \<and> session_fate_of m1 c v =
        (if c = cid \<and> v = vh then SessionSuspended (ct_backend_handle t) else session_fate_of m c v)
    \<and> session_fate_of m3 c v =
        (if c = cid \<and> v = vh \<and> session_fate_of m2 c v = SessionSuspended (ct_backend_handle t)
         then completed_fate (close_completion result) (rebound m2 cid (ct_backend_handle t)) (ct_backend_handle t)
         else session_fate_of m2 c v)
    \<and> close (ct_backend_handle t) b = (result, b')"
  using begin_close_spec[OF assms(1,2), of c v] run_close_fate[OF assms(3,4), of c v] by auto

theorem close_transition_exact_witness:
  "\<exists>t m1 m3. begin_close_session_with_guard 0 ''c'' (VirtualHandle 1) None reaped_manager = (Inr t, m1)
     \<and> run_close 0 (\<lambda>_ b. (Inr (), b)) t (m1, ()) = (Inr (), m3, ())
     \<and> session_fate_of m3 ''c'' (VirtualHandle 1) = SessionGone"
proof -
  obtain t m1 where b: "begin_close_session_with_guard 0 ''c'' (VirtualHandle 1) None reaped_manager = (Inr t, m1)"
    by (simp add: begin_close_session_with_guard_def begin_operation_def update_context_def reaped_manager_def
        reaped_client_def register_session_def handle_map_insert_def handle_map_new_def client_new_def
        handle_map_suspend_def detach_reverse_def Let_def)
  have inv1: "manager_inv m1" using begin_close_spec[OF reaped_manager_inv b] by simp
  obtain m3 where r: "run_close 0 (\<lambda>_ b. (Inr (), b)) t (m1, ()) = (Inr (), m3, ())"
    by (simp add: run_close_def transition_settle_def Let_def)
  show ?thesis
    using close_transition_exact[OF reaped_manager_inv b inv1 r, of "''c''" "VirtualHandle 1"] b r
    by (auto simp: completed_fate_def close_completion_def)
qed

text \<open>
  A close that never reaches the library undoes itself: when the breaker refuses the call, the
  transition is dropped unstarted and the session is usable exactly as before; when the worker dies
  inside the library, the handle stays suspended rather than being offered again.
\<close>

theorem close_abandoned:
  assumes "manager_inv m" "begin_close_session_with_guard now cid vh inherited m = (Inr t, m1)"
  shows "session_fate_of (transition_drop now' t m1) c v = session_fate_of m c v
    \<and> session_fate_of (transition_drop now' (transition_mark_started t) m1) cid vh
        = SessionSuspended (ct_backend_handle t)"
proof -
  note b = begin_close_spec[OF assms]
  have "\<not> rebound m1 cid (ct_backend_handle t)"
  proof
    assume "rebound m1 cid (ct_backend_handle t)"
    then obtain w where w: "session_fate_of m1 cid w = SessionLive (ct_backend_handle t)" by (auto simp: rebound_def)
    then have "session_fate_of m cid w = SessionLive (ct_backend_handle t)" "w \<noteq> vh"
      using b[of cid w] by (auto split: if_splits)
    moreover have "session_fate_of m cid vh = SessionLive (ct_backend_handle t)" using b by blast
    ultimately show False using live_fate_inj[OF assms(1)] by blast
  qed
  then show ?thesis
    using b[of c v] b[of cid vh] transition_drop_fate[of m1 now' t c v]
      transition_drop_fate[of m1 now' "transition_mark_started t" cid vh]
    by (auto simp: completed_fate_def transition_mark_started_def)
qed

theorem close_abandoned_witness:
  "\<exists>t m1. begin_close_session_with_guard 0 ''c'' (VirtualHandle 1) None reaped_manager = (Inr t, m1)
     \<and> session_fate_of (transition_drop 0 t m1) ''c'' (VirtualHandle 1) = SessionLive (BackendHandle 11)"
proof -
  obtain t m1 where b: "begin_close_session_with_guard 0 ''c'' (VirtualHandle 1) None reaped_manager = (Inr t, m1)"
    by (simp add: begin_close_session_with_guard_def begin_operation_def update_context_def reaped_manager_def
        reaped_client_def register_session_def handle_map_insert_def handle_map_new_def client_new_def
        handle_map_suspend_def detach_reverse_def Let_def)
  have "session_fate_of reaped_manager ''c'' (VirtualHandle 1) = SessionLive (BackendHandle 11)"
    by (simp add: session_fate_of_def handle_fate_raw reaped_manager_def reaped_client_def register_session_def
        handle_map_insert_def handle_map_new_def client_new_def Let_def)
  then show ?thesis using b close_abandoned[OF reaped_manager_inv b, of 0 "''c''" "VirtualHandle 1"] by auto
qed

end
