(* ===== verification/Rust_Str.thy ===== *)
theory Rust_Str
  imports Prelude
begin

text \<open>
  The string operations of the Rust standard library that the daemon uses.  A \<^verbatim>\<open>str\<close> is its UTF-8
  byte sequence, a \<^typ>\<open>string\<close>: every delimiter the code looks for is ASCII, and no byte of a longer
  UTF-8 sequence is, so searching bytes is searching characters.  \<^verbatim>\<open>trim\<close> removes Unicode white space,
  given here by the encodings of its code points.
\<close>

section \<open>Prefixes and trimming\<close>

definition strip_prefix :: "string \<Rightarrow> string \<Rightarrow> string option" where
  "strip_prefix p s = (if take (length p) s = p then Some (drop (length p) s) else None)"

definition starts_with :: "string \<Rightarrow> string \<Rightarrow> bool" where
  "starts_with p s = (strip_prefix p s \<noteq> None)"

definition trim_end_matches :: "char list \<Rightarrow> string \<Rightarrow> string" where
  "trim_end_matches cs s = rev (dropWhile (\<lambda>c. c \<in> set cs) (rev s))"

definition bytes_of :: "nat list \<Rightarrow> string" where
  "bytes_of bs = map char_of bs"

definition white_space :: "string list" where
  "white_space =
     map bytes_of
       ([[9], [10], [11], [12], [13], [32], [194, 133], [194, 160], [225, 154, 128]]
        @ map (\<lambda>b. [226, 128, b]) ([128..<139] @ [168, 169, 175])
        @ [[226, 129, 159], [227, 128, 128]])"

lemma white_space_nonempty: "w \<in> set white_space \<Longrightarrow> w \<noteq> []"
  by (auto simp: white_space_def bytes_of_def)

function strip_all :: "string list \<Rightarrow> string \<Rightarrow> string" where
  "strip_all ws s =
     (case List.find (\<lambda>w. w \<noteq> [] \<and> starts_with w s) ws of
        None \<Rightarrow> s
      | Some w \<Rightarrow> strip_all ws (drop (length w) s))"
  by auto
termination
proof (relation "measure (\<lambda>(ws, s). length s)")
  fix ws :: "string list" and s w
  assume "List.find (\<lambda>w. w \<noteq> [] \<and> starts_with w s) ws = Some w"
  then have "w \<noteq> []" "starts_with w s" by (auto simp: find_Some_iff)
  then have "s \<noteq> []" by (auto simp: starts_with_def strip_prefix_def)
  with \<open>w \<noteq> []\<close> show "((ws, drop (length w) s), (ws, s)) \<in> measure (\<lambda>(ws, s). length s)"
    by (cases w; cases s) auto
qed simp

declare strip_all.simps [simp del]

definition trim_start :: "string \<Rightarrow> string" where
  "trim_start s = strip_all white_space s"

definition trim_end :: "string \<Rightarrow> string" where
  "trim_end s = rev (strip_all (map rev white_space) (rev s))"

definition trim :: "string \<Rightarrow> string" where
  "trim s = trim_end (trim_start s)"

lemma strip_prefix_append [simp]: "strip_prefix p (p @ s) = Some s"
  by (simp add: strip_prefix_def)

lemma strip_prefix_Some_iff: "strip_prefix p s = Some r \<longleftrightarrow> s = p @ r"
  unfolding strip_prefix_def by (metis append_take_drop_id append_eq_conv_conj option.distinct(1) option.inject)

lemma starts_with_iff: "starts_with p s \<longleftrightarrow> (\<exists>r. s = p @ r)"
  by (auto simp: starts_with_def strip_prefix_Some_iff)

lemma trim_end_matches_idem [simp]:
  "trim_end_matches cs (trim_end_matches cs s) = trim_end_matches cs s"
proof -
  have "dropWhile P (dropWhile P xs) = dropWhile P xs" for P :: "char \<Rightarrow> bool" and xs
    by (induction xs) auto
  then show ?thesis by (simp add: trim_end_matches_def)
qed

lemma trim_end_matches_append:
  "set t \<subseteq> set cs \<Longrightarrow> trim_end_matches cs (s @ t) = trim_end_matches cs s"
  unfolding trim_end_matches_def rev_append by (subst dropWhile_append2) auto

lemma trim_end_matches_split:
  obtains t where "s = trim_end_matches cs s @ t" "set t \<subseteq> set cs"
proof
  show "s = trim_end_matches cs s @ rev (takeWhile (\<lambda>c. c \<in> set cs) (rev s))"
    unfolding trim_end_matches_def rev_append[symmetric] takeWhile_dropWhile_id by simp
  show "set (rev (takeWhile (\<lambda>c. c \<in> set cs) (rev s))) \<subseteq> set cs"
    by (auto dest: set_takeWhileD)
qed

lemma trim_end_matches_Nil_iff: "trim_end_matches cs s = [] \<longleftrightarrow> set s \<subseteq> set cs"
  by (auto simp: trim_end_matches_def dropWhile_eq_Nil_conv)

section \<open>Numbers\<close>

text \<open>\<^verbatim>\<open>char::to_digit\<close>.\<close>

definition to_digit :: "nat \<Rightarrow> char \<Rightarrow> nat option" where
  "to_digit radix c =
     (let n = (of_char c :: nat);
          v = (if 48 \<le> n \<and> n \<le> 57 then Some (n - 48)
               else if 97 \<le> n \<and> n \<le> 122 then Some (n - 87)
               else if 65 \<le> n \<and> n \<le> 90 then Some (n - 55)
               else None)
      in case v of None \<Rightarrow> None | Some d \<Rightarrow> if d < radix then Some d else None)"

text \<open>
  The unsigned \<^verbatim>\<open>from_str_radix\<close>: an optional plus sign, at least one digit, and every intermediate
  value checked against the largest value of the type.
\<close>

fun parse_digits :: "nat \<Rightarrow> nat \<Rightarrow> nat \<Rightarrow> string \<Rightarrow> nat option" where
  "parse_digits radix most acc [] = Some acc"
| "parse_digits radix most acc (c # cs) =
     (case to_digit radix c of
        None \<Rightarrow> None
      | Some d \<Rightarrow>
          (let v = acc * radix + d in if v > most then None else parse_digits radix most v cs))"

definition from_str_radix :: "nat \<Rightarrow> nat \<Rightarrow> string \<Rightarrow> nat option" where
  "from_str_radix radix most s =
     (case s of
        [] \<Rightarrow> None
      | c # cs \<Rightarrow> if c = CHR ''+'' \<and> cs \<noteq> [] then parse_digits radix most 0 cs
                  else parse_digits radix most 0 s)"

definition parse_u32 :: "string \<Rightarrow> u32 option" where
  "parse_u32 s = map_option of_nat (from_str_radix 10 (2 ^ 32 - 1) s)"

definition parse_u64 :: "string \<Rightarrow> u64 option" where
  "parse_u64 s = map_option of_nat (from_str_radix 10 (2 ^ 64 - 1) s)"

definition parse_u64_hex :: "string \<Rightarrow> u64 option" where
  "parse_u64_hex s = map_option of_nat (from_str_radix 16 (2 ^ 64 - 1) s)"

definition digit_char :: "nat \<Rightarrow> char" where
  "digit_char d = char_of (if d < 10 then 48 + d else 87 + d)"

fun show_nat :: "nat \<Rightarrow> string" where
  "show_nat n = (if n < 10 then [digit_char n] else show_nat (n div 10) @ [digit_char (n mod 10)])"

declare show_nat.simps [simp del]

lemma of_char_digit [simp]: "d < 16 \<Longrightarrow> (of_char (digit_char d) :: nat) = (if d < 10 then 48 + d else 87 + d)"
  by (simp add: digit_char_def)

lemma to_digit_digit_char [simp]: "d < radix \<Longrightarrow> radix \<le> 16 \<Longrightarrow> to_digit radix (digit_char d) = Some d"
  by (simp add: to_digit_def)

lemma digit_char_not_plus: "d < 16 \<Longrightarrow> digit_char d \<noteq> CHR ''+''"
proof
  assume d: "d < 16" and "digit_char d = CHR ''+''"
  then have "(of_char (digit_char d) :: nat) = of_char (CHR ''+'')" by simp
  with d show False by (simp split: if_splits)
qed

lemma parse_digits_append:
  "parse_digits radix most acc (xs @ ys) =
     Option.bind (parse_digits radix most acc xs) (\<lambda>v. parse_digits radix most v ys)"
  by (induction xs arbitrary: acc) (auto simp: Let_def split: option.splits)

lemma parse_digits_show_nat: "n \<le> most \<Longrightarrow> parse_digits 10 most 0 (show_nat n) = Some n"
proof (induction n rule: show_nat.induct)
  case (1 n)
  show ?case
  proof (cases "n < 10")
    case True
    with 1 show ?thesis by (simp add: show_nat.simps)
  next
    case False
    have "parse_digits 10 most 0 (show_nat (n div 10)) = Some (n div 10)"
      using 1 False by simp
    moreover have "n div 10 * 10 + n mod 10 = n" by simp
    ultimately show ?thesis using False 1(2)
      by (simp add: show_nat.simps[of n] parse_digits_append Let_def)
  qed
qed

lemma show_nat_hd: "\<exists>d ds. show_nat n = digit_char d # ds \<and> d < 10"
proof (induction n rule: show_nat.induct)
  case (1 n)
  then show ?case by (cases "n < 10") (auto simp: show_nat.simps[of n])
qed

lemma from_str_radix_show_nat: "n \<le> most \<Longrightarrow> from_str_radix 10 most (show_nat n) = Some n"
proof -
  assume n: "n \<le> most"
  obtain d ds where d: "show_nat n = digit_char d # ds" "d < 10" using show_nat_hd by blast
  then have "digit_char d \<noteq> CHR ''+''" by (intro digit_char_not_plus) simp
  with d parse_digits_show_nat[OF n] show ?thesis by (simp add: from_str_radix_def)
qed

lemma unat_u32: "unat (u :: u32) \<le> 2 ^ 32 - 1"
  using unsigned_less[of u, where 'a = nat] by simp

lemma unat_u64: "unat (u :: u64) \<le> 2 ^ 64 - 1"
  using unsigned_less[of u, where 'a = nat] by simp

lemma unat_u8: "unat (u :: u8) < 256"
  using unsigned_less[of u, where 'a = nat] by simp

lemma parse_u32_show [simp]: "parse_u32 (show_nat (unat (u :: u32))) = Some u"
  using from_str_radix_show_nat[OF unat_u32] by (simp add: parse_u32_def)

lemma parse_u64_show [simp]: "parse_u64 (show_nat (unat (u :: u64))) = Some u"
  using from_str_radix_show_nat[OF unat_u64] by (simp add: parse_u64_def)

section \<open>Bytes as hexadecimal\<close>

text \<open>\<^verbatim>\<open>hex::encode\<close> and \<^verbatim>\<open>hex::decode\<close>: two lower-case digits per byte; decoding takes either case.\<close>

definition hex_encode :: "u8 list \<Rightarrow> string" where
  "hex_encode bs = concat (map (\<lambda>b. [digit_char (unat b div 16), digit_char (unat b mod 16)]) bs)"

fun hex_decode :: "string \<Rightarrow> u8 list option" where
  "hex_decode [] = Some []"
| "hex_decode [c] = None"
| "hex_decode (c # d # cs) =
     (case (to_digit 16 c, to_digit 16 d, hex_decode cs) of
        (Some h, Some l, Some bs) \<Rightarrow> Some (of_nat (h * 16 + l) # bs)
      | _ \<Rightarrow> None)"

lemma hex_decode_encode [simp]: "hex_decode (hex_encode bs) = Some bs"
proof (induction bs)
  case (Cons b bs)
  have b: "unat b div 16 < 16" using unat_u8[of b] by simp
  have "unat b div 16 * 16 + unat b mod 16 = unat b" by simp
  then have "(of_nat (unat b div 16 * 16 + unat b mod 16) :: u8) = b" by simp
  with Cons b show ?case by (simp add: hex_encode_def)
qed (simp add: hex_encode_def)

lemma digit_char_not_semicolon: "d < 16 \<Longrightarrow> digit_char d \<noteq> CHR '';''"
proof
  assume d: "d < 16" and "digit_char d = CHR '';''"
  then have "(of_char (digit_char d) :: nat) = of_char (CHR '';'')" by simp
  with d show False by (simp split: if_splits)
qed

lemma hex_encode_no_semicolon: "CHR '';'' \<notin> set (hex_encode bs)"
proof
  assume "CHR '';'' \<in> set (hex_encode bs)"
  then obtain b where "CHR '';'' = digit_char (unat (b::u8) div 16) \<or> CHR '';'' = digit_char (unat b mod 16)"
    by (auto simp: hex_encode_def)
  moreover have "unat b div 16 < 16" "unat b mod 16 < 16" using unat_u8[of b] by simp_all
  ultimately show False using digit_char_not_semicolon by metis
qed

end
