(* ===== verification/Token_Selector.thy ===== *)
theory Token_Selector
  imports Rust_Str
begin

text \<open>
  Which tokens a policy entry is about (\<^verbatim>\<open>auth/token_selector.rs\<close>).  Token labels and serial numbers
  live in fixed-width fields padded with blanks, so trailing blanks and NULs never count.
\<close>

datatype TokenSelector = Label (selector_value: string) | Serial (selector_value: string)

datatype SelectorError =
    SelectorEmpty
  | LabelValueEmpty
  | SerialValueEmpty
  | UriUnsupported
  | UnrecognizedPrefix string

abbreviation NUL :: char where "NUL \<equiv> CHR 0x00"
abbreviation COLON :: char where "COLON \<equiv> CHR '':''"

definition trim_field_padding :: "string \<Rightarrow> string" where
  "trim_field_padding s = trim_end_matches [CHR '' '', NUL] s"

definition selector_parse :: "string \<Rightarrow> SelectorError + TokenSelector" where
  "selector_parse selector =
     (let trimmed = trim_field_padding selector in
      if trimmed = [] then Inl SelectorEmpty
      else case strip_prefix ''label:'' trimmed of
        Some label \<Rightarrow>
          (let label = trim_field_padding label in
           if label = [] then Inl LabelValueEmpty else Inr (Label label))
      | None \<Rightarrow>
     (case strip_prefix ''serial:'' trimmed of
        Some serial \<Rightarrow>
          (let serial = trim_field_padding serial in
           if serial = [] then Inl SerialValueEmpty else Inr (Serial serial))
      | None \<Rightarrow>
          if starts_with ''pkcs11:'' trimmed then Inl UriUnsupported
          else if COLON \<in> set trimmed then Inl (UnrecognizedPrefix (takeWhile (\<lambda>c. c \<noteq> COLON) trimmed))
          else Inr (Label trimmed)))"

definition selector_matches :: "TokenSelector \<Rightarrow> string \<Rightarrow> string \<Rightarrow> bool" where
  "selector_matches sel token_label token_serial =
     (case sel of
        Label label \<Rightarrow> trim_field_padding label = trim_field_padding token_label
      | Serial serial \<Rightarrow> trim_field_padding serial = trim_field_padding token_serial)"

section \<open>Padding\<close>

definition padding :: "string \<Rightarrow> bool" where
  "padding s = (set s \<subseteq> {CHR '' '', NUL})"

lemma trim_padding_append [simp]: "padding p \<Longrightarrow> trim_field_padding (s @ p) = trim_field_padding s"
  unfolding trim_field_padding_def padding_def by (intro trim_end_matches_append) simp

lemma trim_padding_idem [simp]: "trim_field_padding (trim_field_padding s) = trim_field_padding s"
  by (simp add: trim_field_padding_def)

lemma trim_padding_split:
  obtains p where "s = trim_field_padding s @ p" "padding p"
  using trim_end_matches_split[of s "[CHR '' '', NUL]"] by (auto simp: trim_field_padding_def padding_def)

lemma trim_padding_eq_iff:
  "trim_field_padding a = trim_field_padding b \<longleftrightarrow> (\<exists>v p q. padding p \<and> padding q \<and> a = v @ p \<and> b = v @ q)"
proof
  assume "trim_field_padding a = trim_field_padding b"
  then show "\<exists>v p q. padding p \<and> padding q \<and> a = v @ p \<and> b = v @ q"
    by (metis trim_padding_split)
qed auto

section \<open>What a selector string selects\<close>

text \<open>
  The meaning of a selector string: after \<open>label:\<close> or with no colon at all it names a label, after
  \<open>serial:\<close> a serial number, and the name is compared up to padding.
\<close>

definition selects :: "string \<Rightarrow> string \<Rightarrow> string \<Rightarrow> bool" where
  "selects selector token_label token_serial \<longleftrightarrow>
     (\<exists>v. \<not> padding v \<and>
        ((selector = ''label:'' @ v \<and> trim_field_padding v = trim_field_padding token_label)
         \<or> (selector = ''serial:'' @ v \<and> trim_field_padding v = trim_field_padding token_serial)
         \<or> (selector = v \<and> COLON \<notin> set v \<and> trim_field_padding v = trim_field_padding token_label)))"

lemma padding_iff: "padding s \<longleftrightarrow> trim_field_padding s = []"
  by (auto simp: padding_def trim_field_padding_def trim_end_matches_Nil_iff)

lemma trim_padding_snoc: "c \<notin> {CHR '' '', NUL} \<Longrightarrow> trim_field_padding (s @ [c]) = s @ [c]"
  by (simp add: trim_field_padding_def trim_end_matches_def)

lemma trim_padding_last:
  assumes "trim_field_padding s \<noteq> []"
  shows "last (trim_field_padding s) \<notin> {CHR '' '', NUL}"
proof -
  have "dropWhile (\<lambda>c. c \<in> set [CHR '' '', NUL]) (rev s) \<noteq> []"
    using assms by (simp add: trim_field_padding_def trim_end_matches_def)
  from hd_dropWhile[OF this] show ?thesis
    by (simp add: trim_field_padding_def trim_end_matches_def last_rev)
qed

lemma trim_padding_keeps_prefix:
  assumes "p \<noteq> []" "last p \<notin> {CHR '' '', NUL}"
  shows "trim_field_padding (p @ s) = p @ trim_field_padding s"
proof -
  obtain t where t: "s = trim_field_padding s @ t" "padding t" by (rule trim_padding_split)
  have "trim_field_padding (p @ s) = trim_field_padding (p @ trim_field_padding s)"
    using t by (metis append.assoc trim_padding_append)
  also have "\<dots> = p @ trim_field_padding s"
  proof (cases "trim_field_padding s = []")
    case True
    with assms trim_padding_snoc[of "last p" "butlast p"] show ?thesis by simp
  next
    case False
    then have "p @ trim_field_padding s = (p @ butlast (trim_field_padding s)) @ [last (trim_field_padding s)]"
      by simp
    with trim_padding_snoc trim_padding_last[OF False] show ?thesis by metis
  qed
  finally show ?thesis .
qed

lemma trim_label: "trim_field_padding (''label:'' @ v) = ''label:'' @ trim_field_padding v"
  by (rule trim_padding_keeps_prefix) simp_all

lemma trim_serial: "trim_field_padding (''serial:'' @ v) = ''serial:'' @ trim_field_padding v"
  by (rule trim_padding_keeps_prefix) simp_all

lemmas trim_prefix_simps [simp] = trim_label[unfolded append_Cons append_Nil] trim_serial[unfolded append_Cons append_Nil]

lemma colon_trim: "COLON \<in> set (trim_field_padding s) \<longleftrightarrow> COLON \<in> set s"
proof -
  obtain t where t: "s = trim_field_padding s @ t" "padding t" by (rule trim_padding_split)
  then have "COLON \<notin> set t" by (auto simp: padding_def)
  with t(1) show ?thesis by (metis Un_iff set_append)
qed

lemma strip_trim_iff:
  assumes "\<And>v. trim_field_padding (p @ v) = p @ trim_field_padding v"
  shows "strip_prefix p (trim_field_padding s) = Some v \<longleftrightarrow> (\<exists>w. s = p @ w \<and> v = trim_field_padding w)"
proof
  assume "strip_prefix p (trim_field_padding s) = Some v"
  then have v: "trim_field_padding s = p @ v" by (simp add: strip_prefix_Some_iff)
  obtain t where t: "s = trim_field_padding s @ t" "padding t" by (rule trim_padding_split)
  then have s: "s = p @ (v @ t)" using v by simp
  then have "p @ v = p @ trim_field_padding (v @ t)" using assms v by metis
  with s show "\<exists>w. s = p @ w \<and> v = trim_field_padding w" by blast
qed (use assms in \<open>auto simp: strip_prefix_Some_iff\<close>)

lemmas strip_label = strip_trim_iff[of "''label:''", OF trim_label]
lemmas strip_serial = strip_trim_iff[of "''serial:''", OF trim_serial]

lemma parse_label:
  "selector_parse (''label:'' @ v) = (if padding v then Inl LabelValueEmpty else Inr (Label (trim_field_padding v)))"
proof -
  have "strip_prefix ''label:'' (trim_field_padding (''label:'' @ v)) = Some (trim_field_padding v)"
    unfolding strip_label by blast
  then show ?thesis by (simp add: selector_parse_def Let_def padding_iff)
qed

lemma parse_serial:
  "selector_parse (''serial:'' @ v) = (if padding v then Inl SerialValueEmpty else Inr (Serial (trim_field_padding v)))"
proof -
  have "strip_prefix ''serial:'' (trim_field_padding (''serial:'' @ v)) = Some (trim_field_padding v)"
    unfolding strip_serial by blast
  moreover have "strip_prefix ''label:'' (trim_field_padding (''serial:'' @ v)) = None"
    by (simp add: strip_prefix_def)
  ultimately show ?thesis by (simp add: selector_parse_def Let_def padding_iff)
qed

lemmas parse_prefix_simps [simp] = parse_label[unfolded append_Cons append_Nil] parse_serial[unfolded append_Cons append_Nil]

lemma parse_bare [simp]:
  "COLON \<notin> set v \<Longrightarrow>
   selector_parse v = (if padding v then Inl SelectorEmpty else Inr (Label (trim_field_padding v)))"
proof -
  assume v: "COLON \<notin> set v"
  have "strip_prefix p (trim_field_padding v) = None" if "COLON \<in> set p" for p
  proof (cases "strip_prefix p (trim_field_padding v)")
    case (Some r)
    then have "trim_field_padding v = p @ r" by (simp add: strip_prefix_Some_iff)
    with v that colon_trim[of v] show ?thesis by (metis Un_iff set_append)
  qed simp
  with v show ?thesis by (simp add: selector_parse_def Let_def padding_iff starts_with_def colon_trim)
qed

lemma selector_cases:
  obtains (label) v where "s = ''label:'' @ v" | (serial) v where "s = ''serial:'' @ v"
  | (bare) "COLON \<notin> set s"
  | (other) "COLON \<in> set s" "\<nexists>v. s = ''label:'' @ v" "\<nexists>v. s = ''serial:'' @ v"
  by blast

lemma parse_other:
  assumes "COLON \<in> set s" "\<nexists>v. s = ''label:'' @ v" "\<nexists>v. s = ''serial:'' @ v"
  shows "\<exists>e. selector_parse s = Inl e"
proof -
  have "strip_prefix ''label:'' (trim_field_padding s) = None" "strip_prefix ''serial:'' (trim_field_padding s) = None"
    using strip_label[of s] strip_serial[of s] assms by (metis not_Some_eq)+
  with assms colon_trim[of s] show ?thesis by (auto simp: selector_parse_def Let_def)
qed

lemma parse_ok_iff:
  "(\<exists>sel. selector_parse s = Inr sel)
     = (\<exists>v. \<not> padding v \<and> (s = ''label:'' @ v \<or> s = ''serial:'' @ v \<or> s = v \<and> COLON \<notin> set v))"
proof (cases rule: selector_cases[of s])
  case bare
  moreover from bare have "s \<noteq> ''label:'' @ v" "s \<noteq> ''serial:'' @ v" for v by auto
  ultimately show ?thesis by auto
next
  case other
  with parse_other[OF other] show ?thesis by auto
qed auto

lemma parse_matches:
  "case selector_parse s of
     Inl _ \<Rightarrow> \<not> selects s token_label token_serial
   | Inr sel \<Rightarrow> selector_matches sel token_label token_serial = selects s token_label token_serial"
proof (cases rule: selector_cases[of s])
  case bare
  moreover from bare have "s \<noteq> ''label:'' @ v" "s \<noteq> ''serial:'' @ v" for v by auto
  ultimately show ?thesis by (auto simp: selects_def selector_matches_def)
next
  case other
  with parse_other[OF other] show ?thesis by (auto simp: selects_def)
qed (auto simp: selects_def selector_matches_def)

text \<open>
  A selector string means what its documentation says: parsing accepts exactly the strings
  \<open>label:v\<close>, \<open>serial:v\<close> and \<open>v\<close> without a colon whose value is more than padding, and the selector
  it yields matches exactly the tokens whose label, or serial number, is that value up to trailing
  blanks and NULs.
\<close>

theorem selector_exact:
  "(\<exists>sel. selector_parse s = Inr sel)
     = (\<exists>v. \<not> padding v \<and> (s = ''label:'' @ v \<or> s = ''serial:'' @ v \<or> s = v \<and> COLON \<notin> set v))
   \<and> (case selector_parse s of
        Inl _ \<Rightarrow> \<not> selects s token_label token_serial
      | Inr sel \<Rightarrow> selector_matches sel token_label token_serial = selects s token_label token_serial)"
  using parse_ok_iff parse_matches by blast

end
