(* ===== verification/Grant.thy ===== *)
theory Grant
  imports Token_Selector Ck_Types
begin

text \<open>
  Token grants (\<^verbatim>\<open>auth/grant.rs\<close>): a selector with the object classes, mechanisms and objects it
  opens and whether key material may be extracted, and the parsers for the names a configuration
  file uses.
\<close>

datatype ExtractPolicy = ExtractAllow | ExtractDeny

record ObjectAcl =
  oa_unique_id :: "u8 list"
  oa_extract :: "ExtractPolicy option"

record TokenGrant =
  tg_selector :: TokenSelector
  tg_classes :: "CkObjectClass list option"
  tg_mechanisms :: "CkMechanismType list option"
  tg_extract :: ExtractPolicy
  tg_objects :: "ObjectAcl list option"

definition grant_simple :: "TokenSelector \<Rightarrow> TokenGrant" where
  "grant_simple selector =
     \<lparr>tg_selector = selector, tg_classes = None, tg_mechanisms = None, tg_extract = ExtractAllow, tg_objects = None\<rparr>"

definition matches_token :: "TokenGrant \<Rightarrow> string \<Rightarrow> string \<Rightarrow> bool" where
  "matches_token g token_label token_serial = selector_matches (tg_selector g) token_label token_serial"

section \<open>Names and numbers\<close>

datatype GrantError =
    ClassInvalidHex string
  | UnknownClass string
  | MechanismInvalidHex string
  | UnknownMechanism string
  | ObjectIdEmpty
  | ObjectIdInvalidHex string

definition strip_hex_prefix :: "string \<Rightarrow> string option" where
  "strip_hex_prefix t =
     (case strip_prefix ''0x'' t of Some h \<Rightarrow> Some h | None \<Rightarrow> strip_prefix ''0X'' t)"

definition class_names :: "(string \<times> CkObjectClass) list" where
  "class_names =
     [(''data'', 0), (''CKO_DATA'', 0), (''certificate'', 1), (''CKO_CERTIFICATE'', 1),
      (''public_key'', 2), (''CKO_PUBLIC_KEY'', 2), (''private_key'', 3), (''CKO_PRIVATE_KEY'', 3),
      (''secret_key'', 4), (''CKO_SECRET_KEY'', 4),
      (''vendor_defined'', 0x80000000), (''CKO_VENDOR_DEFINED'', 0x80000000)]"

definition parse_class :: "string \<Rightarrow> GrantError + CkObjectClass" where
  "parse_class s =
     (let t = trim s in
      case map_of class_names t of
        Some c \<Rightarrow> Inr c
      | None \<Rightarrow>
     (case strip_hex_prefix t of
        Some h \<Rightarrow> (case parse_u64_hex h of Some n \<Rightarrow> Inr n | None \<Rightarrow> Inl (ClassInvalidHex t))
      | None \<Rightarrow> (case parse_u64 t of Some n \<Rightarrow> Inr n | None \<Rightarrow> Inl (UnknownClass t))))"

definition mechanism_names :: "(string \<times> CkMechanismType) list" where
  "mechanism_names =
     [(''CKM_RSA_PKCS_KEY_PAIR_GEN'', 0x0), (''CKM_RSA_PKCS'', 0x1), (''CKM_RSA_9796'', 0x2),
      (''CKM_RSA_X_509'', 0x3), (''CKM_RSA_X9_31_KEY_PAIR_GEN'', 0xa), (''CKM_RSA_X9_31'', 0xb),
      (''CKM_RSA_PKCS_PSS'', 0xd), (''CKM_RSA_PKCS_OAEP'', 0x9), (''CKM_SHA256_RSA_PKCS'', 0x40),
      (''CKM_SHA384_RSA_PKCS'', 0x41), (''CKM_SHA512_RSA_PKCS'', 0x42), (''CKM_ECDSA'', 0x1041),
      (''CKM_ECDSA_SHA1'', 0x1042), (''CKM_ECDSA_SHA224'', 0x1043), (''CKM_ECDSA_SHA256'', 0x1044),
      (''CKM_ECDSA_SHA384'', 0x1045), (''CKM_ECDSA_SHA512'', 0x1046), (''CKM_ECDSA_SHA3_224'', 0x1047),
      (''CKM_ECDSA_SHA3_256'', 0x1048), (''CKM_ECDSA_SHA3_384'', 0x1049),
      (''CKM_ECDSA_SHA3_512'', 0x104a), (''CKM_EC_KEY_PAIR_GEN'', 0x1040),
      (''CKM_EC_KEY_PAIR_GEN_W_EXTRA_BITS'', 0x140b), (''CKM_EC_EDWARDS_KEY_PAIR_GEN'', 0x1055),
      (''CKM_EC_MONTGOMERY_KEY_PAIR_GEN'', 0x1056), (''CKM_EDDSA'', 0x1057), (''CKM_XEDDSA'', 0x4029),
      (''CKM_HKDF_DERIVE'', 0x402a), (''CKM_HKDF_DATA'', 0x402b), (''CKM_HKDF_KEY_GEN'', 0x402c),
      (''CKM_IKE2_PRF_PLUS_DERIVE'', 0x402e), (''CKM_IKE_PRF_DERIVE'', 0x402f),
      (''CKM_IKE1_PRF_DERIVE'', 0x4030), (''CKM_IKE1_EXTENDED_DERIVE'', 0x4031),
      (''CKM_HSS_KEY_PAIR_GEN'', 0x4032), (''CKM_HSS'', 0x4033), (''CKM_XMSS_KEY_PAIR_GEN'', 0x4034),
      (''CKM_XMSSMT_KEY_PAIR_GEN'', 0x4035), (''CKM_XMSS'', 0x4036), (''CKM_XMSSMT'', 0x4037),
      (''CKM_SHA256'', 0x250), (''CKM_SHA384'', 0x260), (''CKM_SHA512'', 0x270),
      (''CKM_DH_PKCS_KEY_PAIR_GEN'', 0x20), (''CKM_DH_PKCS_DERIVE'', 0x21),
      (''CKM_X9_42_DH_KEY_PAIR_GEN'', 0x30), (''CKM_X9_42_DH_DERIVE'', 0x31),
      (''CKM_X9_42_DH_HYBRID_DERIVE'', 0x32), (''CKM_X9_42_MQV_DERIVE'', 0x33),
      (''CKM_AES_XTS'', 0x1071), (''CKM_AES_XTS_KEY_GEN'', 0x1072), (''CKM_AES_KEY_GEN'', 0x1080),
      (''CKM_AES_ECB'', 0x1081), (''CKM_AES_CBC'', 0x1082), (''CKM_AES_CBC_PAD'', 0x1085),
      (''CKM_AES_MAC'', 0x1083), (''CKM_AES_MAC_GENERAL'', 0x1084), (''CKM_AES_CTR'', 0x1086),
      (''CKM_AES_GCM'', 0x1087), (''CKM_AES_CCM'', 0x1088), (''CKM_AES_CTS'', 0x1089),
      (''CKM_AES_CMAC'', 0x108a), (''CKM_AES_CMAC_GENERAL'', 0x108b), (''CKM_AES_XCBC_MAC'', 0x108c),
      (''CKM_AES_XCBC_MAC_96'', 0x108d), (''CKM_AES_GMAC'', 0x108e), (''CKM_AES_OFB'', 0x2104),
      (''CKM_AES_CFB64'', 0x2105), (''CKM_AES_CFB8'', 0x2106), (''CKM_AES_CFB128'', 0x2107),
      (''CKM_AES_CFB1'', 0x2108), (''CKM_AES_KEY_WRAP'', 0x2109), (''CKM_AES_KEY_WRAP_PAD'', 0x210a),
      (''CKM_AES_KEY_WRAP_KWP'', 0x210b), (''CKM_AES_KEY_WRAP_PKCS7'', 0x210c),
      (''CKM_AES_ECB_ENCRYPT_DATA'', 0x1104), (''CKM_AES_CBC_ENCRYPT_DATA'', 0x1105),
      (''CKM_MD2'', 0x200), (''CKM_MD5'', 0x210), (''CKM_SHAKE_128_KEY_DERIVATION'', 0x39b),
      (''CKM_SHAKE_256_KEY_DERIVATION'', 0x39c), (''CKM_CHACHA20_KEY_GEN'', 0x1225),
      (''CKM_CHACHA20'', 0x1226), (''CKM_POLY1305_KEY_GEN'', 0x1227), (''CKM_POLY1305'', 0x1228),
      (''CKM_ECDH1_DERIVE'', 0x1050), (''CKM_ECDH1_COFACTOR_DERIVE'', 0x1051),
      (''CKM_ECMQV_DERIVE'', 0x1052), (''CKM_ECDH_AES_KEY_WRAP'', 0x1053),
      (''CKM_RSA_AES_KEY_WRAP'', 0x1054), (''CKM_ECDH_X_AES_KEY_WRAP'', 0x4038),
      (''CKM_ECDH_COF_AES_KEY_WRAP'', 0x4039), (''CKM_SECURID_KEY_GEN'', 0x280),
      (''CKM_SECURID'', 0x282), (''CKM_HOTP_KEY_GEN'', 0x290), (''CKM_HOTP'', 0x291),
      (''CKM_PBE_SHA1_DES3_EDE_CBC'', 0x3a8), (''CKM_PBE_SHA1_DES2_EDE_CBC'', 0x3a9),
      (''CKM_PKCS5_PBKD2'', 0x3b0), (''CKM_PBA_SHA1_WITH_SHA1_HMAC'', 0x3c0), (''CKM_CMS_SIG'', 0x500),
      (''CKM_BLOWFISH_KEY_GEN'', 0x1090), (''CKM_BLOWFISH_CBC'', 0x1091),
      (''CKM_TWOFISH_KEY_GEN'', 0x1092), (''CKM_TWOFISH_CBC'', 0x1093),
      (''CKM_BLOWFISH_CBC_PAD'', 0x1094), (''CKM_TWOFISH_CBC_PAD'', 0x1095),
      (''CKM_GENERIC_SECRET_KEY_GEN'', 0x350), (''CKM_CONCATENATE_BASE_AND_KEY'', 0x360),
      (''CKM_CONCATENATE_BASE_AND_DATA'', 0x362), (''CKM_CONCATENATE_DATA_AND_BASE'', 0x363),
      (''CKM_XOR_BASE_AND_DATA'', 0x364), (''CKM_EXTRACT_KEY_FROM_KEY'', 0x365),
      (''CKM_PUB_KEY_FROM_PRIV_KEY'', 0x403a), (''CKM_DES_KEY_GEN'', 0x120), (''CKM_DES_ECB'', 0x121),
      (''CKM_DES_MAC'', 0x123), (''CKM_DES_CBC_PAD'', 0x125), (''CKM_DES2_KEY_GEN'', 0x130),
      (''CKM_DES3_KEY_GEN'', 0x131), (''CKM_DES3_ECB'', 0x132), (''CKM_DES3_CBC'', 0x133),
      (''CKM_DES3_CBC_PAD'', 0x136), (''CKM_DES3_MAC'', 0x134), (''CKM_DES3_MAC_GENERAL'', 0x135),
      (''CKM_DES3_CMAC_GENERAL'', 0x137), (''CKM_DES3_CMAC'', 0x138), (''CKM_KIP_DERIVE'', 0x510),
      (''CKM_KIP_WRAP'', 0x511), (''CKM_KIP_MAC'', 0x512), (''CKM_CAMELLIA_KEY_GEN'', 0x550),
      (''CKM_CAMELLIA_ECB'', 0x551), (''CKM_CAMELLIA_CBC'', 0x552), (''CKM_CAMELLIA_MAC'', 0x553),
      (''CKM_CAMELLIA_MAC_GENERAL'', 0x554), (''CKM_CAMELLIA_CBC_PAD'', 0x555),
      (''CKM_CAMELLIA_ECB_ENCRYPT_DATA'', 0x556), (''CKM_CAMELLIA_CBC_ENCRYPT_DATA'', 0x557),
      (''CKM_ARIA_KEY_GEN'', 0x560), (''CKM_ARIA_ECB'', 0x561), (''CKM_ARIA_CBC'', 0x562),
      (''CKM_ARIA_MAC'', 0x563), (''CKM_ARIA_MAC_GENERAL'', 0x564), (''CKM_ARIA_CBC_PAD'', 0x565),
      (''CKM_ARIA_ECB_ENCRYPT_DATA'', 0x566), (''CKM_ARIA_CBC_ENCRYPT_DATA'', 0x567),
      (''CKM_SEED_KEY_GEN'', 0x650), (''CKM_SEED_ECB'', 0x651), (''CKM_SEED_CBC'', 0x652),
      (''CKM_SEED_MAC'', 0x653), (''CKM_SEED_MAC_GENERAL'', 0x654), (''CKM_SEED_CBC_PAD'', 0x655),
      (''CKM_SEED_ECB_ENCRYPT_DATA'', 0x656), (''CKM_SEED_CBC_ENCRYPT_DATA'', 0x657),
      (''CKM_GOSTR3410_KEY_PAIR_GEN'', 0x1200), (''CKM_GOSTR3410'', 0x1201),
      (''CKM_GOSTR3410_WITH_GOSTR3411'', 0x1202), (''CKM_GOSTR3410_KEY_WRAP'', 0x1203),
      (''CKM_GOSTR3410_DERIVE'', 0x1204), (''CKM_GOSTR3411'', 0x1210), (''CKM_GOSTR3411_HMAC'', 0x1211),
      (''CKM_GOST28147_KEY_GEN'', 0x1220), (''CKM_GOST28147_ECB'', 0x1221), (''CKM_GOST28147'', 0x1222),
      (''CKM_GOST28147_MAC'', 0x1223), (''CKM_GOST28147_KEY_WRAP'', 0x1224),
      (''CKM_DES_ECB_ENCRYPT_DATA'', 0x1100), (''CKM_DES_CBC_ENCRYPT_DATA'', 0x1101),
      (''CKM_DES3_ECB_ENCRYPT_DATA'', 0x1102), (''CKM_DES3_CBC_ENCRYPT_DATA'', 0x1103),
      (''CKM_NULL'', 0x1), (''CKM_SALSA20'', 0x4020), (''CKM_CHACHA20_POLY1305'', 0x4021),
      (''CKM_SALSA20_POLY1305'', 0x4022), (''CKM_X3DH_INITIALIZE'', 0x4023),
      (''CKM_X3DH_RESPOND'', 0x4024), (''CKM_X2RATCHET_INITIALIZE'', 0x4025),
      (''CKM_X2RATCHET_RESPOND'', 0x4026), (''CKM_X2RATCHET_ENCRYPT'', 0x4027),
      (''CKM_X2RATCHET_DECRYPT'', 0x4028), (''CKM_SALSA20_KEY_GEN'', 0x402d),
      (''CKM_DH_PKCS_PARAMETER_GEN'', 0x2001), (''CKM_X9_42_DH_PARAMETER_GEN'', 0x2002),
      (''CKM_RSA_PKCS_TPM_1_1'', 0x4001), (''CKM_RSA_PKCS_OAEP_TPM_1_1'', 0x4002),
      (''CKM_TLS12_EXTENDED_MASTER_KEY_DERIVE'', 0x56),
      (''CKM_TLS12_EXTENDED_MASTER_KEY_DERIVE_DH'', 0x57), (''CKM_SSL3_PRE_MASTER_KEY_GEN'', 0x370),
      (''CKM_SSL3_MASTER_KEY_DERIVE'', 0x371), (''CKM_SSL3_KEY_AND_MAC_DERIVE'', 0x372),
      (''CKM_SSL3_MASTER_KEY_DERIVE_DH'', 0x373), (''CKM_TLS_PRE_MASTER_KEY_GEN'', 0x374),
      (''CKM_TLS_PRF'', 0x378), (''CKM_SSL3_MD5_MAC'', 0x380), (''CKM_SSL3_SHA1_MAC'', 0x381),
      (''CKM_WTLS_PRE_MASTER_KEY_GEN'', 0x3d0), (''CKM_WTLS_MASTER_KEY_DERIVE'', 0x3d1),
      (''CKM_WTLS_MASTER_KEY_DERIVE_DH_ECC'', 0x3d2), (''CKM_WTLS_PRF'', 0x3d3),
      (''CKM_WTLS_SERVER_KEY_AND_MAC_DERIVE'', 0x3d4), (''CKM_WTLS_CLIENT_KEY_AND_MAC_DERIVE'', 0x3d5),
      (''CKM_TLS12_MAC'', 0x3d8), (''CKM_TLS12_KDF'', 0x3d9), (''CKM_TLS12_MASTER_KEY_DERIVE'', 0x3e0),
      (''CKM_TLS12_KEY_AND_MAC_DERIVE'', 0x3e1), (''CKM_TLS12_MASTER_KEY_DERIVE_DH'', 0x3e2),
      (''CKM_TLS12_KEY_SAFE_DERIVE'', 0x3e3), (''CKM_TLS_MAC'', 0x3e4), (''CKM_TLS_KDF'', 0x3e5),
      (''CKM_DES_OFB64'', 0x150), (''CKM_DES_OFB8'', 0x151), (''CKM_DES_CFB64'', 0x152),
      (''CKM_DES_CFB8'', 0x153)]"

definition parse_mechanism :: "string \<Rightarrow> GrantError + CkMechanismType" where
  "parse_mechanism s =
     (let t = trim s in
      case map_of mechanism_names t of
        Some m \<Rightarrow> Inr m
      | None \<Rightarrow>
     (case strip_hex_prefix t of
        Some h \<Rightarrow> (case parse_u64_hex h of Some n \<Rightarrow> Inr n | None \<Rightarrow> Inl (MechanismInvalidHex t))
      | None \<Rightarrow> (case parse_u64 t of Some n \<Rightarrow> Inr n | None \<Rightarrow> Inl (UnknownMechanism t))))"

definition parse_object_unique_id :: "string \<Rightarrow> GrantError + u8 list" where
  "parse_object_unique_id s =
     (let t = trim s in
      if t = [] then Inl ObjectIdEmpty
      else case hex_decode t of Some bs \<Rightarrow> Inr bs | None \<Rightarrow> Inl (ObjectIdInvalidHex t))"

end
