(* ===== verification/Identity.thy ===== *)
theory Identity
  imports Ck_Types Rust_Str
begin

text \<open>
  Who a peer is: \<^verbatim>\<open>auth/identity.rs\<close>, \<^verbatim>\<open>auth/request_identity.rs\<close> and the certificate reader of
  \<^verbatim>\<open>auth/mtls.rs\<close>.  An identity is stored with a context as a string and read back from it, and the
  owner of a context is checked by comparing strings; both are right only because the string form
  can be read back without ambiguity, which is what this theory proves.  Parsing an X.509 certificate
  and SHA-256 are library code: parameters.
\<close>

section \<open>The identity and its string form\<close>

datatype AuthenticatedIdentity =
    PeerCred (id_uid: u32)
  | Mtls (id_issuer: string) (id_subject: string) (id_spki_sha256: string)
  | Unauthenticated

datatype IdentityError =
    InvalidPeerCred string
  | InvalidEnrichedMtls string
  | InvalidMtls string
  | InvalidEscape char
  | TrailingEscape
  | UnknownIdentityFormat string

abbreviation BACKSLASH :: char where "BACKSLASH \<equiv> CHR 0x5C"
abbreviation SEMICOLON :: char where "SEMICOLON \<equiv> CHR '';''"

fun escape_char :: "char \<Rightarrow> string" where
  "escape_char c =
     (if c = BACKSLASH then [BACKSLASH, BACKSLASH] else if c = SEMICOLON then [BACKSLASH, SEMICOLON] else [c])"

definition escape_identity_component :: "string \<Rightarrow> string" where
  "escape_identity_component value = concat (map escape_char value)"

fun unescape_identity_component :: "string \<Rightarrow> IdentityError + string" where
  "unescape_identity_component [] = Inr []"
| "unescape_identity_component (c # cs) =
     (if c = BACKSLASH then
        (case cs of
           [] \<Rightarrow> Inl TrailingEscape
         | e # rest \<Rightarrow>
             if e = BACKSLASH \<or> e = SEMICOLON then map_sum id ((#) e) (unescape_identity_component rest)
             else Inl (InvalidEscape e))
      else map_sum id ((#) c) (unescape_identity_component cs))"

text \<open>The backslashes immediately before position \<open>i\<close>.\<close>

fun backslashes_before :: "string \<Rightarrow> nat \<Rightarrow> nat" where
  "backslashes_before s 0 = 0"
| "backslashes_before s (Suc j) = (if s ! j = BACKSLASH then Suc (backslashes_before s j) else 0)"

definition split_escaped_identity_body :: "string \<Rightarrow> (string \<times> string) option" where
  "split_escaped_identity_body rest =
     (case List.find (\<lambda>i. rest ! i = SEMICOLON \<and> even (backslashes_before rest i)) [0..<length rest] of
        None \<Rightarrow> None
      | Some i \<Rightarrow> map_option (\<lambda>subject. (take i rest, subject)) (strip_prefix '';subject='' (drop i rest)))"

definition legacy_dn_key :: "AuthenticatedIdentity \<Rightarrow> string option" where
  "legacy_dn_key i =
     (case i of
        Mtls issuer subject _ \<Rightarrow>
          if issuer \<noteq> [] \<or> subject \<noteq> [] then
            Some (''x509:issuer='' @ escape_identity_component issuer
                  @ '';subject='' @ escape_identity_component subject)
          else None
      | _ \<Rightarrow> None)"

definition parse_dn ::
  "IdentityError \<Rightarrow> string \<Rightarrow> string \<Rightarrow> IdentityError + AuthenticatedIdentity" where
  "parse_dn malformed spki body =
     (case split_escaped_identity_body body of
        None \<Rightarrow> Inl malformed
      | Some (issuer, subject) \<Rightarrow>
          (case unescape_identity_component issuer of
             Inl e \<Rightarrow> Inl e
           | Inr i \<Rightarrow>
               (case unescape_identity_component subject of
                  Inl e \<Rightarrow> Inl e
                | Inr s \<Rightarrow> Inr (Mtls i s spki))))"

definition find_char :: "char \<Rightarrow> string \<Rightarrow> nat option" where
  "find_char c s = List.find (\<lambda>i. s ! i = c) [0..<length s]"

definition identity_from_str :: "string \<Rightarrow> IdentityError + AuthenticatedIdentity" where
  "identity_from_str value =
     (if value = ''unauthenticated'' then Inr Unauthenticated
      else case strip_prefix ''uid='' value of
        Some uid \<Rightarrow>
          (case parse_u32 uid of None \<Rightarrow> Inl (InvalidPeerCred value) | Some u \<Rightarrow> Inr (PeerCred u))
      | None \<Rightarrow>
     (case strip_prefix ''x509:spki='' value of
        Some rest \<Rightarrow>
          (case find_char SEMICOLON rest of
             Some semi_pos \<Rightarrow>
               (case strip_prefix ''issuer='' (drop (semi_pos + 1) rest) of
                  None \<Rightarrow> Inl (InvalidEnrichedMtls value)
                | Some dn_body \<Rightarrow> parse_dn (InvalidEnrichedMtls value) (take semi_pos rest) dn_body)
           | None \<Rightarrow> Inr (Mtls [] [] rest))
      | None \<Rightarrow>
     (case strip_prefix ''x509:issuer='' value of
        Some rest \<Rightarrow> parse_dn (InvalidMtls value) [] rest
      | None \<Rightarrow> Inl (UnknownIdentityFormat value))))"

definition identity_to_string :: "AuthenticatedIdentity \<Rightarrow> string" where
  "identity_to_string i =
     (case i of
        PeerCred uid \<Rightarrow> ''uid='' @ show_nat (unat uid)
      | Mtls issuer subject spki \<Rightarrow>
          if spki = [] then
            ''x509:issuer='' @ escape_identity_component issuer @ '';subject='' @ escape_identity_component subject
          else if issuer = [] \<and> subject = [] then ''x509:spki='' @ spki
          else ''x509:spki='' @ spki @ '';issuer='' @ escape_identity_component issuer
               @ '';subject='' @ escape_identity_component subject
      | Unauthenticated \<Rightarrow> ''unauthenticated'')"

section \<open>The identity of a request\<close>

text \<open>
  What the transport says of a request: the credentials of a Unix socket peer (the outer option is
  whether the connection is a Unix socket, the inner whether the kernel gave credentials), and the
  certificate chain of a TLS peer.
\<close>

record request_transport =
  rt_uds :: "u32 option option"
  rt_peer_certs :: "u8 list list option"

datatype TcpAuthMode = TcpMtls | TcpNone
datatype UnixAuthMode = UnixPeerCred | UnixNone

datatype CertError = EmptyCertificate | UnparsableCertificate | EmptySubject

record parsed_cert =
  pc_issuer :: string
  pc_subject :: string
  pc_spki_raw :: "u8 list"

definition extract_identity ::
  "(u8 list \<Rightarrow> parsed_cert option) \<Rightarrow> (u8 list \<Rightarrow> u8 list) \<Rightarrow> u8 list
   \<Rightarrow> CertError + string \<times> string \<times> string" where
  "extract_identity from_der sha256 cert_der =
     (if cert_der = [] then Inl EmptyCertificate
      else case from_der cert_der of
             None \<Rightarrow> Inl UnparsableCertificate
           | Some cert \<Rightarrow>
               if pc_subject cert = [] then Inl EmptySubject
               else Inr (pc_issuer cert, pc_subject cert, hex_encode (sha256 (pc_spki_raw cert))))"

definition identity_from_uds :: "u32 option \<Rightarrow> UnixAuthMode \<Rightarrow> Status + AuthenticatedIdentity" where
  "identity_from_uds peer_cred unix_auth =
     (case unix_auth of
        UnixNone \<Rightarrow> Inr Unauthenticated
      | UnixPeerCred \<Rightarrow>
          (case peer_cred of None \<Rightarrow> Inl StatusUnauthenticated | Some uid \<Rightarrow> Inr (PeerCred uid)))"

definition identity_from_tcp ::
  "(u8 list \<Rightarrow> parsed_cert option) \<Rightarrow> (u8 list \<Rightarrow> u8 list) \<Rightarrow> u8 list list option \<Rightarrow> TcpAuthMode
   \<Rightarrow> Status + AuthenticatedIdentity" where
  "identity_from_tcp from_der sha256 peer_certs tcp_auth =
     (case tcp_auth of
        TcpNone \<Rightarrow> Inr Unauthenticated
      | TcpMtls \<Rightarrow>
          (case peer_certs of
             None \<Rightarrow> Inl StatusUnauthenticated
           | Some [] \<Rightarrow> Inl StatusUnauthenticated
           | Some (cert # _) \<Rightarrow>
               (case extract_identity from_der sha256 cert of
                  Inl _ \<Rightarrow> Inl StatusUnauthenticated
                | Inr (issuer, subject, spki) \<Rightarrow> Inr (Mtls issuer subject spki))))"

definition identity_from_request ::
  "(u8 list \<Rightarrow> parsed_cert option) \<Rightarrow> (u8 list \<Rightarrow> u8 list) \<Rightarrow> request_transport \<Rightarrow> TcpAuthMode \<Rightarrow> UnixAuthMode
   \<Rightarrow> Status + AuthenticatedIdentity" where
  "identity_from_request from_der sha256 request tcp_auth unix_auth =
     (case rt_uds request of
        Some peer_cred \<Rightarrow> identity_from_uds peer_cred unix_auth
      | None \<Rightarrow> identity_from_tcp from_der sha256 (rt_peer_certs request) tcp_auth)"

section \<open>The owner of a context\<close>

definition context_owner_allowed :: "string option \<Rightarrow> AuthenticatedIdentity \<Rightarrow> bool" where
  "context_owner_allowed stored live =
     (case stored of None \<Rightarrow> True | Some expected \<Rightarrow> expected = identity_to_string live)"

section \<open>Escaping\<close>

lemma escape_simps [simp]:
  "escape_identity_component [] = []"
  "escape_identity_component (c # cs) = escape_char c @ escape_identity_component cs"
  "escape_identity_component (xs @ ys) = escape_identity_component xs @ escape_identity_component ys"
  by (simp_all add: escape_identity_component_def)

declare escape_char.simps [simp del]

lemma unescape_escape [simp]:
  "unescape_identity_component (escape_identity_component v) = Inr v"
  by (induction v) (simp_all add: escape_char.simps)

lemma backslashes_before_append [simp]:
  "i \<le> length s \<Longrightarrow> backslashes_before (s @ t) i = backslashes_before s i"
  by (induction i) (simp_all add: nth_append)

lemma escaped_parity:
  "even (backslashes_before (escape_identity_component v) (length (escape_identity_component v)))
   \<and> (\<forall>i < length (escape_identity_component v).
        escape_identity_component v ! i = SEMICOLON
        \<longrightarrow> odd (backslashes_before (escape_identity_component v) i))"
proof (induction v rule: rev_induct)
  case (snoc c v)
  let ?e = "escape_identity_component v"
  have two: "backslashes_before (?e @ [BACKSLASH, d]) (Suc (length ?e)) = Suc (backslashes_before ?e (length ?e))" for d
    by (simp add: nth_append)
  have three: "backslashes_before (?e @ [BACKSLASH, d]) (Suc (Suc (length ?e)))
      = (if d = BACKSLASH then Suc (Suc (backslashes_before ?e (length ?e))) else 0)" for d
    using two[of d] by (simp add: nth_append)
  have one: "backslashes_before (?e @ [d]) (Suc (length ?e)) = (if d = BACKSLASH then Suc (backslashes_before ?e (length ?e)) else 0)" for d
    by (simp add: nth_append)
  consider "c = BACKSLASH" | "c = SEMICOLON" | "c \<noteq> BACKSLASH" "c \<noteq> SEMICOLON" by blast
  then show ?case
  proof cases
    case 1
    with snoc three show ?thesis
      by (auto simp: escape_char.simps nth_append less_Suc_eq two simp del: backslashes_before.simps)
  next
    case 2
    with snoc three show ?thesis
      by (auto simp: escape_char.simps nth_append less_Suc_eq two simp del: backslashes_before.simps)
  next
    case 3
    with snoc one show ?thesis
      by (auto simp: escape_char.simps nth_append less_Suc_eq simp del: backslashes_before.simps)
  qed
qed simp

lemma find_first_upt:
  assumes "P n" "n < m" "\<And>i. i < n \<Longrightarrow> \<not> P i"
  shows "List.find P [0..<m] = Some n"
  using assms by (auto simp: find_Some_iff intro!: exI[of _ n])

lemma split_escaped:
  "split_escaped_identity_body (escape_identity_component i @ '';subject='' @ rest)
   = Some (escape_identity_component i, rest)"
proof -
  let ?e = "escape_identity_component i" and ?t = "'';subject='' @ rest"
  have "List.find (\<lambda>k. (?e @ ?t) ! k = SEMICOLON \<and> even (backslashes_before (?e @ ?t) k)) [0..<length (?e @ ?t)]
        = Some (length ?e)"
  proof (rule find_first_upt)
    show "(?e @ ?t) ! length ?e = SEMICOLON \<and> even (backslashes_before (?e @ ?t) (length ?e))"
      using escaped_parity[of i] by (simp add: nth_append)
    show "\<not> ((?e @ ?t) ! k = SEMICOLON \<and> even (backslashes_before (?e @ ?t) k))" if "k < length ?e" for k
      using escaped_parity[of i] that by (auto simp: nth_append)
  qed simp
  then show ?thesis by (simp add: split_escaped_identity_body_def strip_prefix_def)
qed

lemma parse_dn_escaped:
  "parse_dn e spki (escape_identity_component i @ '';subject='' @ escape_identity_component s) = Inr (Mtls i s spki)"
  unfolding parse_dn_def split_escaped by simp

section \<open>Reading back\<close>

text \<open>The only part of an identity that is not escaped is the fingerprint; it must not contain the separator.\<close>

definition identity_clean :: "AuthenticatedIdentity \<Rightarrow> bool" where
  "identity_clean i = (case i of Mtls _ _ spki \<Rightarrow> SEMICOLON \<notin> set spki | _ \<Rightarrow> True)"

lemma find_char_append:
  "c \<notin> set s \<Longrightarrow> find_char c (s @ c # t) = Some (length s)"
  unfolding find_char_def by (rule find_first_upt) (auto simp: nth_append)

lemma find_char_None: "find_char c s = None \<longleftrightarrow> c \<notin> set s"
  by (auto simp: find_char_def find_None_iff in_set_conv_nth)

lemma find_char_Some: "find_char c s = Some n \<Longrightarrow> c \<notin> set (take n s)"
  by (auto simp: find_char_def find_Some_iff in_set_conv_nth)

lemma from_str_to_string:
  assumes "identity_clean i"
  shows "identity_from_str (identity_to_string i) = Inr i"
proof (cases i)
  case (PeerCred u)
  then show ?thesis by (simp add: identity_from_str_def identity_to_string_def strip_prefix_def)
next
  case (Mtls iss sub spki)
  consider "spki = []" | "spki \<noteq> []" "iss = []" "sub = []" | "spki \<noteq> []" "iss \<noteq> [] \<or> sub \<noteq> []" by blast
  then show ?thesis
  proof cases
    case 1
    then show ?thesis
      using Mtls parse_dn_escaped by (simp add: identity_from_str_def identity_to_string_def strip_prefix_def)
  next
    case 2
    then show ?thesis using Mtls assms
      by (simp add: identity_from_str_def identity_to_string_def strip_prefix_def identity_clean_def
          iffD2[OF find_char_None])
  next
    case 3
    have "find_char SEMICOLON (spki @ '';issuer='' @ t) = Some (length spki)" for t
      using assms Mtls find_char_append[of SEMICOLON spki "''issuer='' @ t"] by (simp add: identity_clean_def)
    moreover have "identity_to_string i = ''x509:spki='' @ spki @ '';issuer='' @ escape_identity_component iss
        @ '';subject='' @ escape_identity_component sub"
      using 3 Mtls by (auto simp: identity_to_string_def)
    ultimately show ?thesis using Mtls parse_dn_escaped[of _ spki iss sub]
      by (simp add: identity_from_str_def strip_prefix_def)
  qed
next
  case Unauthenticated
  then show ?thesis by (simp add: identity_from_str_def identity_to_string_def)
qed

lemma parse_dn_clean: "parse_dn e spki body = Inr i \<Longrightarrow> SEMICOLON \<notin> set spki \<Longrightarrow> identity_clean i"
  by (auto simp: parse_dn_def identity_clean_def split: option.splits sum.splits)

lemma from_str_clean: "identity_from_str s = Inr i \<Longrightarrow> identity_clean i"
  by (auto simp: identity_from_str_def find_char_None identity_clean_def split: if_splits option.splits
      dest: parse_dn_clean find_char_Some)

lemma request_identity_clean:
  "identity_from_request from_der sha256 request tcp unix = Inr i \<Longrightarrow> identity_clean i"
  by (auto simp: identity_from_request_def identity_from_uds_def identity_from_tcp_def extract_identity_def
      identity_clean_def hex_encode_no_semicolon
      split: option.splits sum.splits UnixAuthMode.splits TcpAuthMode.splits list.splits if_splits prod.splits)

lemma to_string_inj:
  "identity_clean i \<Longrightarrow> identity_clean j \<Longrightarrow> identity_to_string i = identity_to_string j \<Longrightarrow> i = j"
  by (metis from_str_to_string sum.inject(2))

section \<open>Claims\<close>

text \<open>
  C19. The string form of an identity is read back exactly: every identity the daemon can derive from
  a request, and every identity it can parse, prints to a string that parses to the same identity,
  whatever separators and backslashes the distinguished names of the certificate contain.
\<close>

theorem identity_roundtrip:
  assumes "identity_from_request from_der sha256 request tcp unix = Inr i \<or> identity_from_str s = Inr i"
  shows "identity_from_str (identity_to_string i) = Inr i"
  using assms request_identity_clean from_str_clean from_str_to_string by blast

definition sample_cert :: "u8 list \<Rightarrow> parsed_cert option" where
  "sample_cert der = Some \<lparr>pc_issuer = ''CN=a;subject=b'', pc_subject = ''CN='' @ [BACKSLASH], pc_spki_raw = der\<rparr>"

lemma sample_request:
  "identity_from_request sample_cert id \<lparr>rt_uds = None, rt_peer_certs = Some [[0xAB]]\<rparr> TcpMtls UnixPeerCred
   = Inr (Mtls ''CN=a;subject=b'' (''CN='' @ [BACKSLASH]) (hex_encode [0xAB]))"
  by (simp add: identity_from_request_def identity_from_tcp_def extract_identity_def sample_cert_def)

theorem identity_roundtrip_witness:
  "identity_from_request sample_cert id \<lparr>rt_uds = None, rt_peer_certs = Some [[0xAB]]\<rparr> TcpMtls UnixPeerCred
     = Inr (Mtls ''CN=a;subject=b'' (''CN='' @ [BACKSLASH]) (hex_encode [0xAB]))
   \<and> identity_from_str (identity_to_string (Mtls ''CN=a;subject=b'' (''CN='' @ [BACKSLASH]) (hex_encode [0xAB])))
     = Inr (Mtls ''CN=a;subject=b'' (''CN='' @ [BACKSLASH]) (hex_encode [0xAB]))"
  using identity_roundtrip[OF disjI1, OF sample_request] sample_request by blast

text \<open>
  C20. The owner check separates identities: a context stored under the identity of one request can be
  used by another request exactly when the transport gives both the same identity, so that no peer can
  present names in its certificate that make it pass for another.
\<close>

theorem owner_check_exact:
  assumes "identity_from_request from_der sha256 opener tcp unix = Inr i"
    and "identity_from_request from_der sha256 caller tcp unix = Inr j"
  shows "context_owner_allowed (Some (identity_to_string i)) j \<longleftrightarrow> i = j"
  using to_string_inj[OF request_identity_clean[OF assms(1)] request_identity_clean[OF assms(2)]]
  by (auto simp: context_owner_allowed_def)

theorem owner_check_exact_witness:
  "identity_from_request sample_cert id \<lparr>rt_uds = Some (Some 1000), rt_peer_certs = None\<rparr> TcpMtls UnixPeerCred
     = Inr (PeerCred 1000)
   \<and> identity_from_request sample_cert id \<lparr>rt_uds = Some (Some 0), rt_peer_certs = None\<rparr> TcpMtls UnixPeerCred
     = Inr (PeerCred 0)
   \<and> \<not> context_owner_allowed (Some (identity_to_string (PeerCred 1000))) (PeerCred 0)"
proof -
  have 1: "identity_from_request sample_cert id \<lparr>rt_uds = Some (Some 1000), rt_peer_certs = None\<rparr> TcpMtls UnixPeerCred
     = Inr (PeerCred 1000)"
    by (simp add: identity_from_request_def identity_from_uds_def)
  have 2: "identity_from_request sample_cert id \<lparr>rt_uds = Some (Some 0), rt_peer_certs = None\<rparr> TcpMtls UnixPeerCred
     = Inr (PeerCred 0)"
    by (simp add: identity_from_request_def identity_from_uds_def)
  show ?thesis using owner_check_exact[OF 1 2] 1 2 by simp
qed

end
