(* ===== verification/Policy.thy ===== *)
theory Policy
  imports Grant Identity
begin

text \<open>
  Who may do what (\<^verbatim>\<open>auth/policy.rs\<close>): the policy built from the configuration and the questions the
  handlers ask it.  The side effect of the token-level question, logging each peer once, is the pair
  of bounded sets at the end.
\<close>

section \<open>The configuration\<close>

datatype ExtractPolicyConfig = ConfigAllow | ConfigDeny

record ObjectAclRichConfig =
  or_id :: string
  or_extract :: "ExtractPolicyConfig option"

datatype ObjectAclSpec = ObjectBare string | ObjectRich ObjectAclRichConfig

record RichGrantConfig =
  rg_token :: string
  rg_classes :: "string list option"
  rg_mechanisms :: "string list option"
  rg_extract :: ExtractPolicyConfig
  rg_objects :: "ObjectAclSpec list option"

datatype GrantSpec = GrantBare string | GrantRich RichGrantConfig

datatype TokenAccessSpec = SpecAll string | SpecSpecific "GrantSpec list"

record PolicyEntry =
  pe_identity :: string
  pe_tokens :: TokenAccessSpec

record AuthConfig =
  ac_allow_all_authenticated :: bool
  ac_policy :: "PolicyEntry list"
  ac_anonymous_principal :: "string option"

section \<open>Building the policy\<close>

datatype TokenAccess = AllTokens | SpecificTokens "TokenGrant list"

record TokenPolicy =
  tp_rules :: "(string, TokenAccess) hashmap"
  tp_allow_all_authenticated :: bool
  tp_has_policy :: bool
  tp_anonymous_principal :: "string option"
  tp_per_object_active_cache :: bool
  tp_per_class_active_cache :: bool
  tp_per_mechanism_active_cache :: bool

datatype PolicyError =
    InvalidScalar string string
  | InvalidSelector string string SelectorError
  | InvalidName string GrantError
  | DuplicateIdentity string

text \<open>Collecting an iterator of results: the first error, or all the values.\<close>

fun collect_results :: "('e + 'a) list \<Rightarrow> 'e + 'a list" where
  "collect_results [] = Inr []"
| "collect_results (r # rs) =
     (case r of Inl e \<Rightarrow> Inl e | Inr a \<Rightarrow> map_sum id ((#) a) (collect_results rs))"

definition parse_optional :: "('a \<Rightarrow> 'e + 'b) \<Rightarrow> 'a list option \<Rightarrow> 'e + 'b list option" where
  "parse_optional f xs =
     (case xs of None \<Rightarrow> Inr None | Some l \<Rightarrow> map_sum id Some (collect_results (map f l)))"

definition extract_from_config :: "ExtractPolicyConfig \<Rightarrow> ExtractPolicy" where
  "extract_from_config e = (case e of ConfigAllow \<Rightarrow> ExtractAllow | ConfigDeny \<Rightarrow> ExtractDeny)"

definition parse_object_acl :: "string \<Rightarrow> ObjectAclSpec \<Rightarrow> PolicyError + ObjectAcl" where
  "parse_object_acl identity spec =
     (case spec of
        ObjectBare s \<Rightarrow>
          map_sum (InvalidName identity) (\<lambda>uid. \<lparr>oa_unique_id = uid, oa_extract = None\<rparr>)
            (parse_object_unique_id s)
      | ObjectRich r \<Rightarrow>
          map_sum (InvalidName identity)
            (\<lambda>uid. \<lparr>oa_unique_id = uid, oa_extract = map_option extract_from_config (or_extract r)\<rparr>)
            (parse_object_unique_id (or_id r)))"

definition parse_grant :: "string \<Rightarrow> GrantSpec \<Rightarrow> PolicyError + TokenGrant" where
  "parse_grant identity spec =
     (case spec of
        GrantBare selector_str \<Rightarrow>
          map_sum (InvalidSelector identity selector_str) grant_simple (selector_parse selector_str)
      | GrantRich rich \<Rightarrow>
          (case selector_parse (rg_token rich) of
             Inl e \<Rightarrow> Inl (InvalidSelector identity (rg_token rich) e)
           | Inr selector \<Rightarrow>
          (case parse_optional (\<lambda>s. map_sum (InvalidName identity) id (parse_class s)) (rg_classes rich) of
             Inl e \<Rightarrow> Inl e
           | Inr classes \<Rightarrow>
          (case parse_optional (\<lambda>s. map_sum (InvalidName identity) id (parse_mechanism s)) (rg_mechanisms rich) of
             Inl e \<Rightarrow> Inl e
           | Inr mechanisms \<Rightarrow>
          (case parse_optional (parse_object_acl identity) (rg_objects rich) of
             Inl e \<Rightarrow> Inl e
           | Inr objects \<Rightarrow>
               Inr \<lparr>tg_selector = selector, tg_classes = classes, tg_mechanisms = mechanisms,
                    tg_extract = extract_from_config (rg_extract rich), tg_objects = objects\<rparr>)))))"

definition parse_access :: "string \<Rightarrow> TokenAccessSpec \<Rightarrow> PolicyError + TokenAccess" where
  "parse_access identity access =
     (case access of
        SpecAll keyword \<Rightarrow>
          (let keyword = trim keyword in
           if keyword = ''all'' \<or> keyword = ''*'' then Inr AllTokens
           else Inl (InvalidScalar identity keyword))
      | SpecSpecific grant_specs \<Rightarrow>
          map_sum id SpecificTokens (collect_results (map (parse_grant identity) grant_specs)))"

definition normalize_policy_identity :: "string \<Rightarrow> string" where
  "normalize_policy_identity identity =
     (case strip_prefix ''uid='' identity of
        None \<Rightarrow> identity
      | Some uid \<Rightarrow>
          (case parse_u32 uid of None \<Rightarrow> identity | Some n \<Rightarrow> ''uid='' @ show_nat (unat n)))"

fun policy_rules ::
  "PolicyEntry list \<Rightarrow> (string, TokenAccess) hashmap \<Rightarrow> PolicyError + (string, TokenAccess) hashmap" where
  "policy_rules [] rules = Inr rules"
| "policy_rules (entry # entries) rules =
     (case parse_access (pe_identity entry) (pe_tokens entry) of
        Inl e \<Rightarrow> Inl e
      | Inr access \<Rightarrow>
          (let key = normalize_policy_identity (pe_identity entry) in
           if hget rules key \<noteq> None then Inl (DuplicateIdentity (pe_identity entry))
           else policy_rules entries (hput key access rules)))"

definition any_grant :: "(TokenGrant \<Rightarrow> bool) \<Rightarrow> (string, TokenAccess) hashmap \<Rightarrow> bool" where
  "any_grant P rules =
     list_ex (\<lambda>access. case access of SpecificTokens grants \<Rightarrow> list_ex P grants | AllTokens \<Rightarrow> False) (hvalues rules)"

definition policy_from_config :: "AuthConfig \<Rightarrow> PolicyError + TokenPolicy" where
  "policy_from_config auth =
     map_sum id
       (\<lambda>rules.
          \<lparr>tp_rules = rules,
           tp_allow_all_authenticated = ac_allow_all_authenticated auth,
           tp_has_policy = (rules \<noteq> []),
           tp_anonymous_principal = ac_anonymous_principal auth,
           tp_per_object_active_cache = any_grant (\<lambda>g. tg_objects g \<noteq> None) rules,
           tp_per_class_active_cache = any_grant (\<lambda>g. tg_classes g \<noteq> None) rules,
           tp_per_mechanism_active_cache = any_grant (\<lambda>g. tg_mechanisms g \<noteq> None) rules\<rparr>)
       (policy_rules (ac_policy auth) [])"

section \<open>The questions\<close>

definition allows_unauthenticated :: "TokenPolicy \<Rightarrow> bool" where
  "allows_unauthenticated p \<longleftrightarrow> \<not> tp_has_policy p \<or> tp_anonymous_principal p \<noteq> None"

definition audit_identity :: "TokenPolicy \<Rightarrow> string option \<Rightarrow> string option" where
  "audit_identity p stored =
     (if stored = None \<or> stored = Some ''unauthenticated'' then
        (case tp_anonymous_principal p of Some anon \<Rightarrow> Some anon | None \<Rightarrow> stored)
      else stored)"

definition check_access :: "TokenAccess \<Rightarrow> string \<Rightarrow> string \<Rightarrow> bool" where
  "check_access access token_label token_serial =
     (case access of
        AllTokens \<Rightarrow> True
      | SpecificTokens grants \<Rightarrow> list_ex (\<lambda>g. matches_token g token_label token_serial) grants)"

definition spki_key :: "string \<Rightarrow> string" where
  "spki_key spki = ''x509:spki='' @ spki"

definition allows :: "TokenPolicy \<Rightarrow> AuthenticatedIdentity \<Rightarrow> string \<Rightarrow> string \<Rightarrow> bool" where
  "allows p identity token_label token_serial =
     (if identity = Unauthenticated then allows_unauthenticated p
      else if tp_allow_all_authenticated p then True
      else case identity of
        Mtls _ _ spki \<Rightarrow>
          (case (if spki \<noteq> [] then hget (tp_rules p) (spki_key spki) else None) of
             Some access \<Rightarrow> check_access access token_label token_serial
           | None \<Rightarrow>
               (case Option.bind (legacy_dn_key identity) (hget (tp_rules p)) of
                  Some access \<Rightarrow> check_access access token_label token_serial
                | None \<Rightarrow> False))
      | _ \<Rightarrow>
          (case hget (tp_rules p) (identity_to_string identity) of
             Some AllTokens \<Rightarrow> True
           | Some (SpecificTokens grants) \<Rightarrow> list_ex (\<lambda>g. matches_token g token_label token_serial) grants
           | None \<Rightarrow> False))"

definition resolve_access :: "TokenPolicy \<Rightarrow> AuthenticatedIdentity \<Rightarrow> TokenAccess option" where
  "resolve_access p identity =
     (case identity of
        Unauthenticated \<Rightarrow> None
      | Mtls _ _ spki \<Rightarrow>
          (case (if spki \<noteq> [] then hget (tp_rules p) (spki_key spki) else None) of
             Some access \<Rightarrow> Some access
           | None \<Rightarrow> Option.bind (legacy_dn_key identity) (hget (tp_rules p)))
      | _ \<Rightarrow> hget (tp_rules p) (identity_to_string identity))"

text \<open>
  The sub-token questions share their first steps: a peer that is unauthenticated, an open policy, no
  rule or an unrestricted rule gives the default answer; otherwise the grants of the rule that match
  the token decide.
\<close>

definition with_matching_grants ::
  "TokenPolicy \<Rightarrow> AuthenticatedIdentity \<Rightarrow> string \<Rightarrow> string \<Rightarrow> bool \<Rightarrow> (TokenGrant list \<Rightarrow> bool) \<Rightarrow> bool" where
  "with_matching_grants p identity token_label token_serial unrestricted decide =
     (if identity = Unauthenticated then unrestricted
      else if tp_allow_all_authenticated p then unrestricted
      else case resolve_access p identity of
        Some (SpecificTokens grants) \<Rightarrow> decide (filter (\<lambda>g. matches_token g token_label token_serial) grants)
      | _ \<Rightarrow> unrestricted)"

definition extract_allowed :: "TokenPolicy \<Rightarrow> AuthenticatedIdentity \<Rightarrow> string \<Rightarrow> string \<Rightarrow> bool" where
  "extract_allowed p identity token_label token_serial =
     with_matching_grants p identity token_label token_serial True
       (\<lambda>matching. \<not> list_ex (\<lambda>g. tg_extract g = ExtractDeny) matching)"

definition object_override :: "ExtractPolicy \<Rightarrow> u8 list \<Rightarrow> TokenGrant \<Rightarrow> bool" where
  "object_override e uid grant =
     (case tg_objects grant of
        None \<Rightarrow> False
      | Some acls \<Rightarrow> list_ex (\<lambda>acl. oa_unique_id acl = uid \<and> oa_extract acl = Some e) acls)"

definition extract_allowed_for_object ::
  "TokenPolicy \<Rightarrow> AuthenticatedIdentity \<Rightarrow> string \<Rightarrow> string \<Rightarrow> u8 list \<Rightarrow> bool" where
  "extract_allowed_for_object p identity token_label token_serial uid =
     with_matching_grants p identity token_label token_serial True
       (\<lambda>matching.
          if matching = [] then True
          else if list_ex (object_override ExtractDeny uid) matching then False
          else if list_ex (object_override ExtractAllow uid) matching then True
          else \<not> list_ex (\<lambda>g. tg_extract g = ExtractDeny) matching)"

definition allows_mechanism ::
  "TokenPolicy \<Rightarrow> AuthenticatedIdentity \<Rightarrow> string \<Rightarrow> string \<Rightarrow> CkMechanismType \<Rightarrow> bool" where
  "allows_mechanism p identity token_label token_serial mech =
     with_matching_grants p identity token_label token_serial True
       (\<lambda>matching.
          if matching = [] then True
          else list_ex (\<lambda>g. case tg_mechanisms g of None \<Rightarrow> True | Some l \<Rightarrow> mech \<in> set l) matching)"

definition allows_class ::
  "TokenPolicy \<Rightarrow> AuthenticatedIdentity \<Rightarrow> string \<Rightarrow> string \<Rightarrow> CkObjectClass \<Rightarrow> bool" where
  "allows_class p identity token_label token_serial cls =
     with_matching_grants p identity token_label token_serial True
       (\<lambda>matching.
          if matching = [] then True
          else list_ex (\<lambda>g. case tg_classes g of None \<Rightarrow> True | Some l \<Rightarrow> cls \<in> set l) matching)"

definition has_object_extract_override ::
  "TokenPolicy \<Rightarrow> AuthenticatedIdentity \<Rightarrow> string \<Rightarrow> string \<Rightarrow> bool" where
  "has_object_extract_override p identity token_label token_serial =
     with_matching_grants p identity token_label token_serial False
       (\<lambda>matching. list_ex (\<lambda>g. case tg_objects g of None \<Rightarrow> False
                                  | Some acls \<Rightarrow> list_ex (\<lambda>acl. oa_extract acl \<noteq> None) acls) matching)"

definition allows_object_use ::
  "TokenPolicy \<Rightarrow> AuthenticatedIdentity \<Rightarrow> string \<Rightarrow> string \<Rightarrow> u8 list \<Rightarrow> bool" where
  "allows_object_use p identity token_label token_serial uid =
     with_matching_grants p identity token_label token_serial True
       (\<lambda>matching.
          if matching = [] then True
          else list_ex (\<lambda>g. case tg_objects g of None \<Rightarrow> True
                               | Some acls \<Rightarrow> list_ex (\<lambda>acl. oa_unique_id acl = uid) acls) matching)"

section \<open>Which peers have been logged\<close>

definition LOG_DEDUP_CAP :: nat where
  "LOG_DEDUP_CAP = 1024"

record LogDedupSet =
  ld_seen :: "string set"
  ld_order :: "string list"

definition log_dedup_new :: LogDedupSet where
  "log_dedup_new = \<lparr>ld_seen = {}, ld_order = []\<rparr>"

fun log_dedup_evict :: "string set \<Rightarrow> string list \<Rightarrow> LogDedupSet" where
  "log_dedup_evict seen [] = \<lparr>ld_seen = seen, ld_order = []\<rparr>"
| "log_dedup_evict seen (oldest # order) =
     (if length (oldest # order) > LOG_DEDUP_CAP then log_dedup_evict (seen - {oldest}) order
      else \<lparr>ld_seen = seen, ld_order = oldest # order\<rparr>)"

definition log_dedup_insert :: "string \<Rightarrow> LogDedupSet \<Rightarrow> bool \<times> LogDedupSet" where
  "log_dedup_insert key d =
     (if key \<in> ld_seen d then (False, d)
      else (True, log_dedup_evict (insert key (ld_seen d)) (ld_order d @ [key])))"

text \<open>What the token-level question does to the two sets; the answer does not depend on them.\<close>

record auth_log =
  al_logged_spki :: LogDedupSet
  al_warned_legacy :: LogDedupSet

definition allows_log :: "TokenPolicy \<Rightarrow> AuthenticatedIdentity \<Rightarrow> auth_log \<Rightarrow> auth_log" where
  "allows_log p identity log =
     (if identity = Unauthenticated \<or> tp_allow_all_authenticated p then log
      else case identity of
        Mtls _ _ spki \<Rightarrow>
          (let log1 = (if spki \<noteq> []
                       then log\<lparr>al_logged_spki := snd (log_dedup_insert spki (al_logged_spki log))\<rparr>
                       else log)
           in if spki \<noteq> [] \<and> hget (tp_rules p) (spki_key spki) \<noteq> None then log1
              else case legacy_dn_key identity of
                     None \<Rightarrow> log1
                   | Some legacy_key \<Rightarrow>
                       if hget (tp_rules p) legacy_key \<noteq> None
                       then log1\<lparr>al_warned_legacy := snd (log_dedup_insert legacy_key (al_warned_legacy log1))\<rparr>
                       else log1)
      | _ \<Rightarrow> log)"

end
