(* ===== verification/Policy_Decisions.thy ===== *)
theory Policy_Decisions
  imports Policy
begin

text \<open>
  What the policy decides, in terms of the configuration file it was built from: the rule that speaks
  for a peer, the tokens it opens, and the answers of the sub-token questions when no grant
  restricts them.
\<close>

section \<open>From the file to the rules\<close>

definition entry_access :: "PolicyEntry \<Rightarrow> TokenAccess option" where
  "entry_access e = (case parse_access (pe_identity e) (pe_tokens e) of Inr a \<Rightarrow> Some a | Inl _ \<Rightarrow> None)"

definition entry_for :: "(string \<Rightarrow> bool) \<Rightarrow> PolicyEntry list \<Rightarrow> PolicyEntry option" where
  "entry_for P entries = List.find (\<lambda>e. P (pe_identity e)) entries"

lemma policy_rules_lookup:
  "policy_rules entries rules = Inr rules' \<Longrightarrow>
   hget rules' key =
     (case hget rules key of
        Some a \<Rightarrow> Some a
      | None \<Rightarrow> Option.bind (entry_for (\<lambda>s. normalize_policy_identity s = key) entries) entry_access)"
proof (induction entries arbitrary: rules)
  case (Cons e es)
  then obtain a where a: "parse_access (pe_identity e) (pe_tokens e) = Inr a"
    and fresh: "hget rules (normalize_policy_identity (pe_identity e)) = None"
    and rest: "policy_rules es (hput (normalize_policy_identity (pe_identity e)) a rules) = Inr rules'"
    by (auto simp: Let_def split: sum.splits if_splits)
  from Cons.IH[OF rest] a fresh show ?case
    by (auto simp: entry_for_def entry_access_def split: option.splits)
qed (auto simp: entry_for_def split: option.splits)

lemma policy_rules_parse:
  "policy_rules entries rules = Inr rules' \<Longrightarrow> e \<in> set entries \<Longrightarrow> entry_access e \<noteq> None"
  by (induction entries arbitrary: rules)
    (auto simp: Let_def entry_access_def split: sum.splits if_splits)

lemma policy_rules_hwf: "policy_rules entries rules = Inr rules' \<Longrightarrow> hwf rules \<Longrightarrow> hwf rules'"
  by (induction entries arbitrary: rules) (auto simp: Let_def split: sum.splits if_splits)

lemma policy_rules_Nil:
  "policy_rules entries rules = Inr rules' \<Longrightarrow> rules' = [] \<longleftrightarrow> entries = [] \<and> rules = []"
proof (induction entries arbitrary: rules)
  case (Cons e es)
  then show ?case by (auto simp: Let_def update_nonempty split: sum.splits if_splits)
qed auto

lemma from_config_rules:
  assumes "policy_from_config cfg = Inr p"
  shows "policy_rules (ac_policy cfg) [] = Inr (tp_rules p)"
    "tp_allow_all_authenticated p = ac_allow_all_authenticated cfg"
    "tp_anonymous_principal p = ac_anonymous_principal cfg"
    "tp_has_policy p \<longleftrightarrow> ac_policy cfg \<noteq> []"
  using assms policy_rules_Nil[of "ac_policy cfg" "[]"]
  by (auto simp: policy_from_config_def map_sum_def split: sum.splits)

lemma rule_lookup:
  "policy_from_config cfg = Inr p \<Longrightarrow>
   hget (tp_rules p) key
   = Option.bind (entry_for (\<lambda>s. normalize_policy_identity s = key) (ac_policy cfg)) entry_access"
  using policy_rules_lookup[OF from_config_rules(1)] by simp

lemma find_in_set: "List.find P xs = Some x \<Longrightarrow> x \<in> set xs"
  by (auto simp: find_Some_iff)

lemma rule_lookup_access:
  assumes "policy_from_config cfg = Inr p" "entry_for P (ac_policy cfg) = Some e"
  shows "\<exists>a. entry_access e = Some a"
proof -
  have "e \<in> set (ac_policy cfg)" using assms(2) unfolding entry_for_def by (rule find_in_set)
  with policy_rules_parse[OF from_config_rules(1)[OF assms(1)]] show ?thesis by auto
qed

section \<open>The entry that speaks for a peer\<close>

text \<open>An identity of the file names a Unix user when its number, in any accepted spelling, is the user's.\<close>

definition names_uid :: "u32 \<Rightarrow> string \<Rightarrow> bool" where
  "names_uid u s = (case strip_prefix ''uid='' s of None \<Rightarrow> False | Some x \<Rightarrow> parse_u32 x = Some u)"

definition policy_entry :: "AuthConfig \<Rightarrow> AuthenticatedIdentity \<Rightarrow> PolicyEntry option" where
  "policy_entry cfg i =
     (case i of
        Unauthenticated \<Rightarrow> None
      | PeerCred u \<Rightarrow> entry_for (names_uid u) (ac_policy cfg)
      | Mtls _ _ spki \<Rightarrow>
          (case entry_for (\<lambda>s. spki \<noteq> [] \<and> s = spki_key spki) (ac_policy cfg) of
             Some e \<Rightarrow> Some e
           | None \<Rightarrow> entry_for (\<lambda>s. legacy_dn_key i = Some s) (ac_policy cfg)))"

lemma show_u32_inj: "show_nat (unat (a :: u32)) = show_nat (unat b) \<Longrightarrow> a = b"
  by (metis option.inject parse_u32_show)

lemma normalize_uid: "normalize_policy_identity s = ''uid='' @ show_nat (unat u) \<longleftrightarrow> names_uid u s"
proof (cases "strip_prefix ''uid='' s")
  case None
  then have "s \<noteq> ''uid='' @ x" for x by (metis option.distinct(1) strip_prefix_append)
  with None show ?thesis by (simp add: normalize_policy_identity_def names_uid_def)
next
  case (Some x)
  then have "s = ''uid='' @ x" by (simp add: strip_prefix_Some_iff)
  with Some show ?thesis
    by (auto simp: normalize_policy_identity_def names_uid_def dest: show_u32_inj split: option.splits)
qed

lemma normalize_x509: "normalize_policy_identity s = ''x509:'' @ t \<longleftrightarrow> s = ''x509:'' @ t"
  by (auto simp: normalize_policy_identity_def strip_prefix_def split: option.splits)

lemma legacy_dn_key_x509: "legacy_dn_key i = Some k \<Longrightarrow> \<exists>t. k = ''x509:'' @ t"
  by (auto simp: legacy_dn_key_def split: AuthenticatedIdentity.splits if_splits)

lemma entry_for_cong: "(\<And>s. P s = Q s) \<Longrightarrow> entry_for P es = entry_for Q es"
  by (simp add: entry_for_def)

lemma entry_for_False [simp]: "entry_for (\<lambda>s. False) es = None"
  by (simp add: entry_for_def find_None_iff)

lemma resolve_access_entry:
  assumes "policy_from_config cfg = Inr p"
  shows "resolve_access p i = Option.bind (policy_entry cfg i) entry_access"
proof (cases i)
  case (PeerCred u)
  then show ?thesis
    by (simp add: resolve_access_def policy_entry_def identity_to_string_def rule_lookup[OF assms]
        normalize_uid[simplified])
next
  case (Mtls iss sub spki)
  have spki: "(if spki \<noteq> [] then hget (tp_rules p) (spki_key spki) else None)
      = Option.bind (entry_for (\<lambda>s. spki \<noteq> [] \<and> s = spki_key spki) (ac_policy cfg)) entry_access"
    using normalize_x509[of _ "''spki='' @ spki"] by (simp add: rule_lookup[OF assms] spki_key_def)
  have dn: "Option.bind (legacy_dn_key i) (hget (tp_rules p))
      = Option.bind (entry_for (\<lambda>s. legacy_dn_key i = Some s) (ac_policy cfg)) entry_access"
  proof (cases "legacy_dn_key i")
    case (Some k)
    then obtain t where "k = ''x509:'' @ t" using legacy_dn_key_x509 by blast
    with Some have "entry_for (\<lambda>s. normalize_policy_identity s = k) (ac_policy cfg)
        = entry_for (\<lambda>s. legacy_dn_key i = Some s) (ac_policy cfg)"
      using normalize_x509[of _ t] by (intro entry_for_cong) auto
    with Some show ?thesis by (simp add: rule_lookup[OF assms])
  qed simp
  show ?thesis
  proof (cases "entry_for (\<lambda>s. spki \<noteq> [] \<and> s = spki_key spki) (ac_policy cfg)")
    case None
    with Mtls spki dn show ?thesis by (simp add: resolve_access_def policy_entry_def)
  next
    case (Some e)
    with rule_lookup_access[OF assms Some] Mtls spki show ?thesis
      by (auto simp: resolve_access_def policy_entry_def)
  qed
qed (simp add: resolve_access_def policy_entry_def)

lemma policy_entry_access:
  "policy_from_config cfg = Inr p \<Longrightarrow> policy_entry cfg i = Some e \<Longrightarrow> \<exists>a. entry_access e = Some a"
  by (auto simp: policy_entry_def split: AuthenticatedIdentity.splits option.splits intro: rule_lookup_access)

section \<open>The tokens an entry opens\<close>

definition grant_token :: "GrantSpec \<Rightarrow> string" where
  "grant_token g = (case g of GrantBare s \<Rightarrow> s | GrantRich r \<Rightarrow> rg_token r)"

definition entry_opens :: "PolicyEntry \<Rightarrow> string \<Rightarrow> string \<Rightarrow> bool" where
  "entry_opens e token_label token_serial =
     (case pe_tokens e of
        SpecAll _ \<Rightarrow> True
      | SpecSpecific gs \<Rightarrow> list_ex (\<lambda>g. selects (grant_token g) token_label token_serial) gs)"

lemma collect_results_Inr: "collect_results rs = Inr xs \<longleftrightarrow> rs = map Inr xs"
proof (induction rs arbitrary: xs)
  case (Cons r rs)
  show ?case
  proof (cases r)
    case (Inr a)
    with Cons.IH show ?thesis by (cases "collect_results rs") (auto simp: Cons_eq_map_conv)
  qed auto
qed auto

lemma parse_grant_matches:
  assumes "parse_grant identity spec = Inr g"
  shows "matches_token g l t = selects (grant_token spec) l t"
proof -
  have "selector_parse (grant_token spec) = Inr (tg_selector g)"
    using assms by (auto simp: parse_grant_def grant_token_def grant_simple_def map_sum_def split: GrantSpec.splits sum.splits)
  with parse_matches[of "grant_token spec" l t] show ?thesis by (simp add: matches_token_def)
qed

lemma entry_access_opens:
  assumes "entry_access e = Some a"
  shows "check_access a l t = entry_opens e l t"
proof (cases "pe_tokens e")
  case (SpecAll k)
  with assms show ?thesis
    by (auto simp: entry_access_def parse_access_def Let_def check_access_def entry_opens_def split: if_splits)
next
  case (SpecSpecific gs)
  with assms obtain grants where g: "map (parse_grant (pe_identity e)) gs = map Inr grants"
    and a: "a = SpecificTokens grants"
    by (auto simp: entry_access_def parse_access_def map_sum_def collect_results_Inr split: sum.splits)
  have "list_ex (\<lambda>g. matches_token g l t) grants = list_ex (\<lambda>g. selects (grant_token g) l t) gs"
    using g
  proof (induction gs arbitrary: grants)
    case (Cons s gs)
    then obtain g gr where "grants = g # gr" "parse_grant (pe_identity e) s = Inr g"
      "map (parse_grant (pe_identity e)) gs = map Inr gr" by auto
    with Cons.IH parse_grant_matches show ?case by auto
  qed simp
  with a SpecSpecific show ?thesis by (simp add: check_access_def entry_opens_def)
qed

lemma allows_by_access:
  "allows p i l t =
     (if i = Unauthenticated then allows_unauthenticated p
      else tp_allow_all_authenticated p
        \<or> (case resolve_access p i of None \<Rightarrow> False | Some a \<Rightarrow> check_access a l t))"
  by (auto simp: allows_def resolve_access_def check_access_def
      split: AuthenticatedIdentity.splits option.splits TokenAccess.splits)

lemma allows_exact:
  assumes "policy_from_config cfg = Inr p"
  shows "allows p i token_label token_serial \<longleftrightarrow>
     (if i = Unauthenticated then ac_policy cfg = [] \<or> ac_anonymous_principal cfg \<noteq> None
      else ac_allow_all_authenticated cfg
        \<or> (\<exists>e. policy_entry cfg i = Some e \<and> entry_opens e token_label token_serial))"
proof -
  note c = from_config_rules[OF assms]
  have "(case resolve_access p i of None \<Rightarrow> False | Some a \<Rightarrow> check_access a token_label token_serial)
      \<longleftrightarrow> (\<exists>e. policy_entry cfg i = Some e \<and> entry_opens e token_label token_serial)"
    using policy_entry_access[OF assms] entry_access_opens
    by (cases "policy_entry cfg i") (fastforce simp: resolve_access_entry[OF assms])+
  then show ?thesis by (simp add: allows_by_access allows_unauthenticated_def c)
qed

text \<open>
  C21. Access to a token is exactly what the configuration file says: an unauthenticated peer gets in
  only when there is no policy at all or an anonymous principal is named; an authenticated one when
  every authenticated peer is admitted, or when the one entry that speaks for it opens the token.
  That entry is, for a Unix user, the one that spells its number; for a certificate, the entry with
  its key fingerprint, and only without such an entry the one with its names.  No other entry counts.
\<close>

theorem token_access_exact:
  assumes "policy_from_config cfg = Inr p"
  shows "allows p i token_label token_serial \<longleftrightarrow>
     (if i = Unauthenticated then ac_policy cfg = [] \<or> ac_anonymous_principal cfg \<noteq> None
      else ac_allow_all_authenticated cfg
        \<or> (\<exists>e. policy_entry cfg i = Some e \<and> entry_opens e token_label token_serial))"
  using assms by (rule allows_exact)

definition sample_auth :: AuthConfig where
  "sample_auth = \<lparr>ac_allow_all_authenticated = False,
     ac_policy = [\<lparr>pe_identity = ''uid=+01000'', pe_tokens = SpecSpecific [GrantBare ''serial:AB ''] \<rparr>],
     ac_anonymous_principal = None\<rparr>"

definition sample_grant :: TokenGrant where
  "sample_grant = grant_simple (Serial ''AB'')"

definition sample_policy :: TokenPolicy where
  "sample_policy = \<lparr>tp_rules = [(''uid=1000'', SpecificTokens [sample_grant])], tp_allow_all_authenticated = False,
     tp_has_policy = True, tp_anonymous_principal = None, tp_per_object_active_cache = False,
     tp_per_class_active_cache = False, tp_per_mechanism_active_cache = False\<rparr>"

lemma sample_digits: "digit_char 0 = CHR ''0''" "digit_char (Suc 0) = CHR ''1''"
  by code_simp+

lemma sample_numbers:
  "parse_u32 ''+01000'' = Some 1000" "show_nat 1000 = ''1000''"
  by (simp_all add: parse_u32_def from_str_radix_def to_digit_def Let_def show_nat.simps sample_digits)

lemma sample_normalized: "normalize_policy_identity ''uid=+01000'' = ''uid=1000''"
  by (simp add: normalize_policy_identity_def strip_prefix_def sample_numbers)

lemma sample_built: "policy_from_config sample_auth = Inr sample_policy"
proof -
  have "selector_parse ''serial:AB '' = Inr (Serial ''AB'')"
    using parse_serial[of "''AB ''"] by (simp add: padding_def trim_field_padding_def trim_end_matches_def)
  then show ?thesis
    by (simp add: policy_from_config_def sample_auth_def sample_policy_def sample_grant_def parse_access_def
        parse_grant_def grant_simple_def any_grant_def hvalues_def sample_normalized)
qed

theorem token_access_exact_witness:
  "policy_from_config sample_auth = Inr sample_policy
   \<and> allows sample_policy (PeerCred 1000) ''x'' ''AB  '' \<and> \<not> allows sample_policy (PeerCred 1001) ''x'' ''AB''"
proof -
  have 1: "policy_entry sample_auth (PeerCred 1000) = Some (hd (ac_policy sample_auth))"
    "policy_entry sample_auth (PeerCred 1001) = None"
    by (simp_all add: policy_entry_def entry_for_def sample_auth_def names_uid_def strip_prefix_def sample_numbers)
  have 3: "selects ''serial:AB '' ''x'' ''AB  ''"
    unfolding selects_def by (rule exI[of _ "''AB ''"]) (simp add: padding_def trim_field_padding_def trim_end_matches_def)
  have "entry_opens (hd (ac_policy sample_auth)) ''x'' ''AB  ''"
    using 3 by (simp add: entry_opens_def sample_auth_def grant_token_def)
  with 1 token_access_exact[OF sample_built, of "PeerCred 1000" "''x''" "''AB  ''"]
    token_access_exact[OF sample_built, of "PeerCred 1001" "''x''" "''AB''"]
  show ?thesis using sample_built by (simp add: sample_auth_def)
qed

section \<open>The questions below the token\<close>

lemma any_grant_False:
  assumes "hwf rules" "\<not> any_grant P rules" "hget rules k = Some (SpecificTokens grants)" "g \<in> set grants"
  shows "\<not> P g"
proof -
  have "SpecificTokens grants \<in> set (hvalues rules)" using assms(1,3) by (auto simp: set_hvalues)
  with assms(2,4) show ?thesis by (fastforce simp: any_grant_def list_ex_iff)
qed

lemma resolve_access_rule: "resolve_access p i = Some a \<Longrightarrow> \<exists>k. hget (tp_rules p) k = Some a"
  by (auto simp: resolve_access_def Option.bind_eq_Some_conv split: AuthenticatedIdentity.splits option.splits if_splits)

lemma with_matching_default:
  assumes "\<And>grants. resolve_access p i = Some (SpecificTokens grants) \<Longrightarrow>
             decide (filter (\<lambda>g. matches_token g l t) grants) = d"
  shows "with_matching_grants p i l t d decide = d"
  using assms by (auto simp: with_matching_grants_def split: option.splits TokenAccess.splits)

lemma unrestricted_matching:
  assumes "\<And>grants g. resolve_access p i = Some (SpecificTokens grants) \<Longrightarrow> g \<in> set grants \<Longrightarrow> P g"
  shows "with_matching_grants p i l t True (\<lambda>matching. if matching = [] then True else list_ex P matching)"
proof -
  have "(if gs = [] then True else list_ex P gs) = True" if "\<And>g. g \<in> set gs \<Longrightarrow> P g" for gs
    using that by (cases gs) auto
  then have "with_matching_grants p i l t True (\<lambda>matching. if matching = [] then True else list_ex P matching) = True"
    using assms by (intro with_matching_default) (metis filter_is_subset subsetD)
  then show ?thesis by simp
qed

lemma inactive_grants:
  assumes "policy_from_config cfg = Inr p" "resolve_access p i = Some (SpecificTokens grants)" "g \<in> set grants"
  shows "\<not> tp_per_mechanism_active_cache p \<Longrightarrow> tg_mechanisms g = None"
    and "\<not> tp_per_class_active_cache p \<Longrightarrow> tg_classes g = None"
    and "\<not> tp_per_object_active_cache p \<Longrightarrow> tg_objects g = None"
proof -
  obtain k where k: "hget (tp_rules p) k = Some (SpecificTokens grants)" using resolve_access_rule[OF assms(2)] by blast
  have "hwf (tp_rules p)" using policy_rules_hwf[OF from_config_rules(1)[OF assms(1)]] by simp
  note ng = any_grant_False[OF this _ k assms(3)]
  have c: "tp_per_object_active_cache p = any_grant (\<lambda>g. tg_objects g \<noteq> None) (tp_rules p)"
    "tp_per_class_active_cache p = any_grant (\<lambda>g. tg_classes g \<noteq> None) (tp_rules p)"
    "tp_per_mechanism_active_cache p = any_grant (\<lambda>g. tg_mechanisms g \<noteq> None) (tp_rules p)"
    using assms(1) by (auto simp: policy_from_config_def map_sum_def split: sum.splits)
  show "\<not> tp_per_mechanism_active_cache p \<Longrightarrow> tg_mechanisms g = None"
    using ng[of "\<lambda>g. tg_mechanisms g \<noteq> None"] c(3) by blast
  show "\<not> tp_per_class_active_cache p \<Longrightarrow> tg_classes g = None"
    using ng[of "\<lambda>g. tg_classes g \<noteq> None"] c(2) by blast
  show "\<not> tp_per_object_active_cache p \<Longrightarrow> tg_objects g = None"
    using ng[of "\<lambda>g. tg_objects g \<noteq> None"] c(1) by blast
qed

lemma no_override_falls_back:
  assumes "\<not> has_object_extract_override p i l t"
  shows "extract_allowed_for_object p i l t uid = extract_allowed p i l t"
proof -
  have "\<not> list_ex (object_override e uid) gs"
    if "\<not> list_ex (\<lambda>g. case tg_objects g of None \<Rightarrow> False | Some acls \<Rightarrow> list_ex (\<lambda>acl. oa_extract acl \<noteq> None) acls) gs"
    for e gs using that by (induction gs) (auto simp: object_override_def list_ex_iff split: option.splits)
  with assms show ?thesis
    by (auto simp: has_object_extract_override_def extract_allowed_for_object_def extract_allowed_def
        with_matching_grants_def split: option.splits TokenAccess.splits)
qed

lemma inactive_has_no_override:
  assumes "policy_from_config cfg = Inr p" "\<not> tp_per_object_active_cache p"
  shows "\<not> has_object_extract_override p i l t"
proof -
  have "with_matching_grants p i l t False
      (\<lambda>matching. list_ex (\<lambda>g. case tg_objects g of None \<Rightarrow> False
         | Some acls \<Rightarrow> list_ex (\<lambda>acl. oa_extract acl \<noteq> None) acls) matching) = False"
    using inactive_grants(3)[OF assms(1) _ _ assms(2)]
    by (intro with_matching_default) (fastforce simp: list_ex_iff)
  then show ?thesis by (simp add: has_object_extract_override_def)
qed

text \<open>
  The flags that let a request skip the sub-token questions are exact: when no grant of the file
  lists mechanisms, classes or objects, the question that is skipped would have been answered with
  yes for every peer, token, mechanism, class and object, and the question about extracting a single
  object agrees with the one about the token.
\<close>

theorem policy_shortcuts_transparent:
  assumes "policy_from_config cfg = Inr p"
  shows "(\<not> tp_per_mechanism_active_cache p \<longrightarrow> allows_mechanism p i l t mech)
    \<and> (\<not> tp_per_class_active_cache p \<longrightarrow> allows_class p i l t cls)
    \<and> (\<not> tp_per_object_active_cache p \<longrightarrow>
         allows_object_use p i l t uid \<and> extract_allowed_for_object p i l t uid = extract_allowed p i l t)"
proof -
  note n = inactive_grants[OF assms]
  have 1: "allows_mechanism p i l t mech" if "\<not> tp_per_mechanism_active_cache p"
    unfolding allows_mechanism_def by (rule unrestricted_matching) (simp add: n(1)[OF _ _ that])
  have 2: "allows_class p i l t cls" if "\<not> tp_per_class_active_cache p"
    unfolding allows_class_def by (rule unrestricted_matching) (simp add: n(2)[OF _ _ that])
  have 3: "allows_object_use p i l t uid" if "\<not> tp_per_object_active_cache p"
    unfolding allows_object_use_def by (rule unrestricted_matching) (simp add: n(3)[OF _ _ that])
  show ?thesis using 1 2 3 no_override_falls_back[OF inactive_has_no_override[OF assms]] by blast
qed

theorem policy_shortcuts_transparent_witness:
  "policy_from_config sample_auth = Inr sample_policy
   \<and> \<not> tp_per_mechanism_active_cache sample_policy
   \<and> allows_mechanism sample_policy (PeerCred 1000) ''x'' ''AB'' 0x1087"
  using policy_shortcuts_transparent[OF sample_built, of "PeerCred 1000" "''x''" "''AB''" "0x1087"] sample_built
  by (simp add: sample_policy_def)

section \<open>The bounded log sets\<close>

definition log_dedup_inv :: "LogDedupSet \<Rightarrow> bool" where
  "log_dedup_inv d \<longleftrightarrow> set (ld_order d) = ld_seen d \<and> distinct (ld_order d) \<and> length (ld_order d) \<le> LOG_DEDUP_CAP"

lemma LOG_DEDUP_CAP_pos: "0 < LOG_DEDUP_CAP"
  by (simp add: LOG_DEDUP_CAP_def)

lemma log_dedup_insert_eq:
  assumes "log_dedup_inv d"
  shows "log_dedup_insert key d =
    (if key \<in> set (ld_order d) then (False, d)
     else let order = (if length (ld_order d) = LOG_DEDUP_CAP then tl (ld_order d) else ld_order d) @ [key]
          in (True, \<lparr>ld_seen = set order, ld_order = order\<rparr>))"
proof (cases "ld_order d")
  case Nil
  with assms LOG_DEDUP_CAP_pos show ?thesis by (auto simp: log_dedup_insert_def log_dedup_inv_def)
next
  case (Cons k ks)
  have keep: "length (x # xs) \<le> LOG_DEDUP_CAP \<Longrightarrow>
      log_dedup_evict s (x # xs) = \<lparr>ld_seen = s, ld_order = x # xs\<rparr>" for s x xs by simp
  show ?thesis
  proof (cases "length (ld_order d) = LOG_DEDUP_CAP")
    case True
    obtain y ys where y: "ks @ [key] = y # ys" by (cases ks) auto
    have "length (y # ys) \<le> LOG_DEDUP_CAP" using True Cons y by (metis add.commute length_Cons length_append_singleton order_refl)
    then have "log_dedup_evict s (ks @ [key]) = \<lparr>ld_seen = s, ld_order = ks @ [key]\<rparr>" for s
      using keep[of y ys] y by simp
    moreover have "length (k # ks @ [key]) > LOG_DEDUP_CAP" using True Cons by simp
    ultimately show ?thesis using assms Cons True
      by (auto simp: log_dedup_insert_def log_dedup_inv_def Let_def)
  next
    case False
    with assms Cons show ?thesis by (auto simp: log_dedup_insert_def log_dedup_inv_def Let_def)
  qed
qed

lemma set_tl_subset: "set (tl xs) \<subseteq> set xs"
  by (cases xs) auto

lemma log_dedup_insert_inv:
  assumes "log_dedup_inv d"
  shows "log_dedup_inv (snd (log_dedup_insert key d))"
  using assms LOG_DEDUP_CAP_pos unfolding log_dedup_insert_eq[OF assms]
  by (auto simp: log_dedup_inv_def Let_def distinct_tl dest: set_tl_subset[THEN subsetD])

lemma log_dedup_new_inv: "log_dedup_inv log_dedup_new"
  by (simp add: log_dedup_inv_def log_dedup_new_def)

text \<open>How many keys are at least as new as \<open>key\<close>.\<close>

definition newer :: "string \<Rightarrow> LogDedupSet \<Rightarrow> nat" where
  "newer key d = length (dropWhile (\<lambda>k. k \<noteq> key) (ld_order d))"

lemma log_dedup_age:
  assumes "log_dedup_inv d" "key \<in> ld_seen d" "newer key d < LOG_DEDUP_CAP"
  shows "key \<in> ld_seen (snd (log_dedup_insert k d)) \<and> newer key (snd (log_dedup_insert k d)) \<le> Suc (newer key d)"
proof (cases "k \<in> set (ld_order d)")
  case True
  with assms show ?thesis by (simp add: log_dedup_insert_eq)
next
  case False
  have seen: "key \<in> set (ld_order d)" using assms by (simp add: log_dedup_inv_def)
  show ?thesis
  proof (cases "length (ld_order d) = LOG_DEDUP_CAP")
    case full: True
    then obtain o1 os where o: "ld_order d = o1 # os" using LOG_DEDUP_CAP_pos by (cases "ld_order d") auto
    with full assms(3) have "o1 \<noteq> key" by (auto simp: newer_def)
    with o seen False full show ?thesis
      by (auto simp: log_dedup_insert_eq[OF assms(1)] Let_def newer_def dropWhile_append1)
  next
    case False
    with \<open>k \<notin> set (ld_order d)\<close> seen show ?thesis
      by (auto simp: log_dedup_insert_eq[OF assms(1)] Let_def newer_def dropWhile_append1)
  qed
qed

lemma log_dedup_stays:
  "log_dedup_inv d \<Longrightarrow> key \<in> ld_seen d \<Longrightarrow> newer key d + length ks \<le> LOG_DEDUP_CAP \<Longrightarrow>
   key \<in> ld_seen (fold (\<lambda>k d. snd (log_dedup_insert k d)) ks d)"
proof (induction ks arbitrary: d)
  case (Cons k ks)
  have "newer key d < LOG_DEDUP_CAP" using Cons.prems(3) by simp
  from log_dedup_age[OF Cons.prems(1,2) this, of k] Cons.IH[OF log_dedup_insert_inv[OF Cons.prems(1)], of k] Cons.prems(3)
  show ?case by simp
qed simp

lemma fold_insert_inv: "log_dedup_inv d \<Longrightarrow> log_dedup_inv (fold (\<lambda>k d. snd (log_dedup_insert k d)) ks d)"
  by (induction ks arbitrary: d) (simp_all add: log_dedup_insert_inv)

text \<open>
  C22. The record of the peers already logged stays bounded and logs each peer once: whatever keys are
  inserted, in any order, it holds at most 1024 of them, the queue lists exactly the members without
  repetition, and a key is reported as new exactly when it is not a member; a key once inserted
  remains a member while fewer than 1024 further keys are inserted.
\<close>

theorem log_dedup_bounded:
  fixes history :: "string list"
  defines "d \<equiv> fold (\<lambda>k d. snd (log_dedup_insert k d)) history log_dedup_new"
  shows "card (ld_seen d) \<le> LOG_DEDUP_CAP \<and> set (ld_order d) = ld_seen d \<and> distinct (ld_order d)
    \<and> (fst (log_dedup_insert key d) \<longleftrightarrow> key \<notin> ld_seen d)
    \<and> (fst (log_dedup_insert key d) \<and> length later < LOG_DEDUP_CAP \<longrightarrow>
         \<not> fst (log_dedup_insert key
               (fold (\<lambda>k d. snd (log_dedup_insert k d)) later (snd (log_dedup_insert key d)))))"
proof -
  have inv: "log_dedup_inv d" unfolding d_def by (rule fold_insert_inv[OF log_dedup_new_inv])
  let ?d1 = "snd (log_dedup_insert key d)"
  have "key \<in> ld_seen ?d1 \<and> newer key ?d1 = 1" if "fst (log_dedup_insert key d)"
    using that inv by (auto simp: log_dedup_insert_eq newer_def Let_def dropWhile_append3 log_dedup_inv_def
        dest: set_tl_subset[THEN subsetD] split: if_splits)
  then have "key \<in> ld_seen (fold (\<lambda>k d. snd (log_dedup_insert k d)) later ?d1)"
    if "fst (log_dedup_insert key d)" "length later < LOG_DEDUP_CAP"
    using that log_dedup_stays[OF log_dedup_insert_inv[OF inv], of key key later] by simp
  moreover have "card (ld_seen d) \<le> LOG_DEDUP_CAP"
    using inv unfolding log_dedup_inv_def by (metis distinct_card)
  ultimately show ?thesis using inv by (auto simp: log_dedup_inv_def log_dedup_insert_def)
qed

theorem log_dedup_bounded_witness:
  "fst (log_dedup_insert ''a'' log_dedup_new) \<and> length [''b''] < LOG_DEDUP_CAP
   \<and> \<not> fst (log_dedup_insert ''a'' (snd (log_dedup_insert ''b'' (snd (log_dedup_insert ''a'' log_dedup_new)))))"
proof -
  have "fst (log_dedup_insert ''a'' log_dedup_new)" "length [''b''] < LOG_DEDUP_CAP"
    by (simp_all add: log_dedup_insert_def log_dedup_new_def LOG_DEDUP_CAP_def)
  with log_dedup_bounded[of "[]" "''a''" "[''b'']"] show ?thesis by simp
qed

end
