(* ===== verification/Daemon_Config.thy ===== *)
theory Daemon_Config
  imports Policy_Decisions
begin

text \<open>
  The daemon's configuration (\<^verbatim>\<open>config.rs\<close>): its sections, the environment overrides, and the
  validation that decides whether the daemon starts.  Whether a file exists and whether a string is a
  socket address are questions to the outside: parameters.  Paths are strings.
\<close>

section \<open>The sections\<close>

record BackendConfig =
  bc_module :: string
  bc_initialize_args :: "string option"

datatype MechanismDiscovery = Filtered | Transparent

record ProxyConfig =
  px_mechanism_discovery :: MechanismDiscovery
  px_lease_seconds :: nat
  px_max_message_bytes :: nat
  px_request_timeout_secs :: nat
  px_max_concurrent_backend_calls :: nat
  px_max_blocking_threads :: nat
  px_eviction_interval_secs :: nat
  px_max_contexts :: nat
  px_http2_keepalive_interval_secs :: nat
  px_http2_keepalive_timeout_secs :: nat
  px_startup_timeout_secs :: nat
  px_shutdown_grace_secs :: nat
  px_backend_health_consecutive_failures :: nat
  px_rate_limit_get_backend_interfaces :: nat
  px_rate_limit_window_secs :: nat
  px_sanitize_inputs :: bool
  px_max_stuck_backend_calls :: "nat option"
  px_login_lock_timeout_secs :: nat
  px_grpc_concurrency_limit_per_connection :: nat
  px_grpc_max_concurrent_streams :: nat
  px_grpc_load_shed :: bool

definition proxy_config_default :: ProxyConfig where
  "proxy_config_default =
     \<lparr>px_mechanism_discovery = Transparent, px_lease_seconds = 3600,
      px_max_message_bytes = 64 * 1024 * 1024, px_request_timeout_secs = 60,
      px_max_concurrent_backend_calls = 200, px_max_blocking_threads = 512,
      px_eviction_interval_secs = 5, px_max_contexts = 1,
      px_http2_keepalive_interval_secs = 15, px_http2_keepalive_timeout_secs = 5,
      px_startup_timeout_secs = 30, px_shutdown_grace_secs = 30,
      px_backend_health_consecutive_failures = 3, px_rate_limit_get_backend_interfaces = 0,
      px_rate_limit_window_secs = 1, px_sanitize_inputs = False, px_max_stuck_backend_calls = None,
      px_login_lock_timeout_secs = 10, px_grpc_concurrency_limit_per_connection = 256,
      px_grpc_max_concurrent_streams = 256, px_grpc_load_shed = True\<rparr>"

record UnixListenerConfig =
  ul_path :: string
  ul_auth :: UnixAuthMode
  ul_allow_insecure_unix :: bool

record TcpListenerConfig =
  tl_bind :: string
  tl_auth :: TcpAuthMode
  tl_ca_cert :: "string option"
  tl_server_cert :: "string option"
  tl_server_key :: "string option"
  tl_allow_insecure_tcp :: bool

record ListenerGroup =
  lg_local :: "UnixListenerConfig option"
  lg_remote :: "TcpListenerConfig option"

record ResilienceConfig =
  rc_find_result_warn_threshold :: "nat option"
  rc_metrics_socket :: "string option"
  rc_coalesce_attributes :: bool

record RateLimitConfig =
  rl_per_principal_max_in_flight :: "nat option"
  rl_per_principal_max_sessions :: "nat option"
  rl_per_slot_failed_login_budget :: "nat option"
  rl_per_slot_failed_login_cooldown_secs :: "nat option"

record AuditConfig =
  au_dir :: "string option"
  au_signing_key :: "string option"
  au_rotate_max_bytes :: nat
  au_rotate_keep_files :: nat
  au_checkpoint_interval_secs :: nat
  au_data_plane :: bool
  au_channel_capacity :: nat
  au_fail_closed_reserve :: nat

definition audit_config_default :: AuditConfig where
  "audit_config_default =
     \<lparr>au_dir = None, au_signing_key = None, au_rotate_max_bytes = 64 * 1024 * 1024, au_rotate_keep_files = 10,
      au_checkpoint_interval_secs = 300, au_data_plane = False, au_channel_capacity = 4096,
      au_fail_closed_reserve = 256\<rparr>"

record DaemonConfig =
  dc_backend :: BackendConfig
  dc_proxy :: ProxyConfig
  dc_listener :: ListenerGroup
  dc_auth :: AuthConfig
  dc_mechanisms_config_path :: "string option"
  dc_resilience :: ResilienceConfig
  dc_audit :: AuditConfig
  dc_rate_limit :: RateLimitConfig
  dc_test_hooks_control_socket :: "string option"

definition should_exit_on_stuck_calls :: "nat \<Rightarrow> nat option \<Rightarrow> bool" where
  "should_exit_on_stuck_calls stuck limit = (case limit of None \<Rightarrow> False | Some most \<Rightarrow> stuck > most)"

section \<open>Environment overrides\<close>

definition ascii_lower :: "char \<Rightarrow> char" where
  "ascii_lower c = (let n = (of_char c :: nat) in if 65 \<le> n \<and> n \<le> 90 then char_of (n + 32) else c)"

definition eq_ignore_ascii_case :: "string \<Rightarrow> string \<Rightarrow> bool" where
  "eq_ignore_ascii_case a b = (map ascii_lower a = map ascii_lower b)"

definition insecure_flag :: "string \<Rightarrow> bool" where
  "insecure_flag v = (v = ''1'' \<or> eq_ignore_ascii_case v ''true'')"

datatype ConfigError =
    FindThresholdNotANumber string
  | ZeroLease | ZeroMessageBytes | MessageBytesTooLarge | ZeroRequestTimeout | ZeroBackendCalls
  | ZeroStuckCalls | ZeroBlockingThreads | ZeroMaxInFlight | ZeroMaxSessions | ZeroLoginBudget
  | ZeroLoginCooldown | BreakerExceedsThreads nat nat | ZeroEvictionInterval | ZeroRateWindow
  | ZeroLoginLockTimeout | BackendPlaceholder | BackendMissing string | ZeroStartupTimeout
  | ZeroShutdownGrace | ZeroHealthFailures | ZeroConcurrencyLimit | ZeroConcurrentStreams
  | MechanismsMissing string | InsecureTcp | MtlsFilesMissing | MtlsPathMissing string string
  | BadBind string | InsecureUnix | NoListeners | InertObjectGrant nat | PolicyUnauthenticated
  | AllowAllUnauthenticated | AuditUnauthenticated | AnonymousIsGranted string | NoPolicy
  | IdentityNotProducible nat string | PolicyInvalid PolicyError
  | ZeroRotateBytes | ZeroRotateKeep | ZeroAuditChannel | AuditReserveTooLarge nat nat

definition override_bind ::
  "(string \<Rightarrow> string option) \<Rightarrow> string \<Rightarrow> TcpListenerConfig option \<Rightarrow> TcpListenerConfig" where
  "override_bind env v remote =
     (case remote of
        Some tcp \<Rightarrow>
          (let tcp1 = tcp\<lparr>tl_bind := v\<rparr> in
           case env ''PKCS11_PROXY_ALLOW_INSECURE'' of
             None \<Rightarrow> tcp1
           | Some val \<Rightarrow> tcp1\<lparr>tl_allow_insecure_tcp := insecure_flag val\<rparr>)
      | None \<Rightarrow>
          \<lparr>tl_bind = v, tl_auth = TcpNone, tl_ca_cert = None, tl_server_cert = None, tl_server_key = None,
           tl_allow_insecure_tcp =
             (case env ''PKCS11_PROXY_ALLOW_INSECURE'' of None \<Rightarrow> False | Some val \<Rightarrow> insecure_flag val)\<rparr>)"

definition apply_env_overrides_with ::
  "(string \<Rightarrow> string option) \<Rightarrow> DaemonConfig \<Rightarrow> ConfigError + DaemonConfig" where
  "apply_env_overrides_with env c0 =
     (let c1 = (case env ''PKCS11_PROXY_BACKEND_MODULE'' of None \<Rightarrow> c0
                | Some v \<Rightarrow> c0\<lparr>dc_backend := (dc_backend c0)\<lparr>bc_module := v\<rparr>\<rparr>);
          c2 = (case env ''PKCS11_PROXY_BACKEND_ARGS'' of None \<Rightarrow> c1
                | Some v \<Rightarrow> c1\<lparr>dc_backend := (dc_backend c1)\<lparr>bc_initialize_args := Some v\<rparr>\<rparr>);
          c3 = (case env ''PKCS11_PROXY_MECHANISMS_CONFIG'' of None \<Rightarrow> c2
                | Some v \<Rightarrow> c2\<lparr>dc_mechanisms_config_path := Some v\<rparr>);
          c4 = (case env ''PKCS11_PROXY_BIND'' of None \<Rightarrow> c3
                | Some v \<Rightarrow> c3\<lparr>dc_listener := (dc_listener c3)
                    \<lparr>lg_remote := Some (override_bind env v (lg_remote (dc_listener c3)))\<rparr>\<rparr>);
          c5 = (case env ''PKCS11_PROXY_RESILIENCE_METRICS_SOCKET'' of None \<Rightarrow> c4
                | Some v \<Rightarrow> c4\<lparr>dc_resilience := (dc_resilience c4)\<lparr>rc_metrics_socket := Some v\<rparr>\<rparr>);
          finish = (\<lambda>c. case env ''PKCS11_PROXY_TEST_HOOKS_CONTROL_SOCKET'' of None \<Rightarrow> Inr c
                | Some v \<Rightarrow> Inr (c\<lparr>dc_test_hooks_control_socket := Some v\<rparr>))
      in case env ''PKCS11_PROXY_RESILIENCE_FIND_THRESHOLD'' of
           None \<Rightarrow> finish c5
         | Some v \<Rightarrow>
             (case from_str_radix 10 (2 ^ 64 - 1) v of
                None \<Rightarrow> Inl (FindThresholdNotANumber v)
              | Some n \<Rightarrow>
                  finish (c5\<lparr>dc_resilience := (dc_resilience c5)\<lparr>rc_find_result_warn_threshold := Some n\<rparr>\<rparr>)))"

section \<open>Policy identities the listeners can produce\<close>

datatype PolicyIdentitySource = SourcePeerCred | SourceMtls

definition can_produce :: "PolicyIdentitySource \<Rightarrow> string \<Rightarrow> bool" where
  "can_produce source identity =
     (case source of
        SourcePeerCred \<Rightarrow>
          (case strip_prefix ''uid='' (normalize_policy_identity identity) of
             None \<Rightarrow> False | Some uid \<Rightarrow> parse_u32 uid \<noteq> None)
      | SourceMtls \<Rightarrow>
          (case strip_prefix ''x509:spki='' identity of
             None \<Rightarrow> False | Some rest \<Rightarrow> takeWhile (\<lambda>c. c \<noteq> SEMICOLON) rest \<noteq> [])
          \<or> (case strip_prefix ''x509:issuer='' identity of
               None \<Rightarrow> False
             | Some rest \<Rightarrow> list_ex (\<lambda>i. starts_with '';subject='' (drop i rest)) [0..<length rest]))"

definition configured_policy_identity_sources :: "DaemonConfig \<Rightarrow> PolicyIdentitySource list" where
  "configured_policy_identity_sources c =
     (case lg_local (dc_listener c) of Some l \<Rightarrow> if ul_auth l = UnixPeerCred then [SourcePeerCred] else [] | None \<Rightarrow> [])
     @ (case lg_remote (dc_listener c) of Some r \<Rightarrow> if tl_auth r = TcpMtls then [SourceMtls] else [] | None \<Rightarrow> [])"

text \<open>The first entry, with its index, that no configured listener can produce.\<close>

fun unproducible :: "PolicyIdentitySource list \<Rightarrow> nat \<Rightarrow> PolicyEntry list \<Rightarrow> (nat \<times> string) option" where
  "unproducible sources index [] = None"
| "unproducible sources index (entry # entries) =
     (if list_ex (\<lambda>source. can_produce source (pe_identity entry)) sources
      then unproducible sources (index + 1) entries
      else Some (index, pe_identity entry))"

definition validate_policy_identities :: "DaemonConfig \<Rightarrow> ConfigError + unit" where
  "validate_policy_identities c =
     (if ac_policy (dc_auth c) = [] then Inr ()
      else case unproducible (configured_policy_identity_sources c) 0 (ac_policy (dc_auth c)) of
             None \<Rightarrow> Inr ()
           | Some (index, identity) \<Rightarrow> Inl (IdentityNotProducible index identity))"

section \<open>Validation\<close>

definition unix_is_authenticated :: "UnixAuthMode \<Rightarrow> bool" where
  "unix_is_authenticated a = (a = UnixPeerCred)"

definition tcp_is_authenticated :: "TcpAuthMode \<Rightarrow> bool" where
  "tcp_is_authenticated a = (a = TcpMtls)"

definition audit_config_validate :: "AuditConfig \<Rightarrow> ConfigError + unit" where
  "audit_config_validate a =
     (if au_rotate_max_bytes a = 0 then Inl ZeroRotateBytes
      else if au_rotate_keep_files a = 0 then Inl ZeroRotateKeep
      else if au_channel_capacity a = 0 then Inl ZeroAuditChannel
      else if au_fail_closed_reserve a \<ge> au_channel_capacity a
           then Inl (AuditReserveTooLarge (au_fail_closed_reserve a) (au_channel_capacity a))
      else Inr ())"

text \<open>A check that fails with an error when its condition holds; the first failing check decides.\<close>

fun first_failing :: "(bool \<times> ConfigError) list \<Rightarrow> ConfigError + unit" where
  "first_failing [] = Inr ()"
| "first_failing ((bad, e) # checks) = (if bad then Inl e else first_failing checks)"

definition BACKEND_MODULE_PLACEHOLDER :: string where
  "BACKEND_MODULE_PLACEHOLDER = ''/CHANGE_ME/path/to/backend.so''"

definition limit_checks :: "(string \<Rightarrow> bool) \<Rightarrow> DaemonConfig \<Rightarrow> (bool \<times> ConfigError) list" where
  "limit_checks exists c =
     (let p = dc_proxy c; r = dc_rate_limit c in
      [(px_lease_seconds p = 0, ZeroLease),
       (px_max_message_bytes p = 0, ZeroMessageBytes),
       (px_max_message_bytes p > 64 * 1024 * 1024, MessageBytesTooLarge),
       (px_request_timeout_secs p = 0, ZeroRequestTimeout),
       (px_max_concurrent_backend_calls p = 0, ZeroBackendCalls),
       (px_max_stuck_backend_calls p = Some 0, ZeroStuckCalls),
       (px_max_blocking_threads p = 0, ZeroBlockingThreads),
       (rl_per_principal_max_in_flight r = Some 0, ZeroMaxInFlight),
       (rl_per_principal_max_sessions r = Some 0, ZeroMaxSessions),
       (rl_per_slot_failed_login_budget r = Some 0, ZeroLoginBudget),
       (rl_per_slot_failed_login_cooldown_secs r = Some 0, ZeroLoginCooldown),
       (px_max_concurrent_backend_calls p > px_max_blocking_threads p,
        BreakerExceedsThreads (px_max_concurrent_backend_calls p) (px_max_blocking_threads p)),
       (px_eviction_interval_secs p = 0, ZeroEvictionInterval),
       (px_rate_limit_window_secs p = 0, ZeroRateWindow),
       (px_login_lock_timeout_secs p = 0, ZeroLoginLockTimeout),
       (bc_module (dc_backend c) = BACKEND_MODULE_PLACEHOLDER, BackendPlaceholder),
       (\<not> exists (bc_module (dc_backend c)), BackendMissing (bc_module (dc_backend c))),
       (px_startup_timeout_secs p = 0, ZeroStartupTimeout),
       (px_shutdown_grace_secs p = 0, ZeroShutdownGrace),
       (px_backend_health_consecutive_failures p = 0, ZeroHealthFailures),
       (px_grpc_concurrency_limit_per_connection p = 0, ZeroConcurrencyLimit),
       (px_grpc_max_concurrent_streams p = 0, ZeroConcurrentStreams)]
      @ (case dc_mechanisms_config_path c of
           None \<Rightarrow> []
         | Some path \<Rightarrow> [(\<not> exists path, MechanismsMissing path)]))"

definition mtls_file_checks :: "(string \<Rightarrow> bool) \<Rightarrow> (string \<times> string option) list \<Rightarrow> (bool \<times> ConfigError) list" where
  "mtls_file_checks exists files =
     concat (map (\<lambda>(name, path_opt).
       case path_opt of None \<Rightarrow> [] | Some path \<Rightarrow> [(\<not> exists path, MtlsPathMissing name path)]) files)"

definition listener_checks ::
  "(string \<Rightarrow> bool) \<Rightarrow> (string \<Rightarrow> bool) \<Rightarrow> DaemonConfig \<Rightarrow> (bool \<times> ConfigError) list" where
  "listener_checks exists socket_addr c =
     (case lg_remote (dc_listener c) of
        None \<Rightarrow> []
      | Some tcp \<Rightarrow>
          [(tl_auth tcp = TcpNone \<and> \<not> tl_allow_insecure_tcp tcp, InsecureTcp)]
          @ (if tl_auth tcp = TcpMtls then
               (tl_ca_cert tcp = None \<or> tl_server_cert tcp = None \<or> tl_server_key tcp = None, MtlsFilesMissing)
               # mtls_file_checks exists
                   [(''ca_cert'', tl_ca_cert tcp), (''server_cert'', tl_server_cert tcp),
                    (''server_key'', tl_server_key tcp)]
             else [])
          @ [(\<not> socket_addr (tl_bind tcp), BadBind (tl_bind tcp))])
     @ (case lg_local (dc_listener c) of
          None \<Rightarrow> []
        | Some l \<Rightarrow> [(ul_auth l = UnixNone \<and> \<not> ul_allow_insecure_unix l, InsecureUnix)])
     @ [(lg_local (dc_listener c) = None \<and> lg_remote (dc_listener c) = None, NoListeners)]"

definition has_unauthenticated_listener :: "DaemonConfig \<Rightarrow> bool" where
  "has_unauthenticated_listener c =
     ((case lg_local (dc_listener c) of None \<Rightarrow> False | Some l \<Rightarrow> \<not> unix_is_authenticated (ul_auth l))
      \<or> (case lg_remote (dc_listener c) of None \<Rightarrow> False | Some r \<Rightarrow> \<not> tcp_is_authenticated (tl_auth r)))"

definition has_authenticated_listener :: "DaemonConfig \<Rightarrow> bool" where
  "has_authenticated_listener c =
     ((case lg_local (dc_listener c) of None \<Rightarrow> False | Some l \<Rightarrow> unix_is_authenticated (ul_auth l))
      \<or> (case lg_remote (dc_listener c) of None \<Rightarrow> False | Some r \<Rightarrow> tcp_is_authenticated (tl_auth r)))"

definition has_object_grant :: "PolicyEntry \<Rightarrow> bool" where
  "has_object_grant e =
     (case pe_tokens e of
        SpecAll _ \<Rightarrow> False
      | SpecSpecific gs \<Rightarrow> list_ex (\<lambda>g. case g of GrantBare _ \<Rightarrow> False | GrantRich r \<Rightarrow> rg_objects r \<noteq> None) gs)"

definition auth_checks :: "DaemonConfig \<Rightarrow> (bool \<times> ConfigError) list" where
  "auth_checks c =
     (let a = dc_auth c; open = has_unauthenticated_listener c in
      map (\<lambda>(index, entry). (open \<and> has_object_grant entry, InertObjectGrant index)) (enumerate 0 (ac_policy a))
      @ [(ac_policy a \<noteq> [] \<and> open, PolicyUnauthenticated),
         (ac_allow_all_authenticated a \<and> open, AllowAllUnauthenticated),
         (au_dir (dc_audit c) \<noteq> None \<and> open \<and> ac_anonymous_principal a = None, AuditUnauthenticated)]
      @ (case ac_anonymous_principal a of
           None \<Rightarrow> []
         | Some anon \<Rightarrow> [(list_ex (\<lambda>e. pe_identity e = anon) (ac_policy a), AnonymousIsGranted anon)])
      @ [(has_authenticated_listener c \<and> ac_policy a = [] \<and> \<not> ac_allow_all_authenticated a, NoPolicy)])"

definition config_validate ::
  "(string \<Rightarrow> bool) \<Rightarrow> (string \<Rightarrow> bool) \<Rightarrow> DaemonConfig \<Rightarrow> ConfigError + unit" where
  "config_validate exists socket_addr c =
     (case first_failing (limit_checks exists c @ listener_checks exists socket_addr c @ auth_checks c) of
        Inl e \<Rightarrow> Inl e
      | Inr _ \<Rightarrow>
     (case validate_policy_identities c of
        Inl e \<Rightarrow> Inl e
      | Inr _ \<Rightarrow>
     (case policy_from_config (dc_auth c) of
        Inl e \<Rightarrow> Inl (PolicyInvalid e)
      | Inr _ \<Rightarrow> audit_config_validate (dc_audit c))))"

text \<open>The authentication modes the service runs with.\<close>

definition service_tcp_auth_mode :: "DaemonConfig \<Rightarrow> TcpAuthMode" where
  "service_tcp_auth_mode c = (case lg_remote (dc_listener c) of None \<Rightarrow> TcpNone | Some tcp \<Rightarrow> tl_auth tcp)"

definition service_unix_auth_mode :: "DaemonConfig \<Rightarrow> UnixAuthMode" where
  "service_unix_auth_mode c = (case lg_local (dc_listener c) of None \<Rightarrow> UnixPeerCred | Some uds \<Rightarrow> ul_auth uds)"

section \<open>What a valid configuration guarantees\<close>

lemma first_failing_ok: "first_failing checks = Inr u \<longleftrightarrow> (\<forall>(bad, e) \<in> set checks. \<not> bad)"
  by (induction checks rule: first_failing.induct) auto

lemma validate_checks:
  assumes "config_validate exists socket_addr c = Inr u"
  shows "\<forall>(bad, e) \<in> set (limit_checks exists c). \<not> bad"
    "\<forall>(bad, e) \<in> set (listener_checks exists socket_addr c). \<not> bad"
    "\<forall>(bad, e) \<in> set (auth_checks c). \<not> bad"
    "validate_policy_identities c = Inr ()"
    "\<exists>p. policy_from_config (dc_auth c) = Inr p"
    "audit_config_validate (dc_audit c) = Inr ()"
  using assms by (auto simp: config_validate_def first_failing_ok ball_Un split: sum.splits)

lemma validated_auth:
  assumes "config_validate exists socket_addr c = Inr u"
  shows "has_unauthenticated_listener c \<Longrightarrow> ac_policy (dc_auth c) = [] \<and> \<not> ac_allow_all_authenticated (dc_auth c)"
    and "has_unauthenticated_listener c \<Longrightarrow> au_dir (dc_audit c) \<noteq> None \<Longrightarrow> ac_anonymous_principal (dc_auth c) \<noteq> None"
    and "has_authenticated_listener c \<Longrightarrow> ac_policy (dc_auth c) \<noteq> [] \<or> ac_allow_all_authenticated (dc_auth c)"
  using validate_checks(3)[OF assms] by (auto simp: auth_checks_def Let_def split: option.splits)

lemma validated_listeners:
  assumes "config_validate exists socket_addr c = Inr u"
  shows "lg_local (dc_listener c) \<noteq> None \<or> lg_remote (dc_listener c) \<noteq> None"
    and "lg_remote (dc_listener c) = Some tcp \<Longrightarrow> tl_auth tcp = TcpNone \<Longrightarrow> tl_allow_insecure_tcp tcp"
    and "lg_local (dc_listener c) = Some l \<Longrightarrow> ul_auth l = UnixNone \<Longrightarrow> ul_allow_insecure_unix l"
  using validate_checks(2)[OF assms] by (auto simp: listener_checks_def split: option.splits if_splits)

text \<open>A request reaches the service through a listener that is configured.\<close>

definition arrives_over :: "DaemonConfig \<Rightarrow> request_transport \<Rightarrow> bool" where
  "arrives_over c request =
     (case rt_uds request of
        Some _ \<Rightarrow> lg_local (dc_listener c) \<noteq> None
      | None \<Rightarrow> lg_remote (dc_listener c) \<noteq> None)"

lemma unauthenticated_needs_open_listener:
  assumes "identity_from_request from_der sha256 request (service_tcp_auth_mode c) (service_unix_auth_mode c)
             = Inr Unauthenticated"
    and "arrives_over c request"
  shows "has_unauthenticated_listener c"
  using assms
  by (auto simp: identity_from_request_def identity_from_uds_def identity_from_tcp_def arrives_over_def
      service_tcp_auth_mode_def service_unix_auth_mode_def has_unauthenticated_listener_def
      unix_is_authenticated_def tcp_is_authenticated_def
      split: option.splits UnixAuthMode.splits TcpAuthMode.splits list.splits sum.splits)

text \<open>The case the identity check leaves to an assertion cannot arise.\<close>

lemma policy_has_source:
  assumes "config_validate exists socket_addr c = Inr u" "ac_policy (dc_auth c) \<noteq> []"
  shows "configured_policy_identity_sources c \<noteq> []"
proof
  assume "configured_policy_identity_sources c = []"
  then have "has_unauthenticated_listener c"
    using validated_listeners(1)[OF assms(1)]
    by (auto simp: configured_policy_identity_sources_def has_unauthenticated_listener_def
        unix_is_authenticated_def tcp_is_authenticated_def split: option.splits if_splits)
  with validated_auth(1)[OF assms(1)] assms(2) show False by blast
qed

section \<open>Claims\<close>

text \<open>
  C23. No peer gets to a token without authority once the daemon has accepted its configuration: with a
  policy in place every request that arrives over a configured listener carries an authenticated
  identity, and a request that is allowed is allowed because its listener was explicitly opened to
  unauthenticated peers, because every authenticated peer is admitted, or because the entry of the
  policy that speaks for it opens the token.
\<close>

theorem no_access_without_authority:
  assumes "config_validate exists socket_addr c = Inr ()"
    and "policy_from_config (dc_auth c) = Inr p"
    and "arrives_over c request"
    and "identity_from_request from_der sha256 request (service_tcp_auth_mode c) (service_unix_auth_mode c) = Inr i"
  shows "(ac_policy (dc_auth c) \<noteq> [] \<longrightarrow> i \<noteq> Unauthenticated)
    \<and> (allows p i token_label token_serial \<longrightarrow>
         (i = Unauthenticated
          \<and> (case rt_uds request of
                Some _ \<Rightarrow> \<exists>l. lg_local (dc_listener c) = Some l \<and> ul_allow_insecure_unix l
              | None \<Rightarrow> \<exists>r. lg_remote (dc_listener c) = Some r \<and> tl_allow_insecure_tcp r))
         \<or> (i \<noteq> Unauthenticated
            \<and> (ac_allow_all_authenticated (dc_auth c)
               \<or> (\<exists>e. policy_entry (dc_auth c) i = Some e \<and> entry_opens e token_label token_serial))))"
proof -
  have "ac_policy (dc_auth c) = []" if "i = Unauthenticated"
    using unauthenticated_needs_open_listener[OF _ assms(3)] assms(4) that validated_auth(1)[OF assms(1)] by blast
  moreover have "case rt_uds request of
        Some _ \<Rightarrow> \<exists>l. lg_local (dc_listener c) = Some l \<and> ul_allow_insecure_unix l
      | None \<Rightarrow> \<exists>r. lg_remote (dc_listener c) = Some r \<and> tl_allow_insecure_tcp r" if "i = Unauthenticated"
    using assms(3,4) that validated_listeners[OF assms(1)]
    by (auto simp: identity_from_request_def identity_from_uds_def identity_from_tcp_def arrives_over_def
        service_tcp_auth_mode_def service_unix_auth_mode_def
        split: option.splits UnixAuthMode.splits TcpAuthMode.splits list.splits sum.splits)
  ultimately show ?thesis using allows_exact[OF assms(2)] by auto
qed

definition sample_config :: DaemonConfig where
  "sample_config =
     \<lparr>dc_backend = \<lparr>bc_module = ''/usr/lib/hsm.so'', bc_initialize_args = None\<rparr>,
      dc_proxy = proxy_config_default,
      dc_listener = \<lparr>lg_local = Some \<lparr>ul_path = ''/run/p'', ul_auth = UnixPeerCred, ul_allow_insecure_unix = False\<rparr>,
                     lg_remote = None\<rparr>,
      dc_auth = sample_auth, dc_mechanisms_config_path = None,
      dc_resilience = \<lparr>rc_find_result_warn_threshold = None, rc_metrics_socket = None, rc_coalesce_attributes = False\<rparr>,
      dc_audit = audit_config_default,
      dc_rate_limit = \<lparr>rl_per_principal_max_in_flight = None, rl_per_principal_max_sessions = None,
        rl_per_slot_failed_login_budget = None, rl_per_slot_failed_login_cooldown_secs = None\<rparr>,
      dc_test_hooks_control_socket = None\<rparr>"

lemma sample_valid: "config_validate (\<lambda>_. True) (\<lambda>_. True) sample_config = Inr ()"
proof -
  have "can_produce SourcePeerCred ''uid=+01000''"
    using parse_u32_show[of 1000] by (simp add: can_produce_def sample_normalized sample_numbers strip_prefix_def)
  then have "validate_policy_identities sample_config = Inr ()"
    by (simp add: validate_policy_identities_def configured_policy_identity_sources_def sample_config_def sample_auth_def)
  moreover have "first_failing (limit_checks (\<lambda>_. True) sample_config
      @ listener_checks (\<lambda>_. True) (\<lambda>_. True) sample_config @ auth_checks sample_config) = Inr ()"
    by (simp add: limit_checks_def listener_checks_def auth_checks_def sample_config_def sample_auth_def
        proxy_config_default_def BACKEND_MODULE_PLACEHOLDER_def has_unauthenticated_listener_def
        has_authenticated_listener_def unix_is_authenticated_def has_object_grant_def audit_config_default_def Let_def)
  moreover have "policy_from_config (dc_auth sample_config) = Inr sample_policy"
    using sample_built by (simp add: sample_config_def)
  moreover have "audit_config_validate (dc_audit sample_config) = Inr ()"
    by (simp add: audit_config_validate_def sample_config_def audit_config_default_def)
  ultimately show ?thesis by (simp add: config_validate_def)
qed

theorem no_access_without_authority_witness:
  "config_validate (\<lambda>_. True) (\<lambda>_. True) sample_config = Inr ()
   \<and> policy_from_config (dc_auth sample_config) = Inr sample_policy
   \<and> arrives_over sample_config \<lparr>rt_uds = Some (Some 1001), rt_peer_certs = None\<rparr>
   \<and> identity_from_request sample_cert id \<lparr>rt_uds = Some (Some 1001), rt_peer_certs = None\<rparr>
        (service_tcp_auth_mode sample_config) (service_unix_auth_mode sample_config) = Inr (PeerCred 1001)
   \<and> \<not> allows sample_policy (PeerCred 1001) ''x'' ''AB''"
proof -
  let ?r = "\<lparr>rt_uds = Some (Some 1001), rt_peer_certs = None\<rparr>"
  have 1: "policy_from_config (dc_auth sample_config) = Inr sample_policy"
    using sample_built by (simp add: sample_config_def)
  have 2: "arrives_over sample_config ?r" by (simp add: arrives_over_def sample_config_def)
  have 3: "identity_from_request sample_cert id ?r (service_tcp_auth_mode sample_config)
      (service_unix_auth_mode sample_config) = Inr (PeerCred 1001)"
    by (simp add: identity_from_request_def identity_from_uds_def service_unix_auth_mode_def sample_config_def)
  have "policy_entry (dc_auth sample_config) (PeerCred 1001) = None"
    by (simp add: policy_entry_def entry_for_def sample_config_def sample_auth_def names_uid_def strip_prefix_def sample_numbers)
  moreover have "\<not> ac_allow_all_authenticated (dc_auth sample_config)" by (simp add: sample_config_def sample_auth_def)
  ultimately show ?thesis
    using no_access_without_authority[OF sample_valid 1 2 3, of "''x''" "''AB''"] sample_valid 1 2 3 by simp
qed


definition dead_entry :: PolicyEntry where
  "dead_entry = \<lparr>pe_identity = ''x509:spki=ab;issuer=CN=a;subject=CN=b'', pe_tokens = SpecAll ''all''\<rparr>"

definition dead_auth :: AuthConfig where
  "dead_auth = \<lparr>ac_allow_all_authenticated = False, ac_policy = [dead_entry], ac_anonymous_principal = None\<rparr>"


end
