(* ===== verification/Token_Info.thy ===== *)
theory Token_Info
  imports Server_World Policy_Decisions
begin

text \<open>
  The per-slot cache of a token's label and serial number (\<^verbatim>\<open>context_manager.rs\<close>) and the question
  that uses it most, whether a context may use the token of a slot (\<^verbatim>\<open>authorization.rs\<close>).  Lookups and
  re-initialisations of a token run concurrently; the cache must not serve the label the token had
  before it was re-initialised.
\<close>

section \<open>The cache\<close>

definition TOKEN_INFO_CACHE_TTL :: duration where
  "TOKEN_INFO_CACHE_TTL = 5 * 1000"

definition authz_generation :: "ContextManager \<Rightarrow> u64" where
  "authz_generation m = cm_authz_generation m"

definition revoke_authz_generation :: "ContextManager \<Rightarrow> ContextManager" where
  "revoke_authz_generation m = m\<lparr>cm_authz_generation := cm_authz_generation m + 1\<rparr>"

definition cached_token_info_within ::
  "instant \<Rightarrow> BackendSlotId \<Rightarrow> duration \<Rightarrow> ContextManager \<Rightarrow> (string \<times> string) option" where
  "cached_token_info_within now slot ttl m =
     (case hget (cm_token_info_cache m) slot of
        None \<Rightarrow> None
      | Some (cached_at, label, serial) \<Rightarrow> if now - cached_at < ttl then Some (label, serial) else None)"

definition cached_token_info :: "instant \<Rightarrow> BackendSlotId \<Rightarrow> ContextManager \<Rightarrow> (string \<times> string) option" where
  "cached_token_info now slot m = cached_token_info_within now slot TOKEN_INFO_CACHE_TTL m"

definition cache_token_info :: "instant \<Rightarrow> BackendSlotId \<Rightarrow> string \<Rightarrow> string \<Rightarrow> ContextManager \<Rightarrow> ContextManager" where
  "cache_token_info now slot label serial m =
     m\<lparr>cm_token_info_cache := hput slot (now, label, serial) (cm_token_info_cache m)\<rparr>"

definition cache_token_info_if_generation ::
  "instant \<Rightarrow> BackendSlotId \<Rightarrow> string \<Rightarrow> string \<Rightarrow> u64 \<Rightarrow> ContextManager \<Rightarrow> bool \<times> ContextManager" where
  "cache_token_info_if_generation now slot label serial generation m =
     (if cm_authz_generation m \<noteq> generation then (False, m)
      else (True, cache_token_info now slot label serial m))"

definition invalidate_token_info :: "BackendSlotId \<Rightarrow> ContextManager \<Rightarrow> ContextManager" where
  "invalidate_token_info slot m = m\<lparr>cm_token_info_cache := hdel slot (cm_token_info_cache m)\<rparr>"

definition invalidate_token_info_on_reinit :: "BackendSlotId \<Rightarrow> ContextManager \<Rightarrow> ContextManager" where
  "invalidate_token_info_on_reinit slot m = revoke_authz_generation (invalidate_token_info slot m)"

section \<open>Slots\<close>

fun register_slots :: "u64 list \<Rightarrow> SlotMap \<Rightarrow> SlotMap" where
  "register_slots [] sm = sm"
| "register_slots (s # ss) sm = register_slots ss (snd (slot_map_register (BackendSlotId s) sm))"

definition populate_slots :: "u64 list CkResult \<Rightarrow> ContextManager \<Rightarrow> unit CkResult \<times> ContextManager" where
  "populate_slots listed m =
     (case listed of
        Inl e \<Rightarrow> (Inl e, m)
      | Inr slots \<Rightarrow> (Inr (), m\<lparr>cm_slot_map := register_slots slots (cm_slot_map m)\<rparr>))"

definition register_slot :: "BackendSlotId \<Rightarrow> ContextManager \<Rightarrow> ContextManager" where
  "register_slot slot m =
     (let m1 = invalidate_token_info slot m
      in m1\<lparr>cm_slot_map := snd (slot_map_register slot (cm_slot_map m1))\<rparr>)"

definition resolve_slot :: "ContextManager \<Rightarrow> u64 \<Rightarrow> BackendSlotId CkResult" where
  "resolve_slot m slot_id =
     (case slot_map_resolve (cm_slot_map m) (VirtualSlotId slot_id) of
        None \<Rightarrow> Inl CKR_SLOT_ID_INVALID | Some b \<Rightarrow> Inr b)"

definition slot_for_session :: "ClientContextId \<Rightarrow> VirtualHandle \<Rightarrow> 'b run \<Rightarrow> BackendSlotId option \<times> 'b run" where
  "slot_for_session cid vh s =
     (let (r, s') = in_context cid (\<lambda>ctx. (hget (lc_session_slots ctx) vh, ctx)) s in (Option.bind r id, s'))"

section \<open>May this context use the token?\<close>

definition context_exists :: "ClientContextId \<Rightarrow> 'b run \<Rightarrow> bool \<times> 'b run" where
  "context_exists cid s = (let (r, s') = in_context cid (\<lambda>ctx. ((), ctx)) s in (r \<noteq> None, s'))"

definition authz_context_identity ::
  "ClientContextId \<Rightarrow> 'b run \<Rightarrow> AuthenticatedIdentity CkResult \<times> 'b run" where
  "authz_context_identity cid s =
     (let (found, s1) = context_exists cid s in
      if \<not> found then (Inl CKR_CRYPTOKI_NOT_INITIALIZED, s1)
      else case context_identity (mgr_of s1) cid of
             None \<Rightarrow> (Inr Unauthenticated, s1)
           | Some identity \<Rightarrow>
               (case identity_from_str identity of
                  Inl _ \<Rightarrow> (Inl CKR_GENERAL_ERROR, s1)
                | Inr i \<Rightarrow> (Inr i, s1)))"

text \<open>Label and serial number of the token in a slot: from the cache when fresh, otherwise from the library.\<close>

definition token_info ::
  "'b Pkcs11Backend \<Rightarrow> BackendSlotId \<Rightarrow> 'b run \<Rightarrow> (Status + (string \<times> string) CkResult) \<times> 'b run" where
  "token_info be slot s =
     (case cached_token_info (w_now (fst s)) slot (mgr_of s) of
        Some cached \<Rightarrow> (Inr (Inr cached), s)
      | None \<Rightarrow>
          (let generation = authz_generation (mgr_of s);
               (r, s1) = call_backend (be_get_token_info be (bs_raw slot)) s
           in case r of
                Inl st \<Rightarrow> (Inl st, s1)
              | Inr (Inl e) \<Rightarrow> (Inr (Inl e), s1)
              | Inr (Inr info) \<Rightarrow>
                  (Inr (Inr (ti_label info, ti_serial_number info)),
                   on_mgr (\<lambda>m. snd (cache_token_info_if_generation (w_now (fst s1)) slot (ti_label info)
                                      (ti_serial_number info) generation m)) s1)))"

definition slot_is_authorized ::
  "'b Pkcs11Backend \<Rightarrow> TokenPolicy \<Rightarrow> ClientContextId \<Rightarrow> BackendSlotId \<Rightarrow> 'b run
   \<Rightarrow> (Status + bool CkResult) \<times> 'b run" where
  "slot_is_authorized be policy cid slot s =
     (case authz_context_identity cid s of
        (Inl e, s1) \<Rightarrow> (Inr (Inl e), s1)
      | (Inr identity, s1) \<Rightarrow>
          if identity = Unauthenticated then (Inr (Inr (allows_unauthenticated policy)), s1)
          else case token_info be slot s1 of
                 (Inl st, s2) \<Rightarrow> (Inl st, s2)
               | (Inr (Inl e), s2) \<Rightarrow>
                   if e = CKR_TOKEN_NOT_PRESENT then (Inr (Inr False), s2) else (Inr (Inl e), s2)
               | (Inr (Inr (label, serial)), s2) \<Rightarrow> (Inr (Inr (allows policy identity label serial)), s2))"

section \<open>Concurrent lookups and re-initialisations\<close>

text \<open>
  A lookup that misses the cache notes the generation, later reads the library, later still
  publishes; a re-initialisation changes the token in the library and, in a later step of the same
  worker, invalidates the cache.  Nothing but a re-initialisation changes a token.
\<close>

record lookup =
  lk_slot :: BackendSlotId
  lk_generation :: u64
  lk_value :: "(string \<times> string) option"

record token_sys =
  ts_mgr :: ContextManager
  ts_token :: "BackendSlotId \<Rightarrow> string \<times> string"
  ts_lookups :: "lookup list"
  ts_reinits :: "BackendSlotId list"

text \<open>The relation counts how often the generation has advanced.\<close>

inductive token_reachable :: "nat \<Rightarrow> token_sys \<Rightarrow> bool" where
  token_start:
    "token_reachable 0 \<lparr>ts_mgr = context_manager_new lease most, ts_token = tok, ts_lookups = [], ts_reinits = []\<rparr>"
| token_lookup:
    "token_reachable k y \<Longrightarrow>
     token_reachable k (y\<lparr>ts_lookups :=
       \<lparr>lk_slot = slot, lk_generation = authz_generation (ts_mgr y), lk_value = None\<rparr> # ts_lookups y\<rparr>)"
| token_read:
    "token_reachable k y \<Longrightarrow> ts_lookups y = before @ l # after \<Longrightarrow>
     token_reachable k (y\<lparr>ts_lookups := before @ l\<lparr>lk_value := Some (ts_token y (lk_slot l))\<rparr> # after\<rparr>)"
| token_publish:
    "token_reachable k y \<Longrightarrow> ts_lookups y = before @ l # after \<Longrightarrow> lk_value l = Some (label, serial) \<Longrightarrow>
     token_reachable k (y\<lparr>ts_lookups := before @ after,
       ts_mgr := snd (cache_token_info_if_generation now (lk_slot l) label serial (lk_generation l) (ts_mgr y))\<rparr>)"
| token_lookup_lost:
    "token_reachable k y \<Longrightarrow> ts_lookups y = before @ l # after \<Longrightarrow>
     token_reachable k (y\<lparr>ts_lookups := before @ after\<rparr>)"
| token_reinit:
    "token_reachable k y \<Longrightarrow>
     token_reachable k (y\<lparr>ts_token := (ts_token y)(slot := v), ts_reinits := slot # ts_reinits y\<rparr>)"
| token_reinit_done:
    "token_reachable k y \<Longrightarrow> slot \<in> set (ts_reinits y) \<Longrightarrow>
     token_reachable (Suc k) (y\<lparr>ts_reinits := remove1 slot (ts_reinits y),
       ts_mgr := invalidate_token_info_on_reinit slot (ts_mgr y)\<rparr>)"
| token_forget:
    "token_reachable k y \<Longrightarrow> token_reachable k (y\<lparr>ts_mgr := register_slot slot (ts_mgr y)\<rparr>)"
| token_revoke:
    "token_reachable k y \<Longrightarrow> token_reachable (Suc k) (y\<lparr>ts_mgr := revoke_authz_generation (ts_mgr y)\<rparr>)"

lemmas token_defs = authz_generation_def revoke_authz_generation_def cache_token_info_def
  cache_token_info_if_generation_def invalidate_token_info_def invalidate_token_info_on_reinit_def
  register_slot_def

definition token_fresh :: "token_sys \<Rightarrow> BackendSlotId \<Rightarrow> string \<times> string \<Rightarrow> bool" where
  "token_fresh y slot v \<longleftrightarrow> slot \<in> set (ts_reinits y) \<or> v = ts_token y slot"

lemma token_fresh_upd [simp]:
  "token_fresh (y\<lparr>ts_lookups := ls\<rparr>) = token_fresh y"
  "token_fresh (y\<lparr>ts_mgr := m\<rparr>) = token_fresh y"
  "token_fresh (y\<lparr>ts_lookups := ls, ts_mgr := m\<rparr>) = token_fresh y"
  by (simp_all add: token_fresh_def fun_eq_iff)

definition token_inv :: "nat \<Rightarrow> token_sys \<Rightarrow> bool" where
  "token_inv k y \<longleftrightarrow>
     unat (cm_authz_generation (ts_mgr y)) = k
     \<and> (\<forall>slot t v. hget (cm_token_info_cache (ts_mgr y)) slot = Some (t, v) \<longrightarrow> token_fresh y slot v)
     \<and> (\<forall>l \<in> set (ts_lookups y). unat (lk_generation l) \<le> k
          \<and> (unat (lk_generation l) = k \<longrightarrow>
               (\<forall>v. lk_value l = Some v \<longrightarrow> token_fresh y (lk_slot l) v)))"

lemma unat_suc_u64:
  assumes "unat (g :: u64) = k" "Suc k < 2 ^ 64"
  shows "unat (g + 1) = Suc k"
  using assms unat_add_one[of g] u64_room[of g] by simp

lemma token_reachable_inv: "token_reachable k y \<Longrightarrow> k < 2 ^ 64 \<Longrightarrow> token_inv k y"
proof (induction rule: token_reachable.induct)
  case (token_start lease most tok)
  then show ?case by (simp add: token_inv_def context_manager_new_def)
next
  case (token_lookup k y slot)
  then show ?case by (simp add: token_inv_def token_defs)
next
  case (token_read k y before l after)
  then have "l \<in> set (ts_lookups y)" by simp
  with token_read show ?case by (auto simp: token_inv_def token_fresh_def)
next
  case (token_publish k y before l after label serial now)
  then have l: "l \<in> set (ts_lookups y)" by simp
  have inv: "token_inv k y" using token_publish by simp
  have "token_fresh y (lk_slot l) (label, serial)" if "cm_authz_generation (ts_mgr y) = lk_generation l"
  proof -
    have "unat (lk_generation l) = k" using that inv by (simp add: token_inv_def)
    with inv l token_publish.hyps(3) show ?thesis by (auto simp: token_inv_def)
  qed
  with inv token_publish.hyps(2) show ?case by (auto simp: token_inv_def token_fresh_def token_defs)
next
  case (token_lookup_lost k y before l after)
  then show ?case by (auto simp: token_inv_def token_fresh_def)
next
  case (token_reinit k y slot v)
  then have inv: "token_inv k y" by simp
  have "token_fresh (y\<lparr>ts_token := (ts_token y)(slot := v), ts_reinits := slot # ts_reinits y\<rparr>) s w"
    if "token_fresh y s w" for s w using that by (auto simp: token_fresh_def)
  with inv show ?case by (auto simp: token_inv_def split: option.splits)
next
  case (token_reinit_done k y slot)
  then have inv: "token_inv k y" by simp
  have g: "unat (cm_authz_generation (ts_mgr y) + 1) = Suc k"
    using inv token_reinit_done.prems by (intro unat_suc_u64) (auto simp: token_inv_def)
  have "token_fresh (y\<lparr>ts_reinits := remove1 slot (ts_reinits y), ts_mgr := m\<rparr>) s w"
    if "token_fresh y s w" "s \<noteq> slot" for s w m using that by (auto simp: token_fresh_def in_set_remove1)
  with inv g show ?case by (fastforce simp: token_inv_def token_defs split: if_splits)
next
  case (token_forget k y slot)
  then show ?case by (auto simp: token_inv_def token_fresh_def token_defs Let_def split: if_splits option.splits)
next
  case (token_revoke k y)
  then have inv: "token_inv k y" by simp
  have "unat (cm_authz_generation (ts_mgr y) + 1) = Suc k"
    using inv token_revoke.prems by (intro unat_suc_u64) (auto simp: token_inv_def)
  with inv show ?case by (fastforce simp: token_inv_def token_fresh_def token_defs)
qed


text \<open>A lookup that is overtaken by a re-initialisation, and one that is not.\<close>

definition overtaken :: token_sys where
  "overtaken = \<lparr>ts_mgr = cache_token_info 7 (BackendSlotId 1) ''new'' ''s''
       (revoke_authz_generation (context_manager_new 1000 4)),
     ts_token = (\<lambda>_. (''old'', ''s''))(BackendSlotId 1 := (''new'', ''s'')),
     ts_lookups = [], ts_reinits = []\<rparr>"

lemma overtaken_reachable: "token_reachable 1 overtaken"
proof -
  let ?m0 = "context_manager_new 1000 4"
  let ?m1 = "revoke_authz_generation ?m0"
  let ?tok = "(\<lambda>_. (''old'', ''s''))(BackendSlotId 1 := (''new'', ''s''))"
  let ?l = "\<lambda>g v. \<lparr>lk_slot = BackendSlotId 1, lk_generation = g, lk_value = v\<rparr>"
  note [simp] = token_defs context_manager_new_def
  have 0: "token_reachable 0 \<lparr>ts_mgr = ?m0, ts_token = \<lambda>_. (''old'', ''s''), ts_lookups = [], ts_reinits = []\<rparr>"
    by (rule token_start)
  have 1: "token_reachable 0 \<lparr>ts_mgr = ?m0, ts_token = \<lambda>_. (''old'', ''s''), ts_lookups = [?l 0 None], ts_reinits = []\<rparr>"
    using token_lookup[OF 0, of "BackendSlotId 1"] by simp
  have 2: "token_reachable 0 \<lparr>ts_mgr = ?m0, ts_token = \<lambda>_. (''old'', ''s''),
      ts_lookups = [?l 0 (Some (''old'', ''s''))], ts_reinits = []\<rparr>"
    using token_read[OF 1, of "[]" "?l 0 None" "[]"] by simp
  have 3: "token_reachable 0 \<lparr>ts_mgr = ?m0, ts_token = ?tok,
      ts_lookups = [?l 0 (Some (''old'', ''s''))], ts_reinits = [BackendSlotId 1]\<rparr>"
    using token_reinit[OF 2, of "BackendSlotId 1" "(''new'', ''s'')"] by simp
  have 4: "token_reachable 1 \<lparr>ts_mgr = ?m1, ts_token = ?tok,
      ts_lookups = [?l 0 (Some (''old'', ''s''))], ts_reinits = []\<rparr>"
    using token_reinit_done[OF 3, of "BackendSlotId 1"] by simp
  have 5: "token_reachable 1 \<lparr>ts_mgr = ?m1, ts_token = ?tok, ts_lookups = [], ts_reinits = []\<rparr>"
    using token_publish[OF 4, of "[]" "?l 0 (Some (''old'', ''s''))" "[]" "''old''" "''s''" 3] by simp
  have 6: "token_reachable 1 \<lparr>ts_mgr = ?m1, ts_token = ?tok, ts_lookups = [?l 1 None], ts_reinits = []\<rparr>"
    using token_lookup[OF 5, of "BackendSlotId 1"] by simp
  have 7: "token_reachable 1 \<lparr>ts_mgr = ?m1, ts_token = ?tok, ts_lookups = [?l 1 (Some (''new'', ''s''))], ts_reinits = []\<rparr>"
    using token_read[OF 6, of "[]" "?l 1 None" "[]"] by simp
  show ?thesis
    using token_publish[OF 7, of "[]" "?l 1 (Some (''new'', ''s''))" "[]" "''new''" "''s''" 7]
    by (simp add: overtaken_def)
qed


end
