(* ===== verification/World_View.thy ===== *)
theory World_View
  imports Server_World
begin

text \<open>
  Reasoning under interference.  A predicate on the shared tables is relied on when the other tasks
  never falsify it, and guaranteed by a stretch of a handler when it still holds, and is still relied on,
  at the end of the stretch, whatever happens at the suspensions in between.  A view is what a property
  needs to know of the tables; a schedule is stable for a view when the other tasks never change it.
\<close>

definition rely :: "(ContextManager \<Rightarrow> bool) \<Rightarrow> 'b run \<Rightarrow> bool" where
  "rely P s \<longleftrightarrow> (\<forall>f \<in> set (sc_env (snd s)). \<forall>w. P (w_mgr w) \<longrightarrow> P (w_mgr (f w)))"

definition guar :: "(ContextManager \<Rightarrow> bool) \<Rightarrow> 'b run \<Rightarrow> 'b run \<Rightarrow> bool" where
  "guar P s s' \<longleftrightarrow> (rely P s \<and> P (mgr_of s) \<longrightarrow> rely P s' \<and> P (mgr_of s'))"

definition view_stable :: "(ContextManager \<Rightarrow> 'v) \<Rightarrow> 'b run \<Rightarrow> bool" where
  "view_stable view s \<longleftrightarrow> (\<forall>f \<in> set (sc_env (snd s)). \<forall>w. view (w_mgr (f w)) = view (w_mgr w))"

definition view_kept :: "(ContextManager \<Rightarrow> 'v) \<Rightarrow> 'b run \<Rightarrow> 'b run \<Rightarrow> bool" where
  "view_kept view s s' \<longleftrightarrow>
     (view_stable view s \<longrightarrow> view_stable view s' \<and> view (mgr_of s') = view (mgr_of s))"

lemma guarD: "guar P s s' \<Longrightarrow> rely P s \<Longrightarrow> P (mgr_of s) \<Longrightarrow> rely P s'"
  "guar P s s' \<Longrightarrow> rely P s \<Longrightarrow> P (mgr_of s) \<Longrightarrow> P (mgr_of s')"
  by (simp_all add: guar_def)

lemma guar_refl [simp]: "guar P s s"
  by (simp add: guar_def)

lemma guar_trans [trans]: "guar P s s1 \<Longrightarrow> guar P s1 s2 \<Longrightarrow> guar P s s2"
  by (simp add: guar_def)

lemma guar_pause: "guar P s (pause s)"
  by (auto simp: guar_def rely_def pause_def mgr_of_def split: list.splits)

lemma rely_on_mgr [simp]: "rely P (on_mgr f s) = rely P s"
  by (simp add: rely_def)

lemma guar_on_mgr: "(P (mgr_of s) \<Longrightarrow> P (f (mgr_of s))) \<Longrightarrow> guar P s (on_mgr f s)"
  by (simp add: guar_def)

lemma guar_backend: "guar P s (w, sc) \<Longrightarrow> guar P s (w\<lparr>w_backend := b\<rparr>, sc\<lparr>sc_fates := fs\<rparr>)"
  by (simp add: guar_def rely_def mgr_of_def)

lemma guar_call:
  assumes "call_backend operation s = (r, s')"
  shows "guar P s s'"
proof -
  obtain w sc where p: "pause s = (w, sc)"
    by (meson surj_pair)
  have "guar P s (w, sc)"
    using guar_pause [of P s] p by simp
  then show ?thesis
    using assms p by (auto simp: call_backend_def split: prod.splits intro: guar_trans [OF guar_backend guar_pause])
qed

lemma guar_acquire:
  assumes "acquire_slot_login_lock slot s = (r, s')" "\<And>m. P m \<Longrightarrow> P (lock_slot slot m)"
  shows "guar P s s'"
  using assms
  by (auto simp: acquire_slot_login_lock_def Let_def guar_pause split: if_splits
      intro!: guar_trans [OF guar_pause guar_on_mgr])

text \<open>A view is kept when each of its values is guaranteed.\<close>

lemma view_stable_rely: "view_stable view s \<longleftrightarrow> (\<forall>v. rely (\<lambda>m. view m = v) s)"
  by (auto simp: view_stable_def rely_def)

lemma view_keptI: "(\<And>v. guar (\<lambda>m. view m = v) s s') \<Longrightarrow> (view_stable view s \<Longrightarrow> view_stable view s') \<Longrightarrow> view_kept view s s'"
  by (auto simp: view_kept_def guar_def view_stable_rely)

lemma view_keptD:
  "view_kept view s s' \<Longrightarrow> view_stable view s \<Longrightarrow> view_stable view s'"
  "view_kept view s s' \<Longrightarrow> view_stable view s \<Longrightarrow> view (mgr_of s') = view (mgr_of s)"
  by (simp_all add: view_kept_def)

lemma view_stable_quiet: "quiet s \<Longrightarrow> view_stable view s"
  by (simp add: quiet_def view_stable_def)

lemma view_stable_on_mgr [simp]: "view_stable view (on_mgr f s) = view_stable view s"
  by (simp add: view_stable_def)

lemma view_kept_refl [simp]: "view_kept view s s"
  by (simp add: view_kept_def)

lemma view_kept_trans [trans]: "view_kept view s s1 \<Longrightarrow> view_kept view s1 s2 \<Longrightarrow> view_kept view s s2"
  by (simp add: view_kept_def)

lemma sc_env_pause: "set (sc_env (snd (pause s))) \<subseteq> set (sc_env (snd s))"
  by (auto simp: pause_def split: list.splits)

lemma sc_env_call: "call_backend operation s = (r, s') \<Longrightarrow> set (sc_env (snd s')) \<subseteq> set (sc_env (snd s))"
  using sc_env_pause [of s] sc_env_pause
  by (fastforce simp: call_backend_def split: prod.splits)

lemma view_stable_subset:
  "set (sc_env (snd s')) \<subseteq> set (sc_env (snd s)) \<Longrightarrow> view_stable view s \<Longrightarrow> view_stable view s'"
  unfolding view_stable_def by blast

lemma view_kept_pause: "view_kept view s (pause s)"
  by (rule view_keptI [OF guar_pause view_stable_subset [OF sc_env_pause]])

lemma view_kept_on_mgr: "view (f (mgr_of s)) = view (mgr_of s) \<Longrightarrow> view_kept view s (on_mgr f s)"
  by (simp add: view_kept_def)

lemma view_kept_call: "call_backend operation s = (r, s') \<Longrightarrow> view_kept view s s'"
  by (rule view_keptI [OF guar_call view_stable_subset [OF sc_env_call]])

lemma view_kept_acquire:
  assumes "acquire_slot_login_lock slot s = (r, s')" "\<And>m. view (lock_slot slot m) = view m"
  shows "view_kept view s s'"
  using assms
  by (auto simp: acquire_slot_login_lock_def Let_def view_kept_pause split: if_splits
      intro!: view_kept_trans [OF view_kept_pause view_kept_on_mgr])

text \<open>Running a function on one context, for views of that context and for views of the rest.\<close>

lemma in_context_mgr:
  assumes "in_context cid f s = (r, s')"
  obtains (missing) "hget (cm_contexts (mgr_of s)) cid = None" "r = None" "s' = on_mgr (\<lambda>_. mgr_of s) s"
  | (found) ctx x ctx' where "hget (cm_contexts (mgr_of s)) cid = Some ctx"
      "f (client_touch (w_now (fst s)) ctx) = (x, ctx')" "r = Some x"
      "s' = on_mgr (\<lambda>_. (mgr_of s)\<lparr>cm_contexts := hput cid ctx' (cm_contexts (mgr_of s))\<rparr>) s"
  using assms by (auto simp: in_context_def get_context_def split: option.splits prod.splits)

lemma view_kept_in_context:
  assumes "in_context cid f s = (r, s')"
    and "\<And>m ctx now. hget (cm_contexts m) cid = Some ctx \<Longrightarrow>
      view (m\<lparr>cm_contexts := hput cid (snd (f (client_touch now ctx))) (cm_contexts m)\<rparr>) = view m"
  shows "view_kept view s s'"
  using assms(1)
proof (cases rule: in_context_mgr)
  case (found ctx x ctx')
  then show ?thesis
    using assms(2) [of "mgr_of s" ctx "w_now (fst s)"] by (simp add: view_kept_on_mgr)
qed (simp add: view_kept_on_mgr)

lemma guar_in_context:
  assumes "in_context cid f s = (r, s')"
    and "\<And>m ctx now. P m \<Longrightarrow> hget (cm_contexts m) cid = Some ctx \<Longrightarrow>
      P (m\<lparr>cm_contexts := hput cid (snd (f (client_touch now ctx))) (cm_contexts m)\<rparr>)"
  shows "guar P s s'"
  using assms(1)
proof (cases rule: in_context_mgr)
  case (found ctx x ctx')
  then show ?thesis
    using assms(2) [of "mgr_of s" ctx "w_now (fst s)"] by (simp add: guar_on_mgr)
qed (simp add: guar_on_mgr)

lemma in_context_frame:
  assumes "in_context cid f s = (r, s')"
  shows "w_backend (fst s') = w_backend (fst s)" "w_now (fst s') = w_now (fst s)" "w_quota (fst s') = w_quota (fst s)"
    "snd s' = snd s"
    "cm_login_locks_held (mgr_of s') = cm_login_locks_held (mgr_of s)"
    "c \<noteq> cid \<Longrightarrow> hget (cm_contexts (mgr_of s')) c = hget (cm_contexts (mgr_of s)) c"
    "hwf (cm_contexts (mgr_of s)) \<Longrightarrow> hwf (cm_contexts (mgr_of s'))"
  using assms by (auto elim!: in_context_mgr)

text \<open>An error the library did not report is one of the daemon's own, and never \<open>CKR_OK\<close>.\<close>

lemma call_backend_error:
  assumes "call_backend operation s = (Inr r, s')" "\<And>b. fst (operation b) \<noteq> Inl CKR_OK"
  shows "r \<noteq> Inl CKR_OK"
proof -
  obtain fate b where "spawn_backend fate operation b = (Inr r, snd (spawn_backend fate operation b))"
    using assms(1) by (auto simp: call_backend_def split: prod.splits) (metis snd_conv)
  then show ?thesis
    using assms(2) by (cases fate) (auto simp: prod_eq_iff)
qed

text \<open>
  What the handlers rely on of the library: a call that fails does not fail with \<open>CKR_OK\<close>.
\<close>

definition truthful :: "'b Pkcs11Backend \<Rightarrow> bool" where
  "truthful be \<longleftrightarrow>
     (\<forall>slot flags b. fst (be_open_session be slot flags b) \<noteq> Inl CKR_OK)
     \<and> (\<forall>session b. fst (be_close_session be session b) \<noteq> Inl CKR_OK)
     \<and> (\<forall>session user_type pin b. fst (be_login be session user_type pin b) \<noteq> Inl CKR_OK)
     \<and> (\<forall>session b. fst (be_logout be session b) \<noteq> Inl CKR_OK)
     \<and> (\<forall>slot b. fst (be_get_token_info be slot b) \<noteq> Inl CKR_OK)"

lemma truthfulD:
  assumes "truthful be"
  shows "fst (be_open_session be slot flags b) \<noteq> Inl CKR_OK" "fst (be_close_session be session b) \<noteq> Inl CKR_OK"
    "fst (be_login be session user_type pin b) \<noteq> Inl CKR_OK" "fst (be_logout be session b) \<noteq> Inl CKR_OK"
    "fst (be_get_token_info be slot b) \<noteq> Inl CKR_OK"
  using assms unfolding truthful_def by blast+

end
