(* ===== verification/Session_Login.thy ===== *)
theory Session_Login
  imports Token_Info Context_Login World_View
begin

text \<open>
  \<^verbatim>\<open>C_Login\<close> and \<^verbatim>\<open>C_Logout\<close> as the daemon serves them
  (\<^verbatim>\<open>crates/server/src/server/grpc_service/session_handlers/auth.rs\<close>).  The library has one login per
  token, the daemon has one per client context and slot; the handlers keep the second in step with the
  first.  Both run under the lock of the slot.
\<close>

section \<open>Resolving a session\<close>

definition resolve_session_slot_login ::
  "ClientContextId \<Rightarrow> u64 \<Rightarrow> 'b run \<Rightarrow> (u64 \<times> BackendSlotId \<times> LoginState option) CkResult \<times> 'b run" where
  "resolve_session_slot_login cid session_handle s =
     (case in_context cid (\<lambda>ctx.
             let virtual_session = VirtualHandle session_handle;
                 backend_session = handle_map_resolve (lc_session_handles ctx) virtual_session;
                 slot = hget (lc_session_slots ctx) virtual_session;
                 current_login_state = Option.bind slot (hget (lc_login_state ctx))
             in ((backend_session, slot, current_login_state), ctx)) s of
        (None, s') \<Rightarrow> (Inl CKR_CRYPTOKI_NOT_INITIALIZED, s')
      | (Some (Some backend_session, Some slot, current_login_state), s') \<Rightarrow>
          (Inr (bh_raw backend_session, slot, current_login_state), s')
      | (Some _, s') \<Rightarrow> (Inl CKR_SESSION_HANDLE_INVALID, s'))"

text \<open>The check, made again after a suspension, that the handle still names the same session.\<close>

definition still_bound ::
  "ClientContextId \<Rightarrow> u64 \<Rightarrow> u64 \<Rightarrow> BackendSlotId \<Rightarrow> 'b run \<Rightarrow> bool \<times> 'b run" where
  "still_bound cid session_handle session slot s =
     (case resolve_session_slot_login cid session_handle s of
        (Inr (fresh_session, fresh_slot, _), s') \<Rightarrow> (fresh_session = session \<and> fresh_slot = slot, s')
      | (Inl _, s') \<Rightarrow> (False, s'))"

section \<open>Login\<close>

definition login_state_for_user_type :: "CkUserType \<Rightarrow> LoginState option" where
  "login_state_for_user_type user_type =
     (case user_type of
        UserTypeSo \<Rightarrow> Some So
      | UserTypeUser \<Rightarrow> Some User
      | UserTypeContextSpecific \<Rightarrow> None)"

definition on_quota :: "(RateQuota option \<Rightarrow> RateQuota option) \<Rightarrow> 'b run \<Rightarrow> 'b run" where
  "on_quota f s = ((fst s)\<lparr>w_quota := f (w_quota (fst s))\<rparr>, snd s)"

definition already_logged_in :: "CkRv \<Rightarrow> bool" where
  "already_logged_in rv \<longleftrightarrow> rv = CKR_USER_ALREADY_LOGGED_IN \<or> rv = CKR_USER_ANOTHER_ALREADY_LOGGED_IN"

text \<open>What the handler does with the library's answer, still under the lock.\<close>

definition mint_login :: "ClientContextId \<Rightarrow> BackendSlotId \<Rightarrow> LoginState \<Rightarrow> 'b run \<Rightarrow> 'b run" where
  "mint_login cid slot login_state s =
     (case in_context cid (\<lambda>ctx. ((), ctx\<lparr>lc_login_state := hput slot login_state (lc_login_state ctx)\<rparr>)) s of
        (Some _, s') \<Rightarrow> on_mgr (note_login_acquired cid slot) s'
      | (None, s') \<Rightarrow> s')"

definition login_settle ::
  "ClientContextId \<Rightarrow> u64 \<Rightarrow> CkUserType \<Rightarrow> bool \<Rightarrow> BackendSlotId \<Rightarrow> u64 \<Rightarrow> unit CkResult \<Rightarrow> 'b run \<Rightarrow> CkRv \<times> 'b run" where
  "login_settle cid session_handle user_type pin_presented slot session result s =
     (case result of
        Inr _ \<Rightarrow>
          (case still_bound cid session_handle session slot s of
             (True, s1) \<Rightarrow>
               let s2 = on_quota (record_login_success slot) s1
               in (CKR_OK, case login_state_for_user_type user_type of
                             None \<Rightarrow> s2
                           | Some login_state \<Rightarrow> mint_login cid slot login_state s2)
           | (False, s1) \<Rightarrow> (CKR_SESSION_HANDLE_INVALID, s1))
      | Inl error \<Rightarrow>
          let s1 = (if error = CKR_PIN_INCORRECT \<or> error = CKR_PIN_INVALID \<or> error = CKR_PIN_LEN_RANGE
                    then on_quota (\<lambda>q. snd (record_login_failure (w_now (fst s)) slot q)) s else s);
              s2 = (if already_logged_in error \<and> pin_presented \<and> login_state_for_user_type user_type \<noteq> None
                    then snd (in_context cid (\<lambda>ctx.
                           ((), ctx\<lparr>lc_contended_slot_login := insert slot (lc_contended_slot_login ctx)\<rparr>)) s1)
                    else s1)
          in (error, s2))"

text \<open>
  The library says a user is logged in while no context holds the slot: one logout with the lock
  released, one more attempt.  The flag says whether the lock is held at the end.
\<close>

definition login_reconcile ::
  "'b Pkcs11Backend \<Rightarrow> ClientContextId \<Rightarrow> u64 \<Rightarrow> CkUserType \<Rightarrow> u8 list option \<Rightarrow> BackendSlotId \<Rightarrow> u64 \<Rightarrow> 'b run
   \<Rightarrow> (Status + CkRv) \<times> bool \<times> 'b run" where
  "login_reconcile be cid session_handle user_type pin slot session s =
     (case call_backend (be_logout be session) (on_mgr (unlock_slot slot) s) of
        (Inl status, s1) \<Rightarrow> (Inl status, False, s1)
      | (Inr _, s1) \<Rightarrow>
          (case acquire_slot_login_lock slot s1 of
             (Inl rv, s2) \<Rightarrow> (Inr rv, False, s2)
           | (Inr _, s2) \<Rightarrow>
               (case still_bound cid session_handle session slot s2 of
                  (False, s3) \<Rightarrow> (Inr CKR_SESSION_HANDLE_INVALID, True, s3)
                | (True, s3) \<Rightarrow>
                    (case call_backend (be_login be session user_type pin) s3 of
                       (Inl status, s4) \<Rightarrow> (Inl status, True, s4)
                     | (Inr result, s4) \<Rightarrow>
                         let (rv, s5) = login_settle cid session_handle user_type (pin \<noteq> None) slot session result s4
                         in (Inr rv, True, s5)))))"

definition login_locked ::
  "'b Pkcs11Backend \<Rightarrow> ClientContextId \<Rightarrow> u64 \<Rightarrow> CkUserType \<Rightarrow> u8 list option \<Rightarrow> BackendSlotId \<Rightarrow> 'b run
   \<Rightarrow> (Status + CkRv) \<times> bool \<times> 'b run" where
  "login_locked be cid session_handle user_type pin slot s =
     (case resolve_session_slot_login cid session_handle s of
        (Inl rv, s1) \<Rightarrow> (Inr rv, True, s1)
      | (Inr (session, resolved_slot, _), s1) \<Rightarrow>
          if resolved_slot \<noteq> slot then (Inr CKR_SESSION_HANDLE_INVALID, True, s1)
          else if login_slot_in_cooldown (w_now (fst s1)) slot (w_quota (fst s1)) then (Inr CKR_PIN_LOCKED, True, s1)
          else case call_backend (be_login be session user_type pin) s1 of
                 (Inl status, s2) \<Rightarrow> (Inl status, True, s2)
               | (Inr result, s2) \<Rightarrow>
                   if (case result of Inl rv \<Rightarrow> already_logged_in rv \<and> \<not> any_login_state_for_slot (mgr_of s2) slot
                       | Inr _ \<Rightarrow> False)
                   then login_reconcile be cid session_handle user_type pin slot session s2
                   else let (rv, s3) = login_settle cid session_handle user_type (pin \<noteq> None) slot session result s2
                        in (Inr rv, True, s3))"

definition login ::
  "'b Pkcs11Backend \<Rightarrow> ClientContextId \<Rightarrow> u64 \<Rightarrow> u64 \<Rightarrow> u8 list option \<Rightarrow> 'b run \<Rightarrow> (Status + CkRv) \<times> 'b run" where
  "login be cid session_handle user_type_raw pin s =
     (case ck_user_type_from_raw user_type_raw of
        None \<Rightarrow> (Inr CKR_USER_TYPE_INVALID, s)
      | Some user_type \<Rightarrow>
          (case resolve_session_slot_login cid session_handle s of
             (Inl rv, s1) \<Rightarrow> (Inr rv, s1)
           | (Inr (_, slot, _), s1) \<Rightarrow>
               (case acquire_slot_login_lock slot s1 of
                  (Inl rv, s2) \<Rightarrow> (Inr rv, s2)
                | (Inr _, s2) \<Rightarrow>
                    (case login_locked be cid session_handle user_type pin slot s2 of
                       (r, held, s3) \<Rightarrow> (r, if held then on_mgr (unlock_slot slot) s3 else s3)))))"

section \<open>Logout\<close>

definition attr_cache_clear :: "ClientContextId \<Rightarrow> 'b run \<Rightarrow> 'b run" where
  "attr_cache_clear cid s = snd (in_context cid (\<lambda>ctx. ((), ctx\<lparr>lc_attr_cache := []\<rparr>)) s)"

definition release_login :: "ClientContextId \<Rightarrow> BackendSlotId \<Rightarrow> 'b run \<Rightarrow> 'b run" where
  "release_login cid slot s =
     attr_cache_clear cid
       (on_mgr (note_login_released cid slot)
         (snd (in_context cid (\<lambda>ctx. ((), clear_slot_login slot ctx)) s)))"

definition logout_locked ::
  "'b Pkcs11Backend \<Rightarrow> ClientContextId \<Rightarrow> u64 \<Rightarrow> BackendSlotId \<Rightarrow> 'b run \<Rightarrow> (Status + CkRv) \<times> 'b run" where
  "logout_locked be cid session_handle slot s =
     (case resolve_session_slot_login cid session_handle s of
        (Inl rv, s1) \<Rightarrow> (Inr rv, s1)
      | (Inr (session, resolved_slot, current_login_state), s1) \<Rightarrow>
          if resolved_slot \<noteq> slot then (Inr CKR_SESSION_HANDLE_INVALID, s1)
          else
            let other_login_state = first_login_state_for_slot_excluding_authoritative (mgr_of s1) slot cid
            in if current_login_state = None \<and> other_login_state \<noteq> None
               then (Inr CKR_USER_NOT_LOGGED_IN,
                     snd (in_context cid (\<lambda>ctx.
                       ((), ctx\<lparr>lc_contended_slot_login := lc_contended_slot_login ctx - {slot}\<rparr>)) s1))
               else if current_login_state \<noteq> None \<and> other_login_state \<noteq> None
               then (Inr CKR_OK, release_login cid slot s1)
               else case call_backend (be_logout be session) s1 of
                      (Inl status, s2) \<Rightarrow> (Inl status, s2)
                    | (Inr (Inr _), s2) \<Rightarrow> (Inr CKR_OK, release_login cid slot s2)
                    | (Inr (Inl error), s2) \<Rightarrow> (Inr error, s2))"

definition logout ::
  "'b Pkcs11Backend \<Rightarrow> ClientContextId \<Rightarrow> u64 \<Rightarrow> 'b run \<Rightarrow> (Status + CkRv) \<times> 'b run" where
  "logout be cid session_handle s =
     (case resolve_session_slot_login cid session_handle s of
        (Inl rv, s1) \<Rightarrow> (Inr rv, s1)
      | (Inr (_, slot, _), s1) \<Rightarrow>
          (case acquire_slot_login_lock slot s1 of
             (Inl rv, s2) \<Rightarrow> (Inr rv, s2)
           | (Inr _, s2) \<Rightarrow>
               (case logout_locked be cid session_handle slot s2 of
                  (r, s3) \<Rightarrow> (r, on_mgr (unlock_slot slot) s3))))"

section \<open>Login under interference\<close>

text \<open>The logical logins of one context, and schedules in which the other tasks leave them alone.\<close>

definition login_view :: "ClientContextId \<Rightarrow> ContextManager \<Rightarrow> BackendSlotId \<Rightarrow> LoginState option" where
  "login_view cid m = (\<lambda>slot. context_login m slot cid)"

abbreviation logins_of :: "ClientContextId \<Rightarrow> 'b run \<Rightarrow> BackendSlotId \<Rightarrow> LoginState option" where
  "logins_of cid s \<equiv> login_view cid (mgr_of s)"

abbreviation undisturbed :: "ClientContextId \<Rightarrow> 'b run \<Rightarrow> bool" where
  "undisturbed cid \<equiv> view_stable (login_view cid)"

abbreviation login_kept :: "ClientContextId \<Rightarrow> 'b run \<Rightarrow> 'b run \<Rightarrow> bool" where
  "login_kept cid \<equiv> view_kept (login_view cid)"

lemma login_view_locks [simp]:
  "login_view cid (lock_slot l m) = login_view cid m"
  "login_view cid (unlock_slot l m) = login_view cid m"
  by (simp_all add: context_login_def login_view_def)

lemma login_view_put:
  "hget (cm_contexts m) cid = Some ctx \<Longrightarrow> lc_login_state ctx' = lc_login_state ctx \<Longrightarrow>
   login_view cid (m\<lparr>cm_contexts := hput cid ctx' (cm_contexts m)\<rparr>) = login_view cid m"
  by (simp add: login_view_def context_login_def fun_eq_iff)

lemma login_kept_in_context:
  assumes "in_context cid f s = (r, s')" "\<And>ctx. lc_login_state (snd (f ctx)) = lc_login_state ctx"
  shows "login_kept cid s s'"
  using assms(1) by (rule view_kept_in_context) (simp add: login_view_put assms(2) client_touch_def)

lemma login_kept_acquire: "acquire_slot_login_lock slot s = (r, s') \<Longrightarrow> login_kept cid s s'"
  by (erule view_kept_acquire) simp

lemma login_kept_snd:
  "(\<And>ctx. lc_login_state (snd (f ctx)) = lc_login_state ctx) \<Longrightarrow> login_kept cid s (snd (in_context cid f s))"
  by (rule login_kept_in_context [OF surjective_pairing])

text \<open>What a successful resolution says of the tables afterwards.\<close>

definition session_bound ::
  "ContextManager \<Rightarrow> ClientContextId \<Rightarrow> u64 \<Rightarrow> u64 \<Rightarrow> BackendSlotId \<Rightarrow> bool" where
  "session_bound m cid session_handle session slot \<longleftrightarrow>
     (\<exists>ctx. hget (cm_contexts m) cid = Some ctx
        \<and> handle_map_resolve (lc_session_handles ctx) (VirtualHandle session_handle) = Some (BackendHandle session)
        \<and> hget (lc_session_slots ctx) (VirtualHandle session_handle) = Some slot)"

lemma resolve_login_kept: "resolve_session_slot_login cid h s = (r, s') \<Longrightarrow> login_kept cid s s'"
  unfolding resolve_session_slot_login_def
  by (auto split: prod.splits option.splits intro!: login_kept_in_context simp: Let_def)

lemma resolve_bound:
  "resolve_session_slot_login cid h s = (Inr (session, slot, l), s') \<Longrightarrow> session_bound (mgr_of s') cid h session slot"
  by (auto simp: resolve_session_slot_login_def in_context_def get_context_def session_bound_def client_touch_def
      Let_def split: prod.splits option.splits)

lemma still_bound_kept: "still_bound cid h session slot s = (fresh, s') \<Longrightarrow> login_kept cid s s'"
  by (auto simp: still_bound_def split: prod.splits sum.splits dest: resolve_login_kept)

lemma still_bound_True: "still_bound cid h session slot s = (True, s') \<Longrightarrow> session_bound (mgr_of s') cid h session slot"
  by (auto simp: still_bound_def split: prod.splits sum.splits dest: resolve_bound)

lemma quota_frame [simp]: "mgr_of (on_quota f s) = mgr_of s" "snd (on_quota f s) = snd s"
  by (simp_all add: on_quota_def mgr_of_def)

lemma login_kept_on_quota [simp]: "login_kept cid s (on_quota f s)"
  by (simp add: view_kept_def view_stable_def)

lemma note_acquired_contexts [simp]: "cm_contexts (note_login_acquired cid slot m) = cm_contexts m"
  by (simp add: note_login_acquired_def)

lemma mint_login_effect:
  assumes "session_bound (mgr_of s) cid h session slot"
  shows "logins_of cid (mint_login cid sl l s) = (logins_of cid s)(sl := Some l)
    \<and> session_bound (mgr_of (mint_login cid sl l s)) cid h session slot"
  using assms
  by (auto simp: mint_login_def in_context_def get_context_def session_bound_def login_view_def context_login_def
      client_touch_def fun_eq_iff split: option.splits prod.splits)

text \<open>The outcome of an attempt, seen from the context that made it.\<close>

definition login_effect ::
  "'b Pkcs11Backend \<Rightarrow> ClientContextId \<Rightarrow> u64 \<Rightarrow> CkUserType \<Rightarrow> u8 list option \<Rightarrow> 'b run \<Rightarrow> Status + CkRv \<Rightarrow> 'b run \<Rightarrow> bool" where
  "login_effect be cid h user_type pin s r s' \<longleftrightarrow>
     (if r = Inr CKR_OK
      then \<exists>slot session b b'. be_login be session user_type pin b = (Inr (), b')
             \<and> session_bound (mgr_of s') cid h session slot
             \<and> logins_of cid s' = (case login_state_for_user_type user_type of
                                    None \<Rightarrow> logins_of cid s | Some l \<Rightarrow> (logins_of cid s)(slot := Some l))
      else logins_of cid s' = logins_of cid s)"

lemma login_effect_kept:
  "undisturbed cid s \<Longrightarrow> login_kept cid s s1 \<Longrightarrow> login_effect be cid h ut pin s1 r s' \<Longrightarrow> login_effect be cid h ut pin s r s'"
  unfolding view_kept_def login_effect_def by (simp only: simp_thms)

lemma login_effect_refused: "undisturbed cid s \<Longrightarrow> login_kept cid s s' \<Longrightarrow> r \<noteq> Inr CKR_OK \<Longrightarrow> login_effect be cid h ut pin s r s'"
  by (simp add: login_effect_def view_kept_def)

lemma login_effect_unlock:
  "login_effect be cid h ut pin s r (on_mgr (unlock_slot sl) s') = login_effect be cid h ut pin s r s'"
  by (simp add: login_effect_def session_bound_def)

lemma settle_effect:
  assumes "login_settle cid h ut pp slot session result s = (rv, s')" "undisturbed cid s"
    and "result \<noteq> Inl CKR_OK" "result = Inr () \<Longrightarrow> \<exists>b b'. be_login be session ut pin b = (Inr (), b')"
  shows "login_effect be cid h ut pin s (Inr rv) s'"
proof (cases result)
  case (Inl error)
  let ?s1 = "if error = CKR_PIN_INCORRECT \<or> error = CKR_PIN_INVALID \<or> error = CKR_PIN_LEN_RANGE
    then on_quota (\<lambda>q. snd (record_login_failure (w_now (fst s)) slot q)) s else s"
  have "login_kept cid s ?s1"
    by simp
  moreover have "login_kept cid ?s1 s'"
    using assms(1) Inl by (auto simp: login_settle_def Let_def login_kept_snd split: if_split_asm)
  ultimately have "login_kept cid s s'"
    by (rule view_kept_trans)
  moreover have "rv = error"
    using assms(1) Inl by (simp add: login_settle_def Let_def)
  ultimately show ?thesis
    using assms(2,3) Inl by (simp add: login_effect_refused)
next
  case (Inr u)
  obtain fresh s1 where f: "still_bound cid h session slot s = (fresh, s1)"
    by (meson surj_pair)
  note kept = still_bound_kept [OF f]
  show ?thesis
  proof (cases fresh)
    case True
    let ?s2 = "on_quota (record_login_success slot) s1"
    have b: "session_bound (mgr_of ?s2) cid h session slot"
      using f True by (simp add: still_bound_True)
    have "rv = CKR_OK"
      and s': "s' = (case login_state_for_user_type ut of None \<Rightarrow> ?s2 | Some l \<Rightarrow> mint_login cid slot l ?s2)"
      using assms(1) Inr f True by (simp_all add: login_settle_def Let_def)
    moreover have "logins_of cid ?s2 = logins_of cid s"
      using kept assms(2) by (simp add: view_kept_def)
    ultimately show ?thesis
      using assms(4) Inr b mint_login_effect [OF b] by (auto simp: login_effect_def split: option.splits)
  next
    case False
    then show ?thesis
      using assms(1,2) Inr f kept by (auto simp: login_settle_def intro: login_effect_refused)
  qed
qed

text \<open>One attempt: the call to the library and what is made of its answer.\<close>

lemma attempt_effect:
  assumes "call_backend (be_login be session ut pin) s = (Inr result, s1)"
    and "login_settle cid h ut pp slot session result s1 = (rv, s2)"
    and "undisturbed cid s" "\<And>session ut pin b. fst (be_login be session ut pin b) \<noteq> Inl CKR_OK"
  shows "login_effect be cid h ut pin s (Inr rv) s2"
proof -
  note kept = view_kept_call [OF assms(1), of "login_view cid"]
  have "\<exists>b b'. be_login be session ut pin b = (Inr (), b')" if "result = Inr ()"
    using assms(1) that by (blast elim: call_backend_OkE)
  moreover have "result \<noteq> Inl CKR_OK"
    using call_backend_error [OF assms(1)] assms(4) by blast
  ultimately have "login_effect be cid h ut pin s1 (Inr rv) s2"
    using settle_effect [OF assms(2)] kept assms(3) by (simp add: view_kept_def)
  then show ?thesis
    using login_effect_kept [OF assms(3) kept] by blast
qed

lemma reconcile_effect:
  assumes "login_reconcile be cid h ut pin slot session s = (r, held, s')" "undisturbed cid s"
    and honest: "\<And>session ut pin b. fst (be_login be session ut pin b) \<noteq> Inl CKR_OK"
  shows "login_effect be cid h ut pin s r s'"
proof -
  let ?s0 = "on_mgr (unlock_slot slot) s"
  have k0: "login_kept cid s ?s0"
    by (rule view_kept_on_mgr) simp
  obtain r1 s1 where c1: "call_backend (be_logout be session) ?s0 = (r1, s1)"
    by (meson surj_pair)
  obtain r2 s2 where c2: "acquire_slot_login_lock slot s1 = (r2, s2)"
    by (meson surj_pair)
  obtain fresh s3 where c3: "still_bound cid h session slot s2 = (fresh, s3)"
    by (meson surj_pair)
  obtain r4 s4 where c4: "call_backend (be_login be session ut pin) s3 = (r4, s4)"
    by (meson surj_pair)
  note k1 = view_kept_trans [OF k0 view_kept_call [OF c1]]
  note k2 = view_kept_trans [OF k1 login_kept_acquire [OF c2]]
  note k3 = view_kept_trans [OF k2 still_bound_kept [OF c3]]
  note k4 = view_kept_trans [OF k3 view_kept_call [OF c4]]
  have u3: "undisturbed cid s3"
    using k3 assms(2) by (simp add: view_kept_def)
  note run = assms(1) [unfolded login_reconcile_def c1 prod.case]
  show ?thesis
  proof (cases r1)
    case (Inl st)
    then show ?thesis
      using run k1 assms(2) by (auto intro: login_effect_refused)
  next
    case Inr1: (Inr u1)
    show ?thesis
    proof (cases r2)
      case (Inl e)
      then show ?thesis
        using run Inr1 c2 k2 assms(2)
        by (auto simp: acquire_slot_login_lock_def Let_def intro!: login_effect_refused split: if_splits)
    next
      case Inr2: (Inr u2)
      show ?thesis
      proof (cases "fresh \<and> (\<exists>result. r4 = Inr result)")
        case False
        then show ?thesis
          using run Inr1 Inr2 c2 c3 c4 k3 k4 assms(2)
          by (cases r4; cases fresh) (auto intro: login_effect_refused)
      next
        case True
        then obtain result where r4: "fresh" "r4 = Inr result"
          by blast
        obtain rv s5 where c5: "login_settle cid h ut (pin \<noteq> None) slot session result s4 = (rv, s5)"
          by (meson surj_pair)
        have "login_effect be cid h ut pin s3 (Inr rv) s5"
          using attempt_effect [OF c4 [unfolded r4] c5 u3 honest] .
        then show ?thesis
          using run Inr1 Inr2 c2 c3 c4 c5 r4 login_effect_kept [OF assms(2) k3] by simp
      qed
    qed
  qed
qed

lemma locked_effect:
  assumes "login_locked be cid h ut pin slot s = (r, held, s')" "undisturbed cid s"
    and honest: "\<And>session ut pin b. fst (be_login be session ut pin b) \<noteq> Inl CKR_OK"
  shows "login_effect be cid h ut pin s r s'"
proof -
  obtain r1 s1 where c1: "resolve_session_slot_login cid h s = (r1, s1)"
    by (meson surj_pair)
  note k1 = resolve_login_kept [OF c1]
  have u1: "undisturbed cid s1"
    using k1 assms(2) by (simp add: view_kept_def)
  note run = assms(1) [unfolded login_locked_def c1 prod.case]
  show ?thesis
  proof (cases r1)
    case (Inl e)
    then show ?thesis
      using run c1 k1 assms(2)
      by (auto intro!: login_effect_refused simp: resolve_session_slot_login_def split: prod.splits option.splits)
  next
    case (Inr x)
    obtain session rslot l where x: "x = (session, rslot, l)"
      by (cases x)
    show ?thesis
    proof (cases "rslot = slot \<and> \<not> login_slot_in_cooldown (w_now (fst s1)) slot (w_quota (fst s1))")
      case False
      then show ?thesis
        using run Inr x k1 assms(2) by (auto intro: login_effect_refused split: if_splits)
    next
      case True
      obtain r2 s2 where c2: "call_backend (be_login be session ut pin) s1 = (r2, s2)"
        by (meson surj_pair)
      note k2 = view_kept_trans [OF k1 view_kept_call [OF c2]]
      have u2: "undisturbed cid s2"
        using k2 assms(2) by (simp add: view_kept_def)
      show ?thesis
      proof (cases r2)
        case (Inl st)
        then show ?thesis
          using run Inr x True c2 k2 assms(2) by (auto intro: login_effect_refused)
      next
        case Inr2: (Inr result)
        obtain rv s3 where c3: "login_settle cid h ut (pin \<noteq> None) slot session result s2 = (rv, s3)"
          by (meson surj_pair)
        have "login_effect be cid h ut pin s1 (Inr rv) s3"
          using attempt_effect [OF c2 [unfolded Inr2] c3 u1 honest] .
        then show ?thesis
          using run Inr x True c2 c3 Inr2 login_effect_kept [OF assms(2) k1]
            reconcile_effect [OF _ u2 honest] login_effect_kept [OF assms(2) k2]
          by (auto split: if_splits)
      qed
    qed
  qed
qed

text \<open>
  C27.  A context is logged in only on the word of the library.  While a login waits for its lock and
  for the library, other tasks may do anything except change the logins of this very context.  If the
  answer is \<open>CKR_OK\<close>, the library has accepted this PIN for this user type on a session that the
  client's handle names, on a slot, at the moment the login is recorded; what is recorded is the login
  of that type on that slot and nothing else (a context-specific login records nothing).  With every
  other answer, and on every transport failure, the logins of the context are what they were.
\<close>

theorem login_needs_library:
  assumes "login be cid session_handle user_type_raw pin s = (r, s')"
    and "undisturbed cid s"
    and "truthful be"
  shows "if r = Inr CKR_OK
    then \<exists>user_type slot session b b'.
           ck_user_type_from_raw user_type_raw = Some user_type
         \<and> be_login be session user_type pin b = (Inr (), b')
         \<and> session_bound (mgr_of s') cid session_handle session slot
         \<and> logins_of cid s' = (case login_state_for_user_type user_type of
                                None \<Rightarrow> logins_of cid s | Some l \<Rightarrow> (logins_of cid s)(slot := Some l))
    else logins_of cid s' = logins_of cid s"
proof (cases "ck_user_type_from_raw user_type_raw")
  case None
  then show ?thesis
    using assms(1) by (auto simp: login_def)
next
  case (Some ut)
  obtain r1 s1 where c1: "resolve_session_slot_login cid session_handle s = (r1, s1)"
    by (meson surj_pair)
  note k1 = resolve_login_kept [OF c1]
  note run = assms(1) [unfolded login_def Some option.case c1 prod.case]
  have "login_effect be cid session_handle ut pin s r s'"
  proof (cases r1)
    case (Inl e)
    then show ?thesis
      using run c1 k1 assms(2)
      by (auto intro!: login_effect_refused simp: resolve_session_slot_login_def split: prod.splits option.splits)
  next
    case (Inr x)
    obtain y slot l where x: "x = (y, slot, l)"
      by (cases x)
    obtain r2 s2 where c2: "acquire_slot_login_lock slot s1 = (r2, s2)"
      by (meson surj_pair)
    note k2 = view_kept_trans [OF k1 login_kept_acquire [OF c2]]
    have u2: "undisturbed cid s2"
      using k2 assms(2) by (simp add: view_kept_def)
    show ?thesis
    proof (cases r2)
      case (Inl e)
      then show ?thesis
        using run Inr x c2 k2 assms(2)
        by (auto simp: acquire_slot_login_lock_def Let_def intro!: login_effect_refused split: if_splits)
    next
      case Inr2: (Inr u)
      obtain r3 held s3 where c3: "login_locked be cid session_handle ut pin slot s2 = (r3, held, s3)"
        by (metis prod_cases3)
      show ?thesis
        using run Inr x c2 Inr2 c3 login_effect_kept [OF assms(2) k2 locked_effect [OF c3 u2 truthfulD(3) [OF assms(3)]]]
        by (auto simp: login_effect_unlock split: if_splits)
    qed
  qed
  then show ?thesis
    using Some by (auto simp: login_effect_def)
qed

text \<open>A client with one session, and a library that accepts the login.\<close>

definition session_client :: LogicalClientInstance where
  "session_client = snd (register_session (BackendHandle 41) (BackendSlotId 3) (client_new ''ctx'' 0 None None))"

definition session_run :: "nat run" where
  "session_run =
     (\<lparr>w_mgr = (context_manager_new 10 4)\<lparr>cm_contexts := [(''ctx'', session_client)]\<rparr>,
       w_backend = 0, w_quota = None, w_now = 0\<rparr>, \<lparr>sc_env = [], sc_fates = []\<rparr>)"

lemmas session_run_eval = session_run_def session_client_def register_session_def client_new_def handle_map_new_def
  handle_map_insert_def context_manager_new_def in_context_def get_context_def on_mgr_def mgr_of_def pause_def
  client_touch_def handle_map_resolve_def call_backend_def easy_backend_def acquire_slot_login_lock_def
  slot_lock_held_def lock_slot_def unlock_slot_def resolve_session_slot_login_def Let_def

lemma session_run_login:
  "fst (login easy_backend ''ctx'' 1 1 (Some [1, 2]) session_run) = Inr CKR_OK"
  by (simp add: session_run_eval login_def login_locked_def login_settle_def still_bound_def mint_login_def
      ck_user_type_from_raw_def login_state_for_user_type_def login_slot_in_cooldown_def on_quota_def)

lemma easy_truthful: "truthful easy_backend"
  by (simp add: truthful_def easy_backend_def)

theorem login_needs_library_witness:
  "\<exists>slot session. session_bound (mgr_of (snd (login easy_backend ''ctx'' 1 1 (Some [1, 2]) session_run))) ''ctx'' 1 session slot
     \<and> logins_of ''ctx'' (snd (login easy_backend ''ctx'' 1 1 (Some [1, 2]) session_run)) slot = Some User"
proof -
  have "undisturbed ''ctx'' session_run"
    by (simp add: view_stable_def session_run_def)
  moreover note easy_truthful
  ultimately show ?thesis
    using login_needs_library [of easy_backend "''ctx''" 1 1 "Some [1, 2]" session_run, OF surjective_pairing]
      session_run_login
    by (auto simp: ck_user_type_from_raw_def login_state_for_user_type_def)
qed

section \<open>Logout\<close>

lemma resolve_frame:
  assumes "resolve_session_slot_login cid h s = (r, s')"
  shows "w_backend (fst s') = w_backend (fst s)" "snd s' = snd s"
    "cm_login_locks_held (mgr_of s') = cm_login_locks_held (mgr_of s)"
    "c \<noteq> cid \<Longrightarrow> hget (cm_contexts (mgr_of s')) c = hget (cm_contexts (mgr_of s)) c"
    "hwf (cm_contexts (mgr_of s)) \<Longrightarrow> hwf (cm_contexts (mgr_of s'))"
proof -
  obtain x where "in_context cid (\<lambda>ctx.
             let virtual_session = VirtualHandle h;
                 backend_session = handle_map_resolve (lc_session_handles ctx) virtual_session;
                 slot = hget (lc_session_slots ctx) virtual_session;
                 current_login_state = Option.bind slot (hget (lc_login_state ctx))
             in ((backend_session, slot, current_login_state), ctx)) s = (x, s')"
    using assms unfolding resolve_session_slot_login_def by (auto split: prod.splits option.splits)
  note f = in_context_frame [OF this]
  show "w_backend (fst s') = w_backend (fst s)" "snd s' = snd s"
    "cm_login_locks_held (mgr_of s') = cm_login_locks_held (mgr_of s)"
    "c \<noteq> cid \<Longrightarrow> hget (cm_contexts (mgr_of s')) c = hget (cm_contexts (mgr_of s)) c"
    "hwf (cm_contexts (mgr_of s)) \<Longrightarrow> hwf (cm_contexts (mgr_of s'))"
    by (fact f)+
qed

lemma bound_resolves:
  assumes "session_bound (mgr_of s) cid h session slot"
  obtains s' where "resolve_session_slot_login cid h s = (Inr (session, slot, logins_of cid s slot), s')"
    "session_bound (mgr_of s') cid h session slot"
proof -
  have "\<exists>s'. resolve_session_slot_login cid h s = (Inr (session, slot, logins_of cid s slot), s')"
    using assms
    by (auto simp: session_bound_def resolve_session_slot_login_def in_context_def get_context_def client_touch_def
        login_view_def context_login_def Let_def)
  then show thesis
    using that resolve_bound by blast
qed

lemma logins_eqD: "login_kept cid s s' \<Longrightarrow> quiet s \<Longrightarrow> logins_of cid s' = logins_of cid s"
  by (simp add: view_kept_def view_stable_def quiet_def)

lemma release_login_effect:
  "logins_of cid (release_login cid slot s) = (logins_of cid s)(slot := None)"
  "c \<noteq> cid \<Longrightarrow> hget (cm_contexts (mgr_of (release_login cid slot s))) c = hget (cm_contexts (mgr_of s)) c"
  "w_backend (fst (release_login cid slot s)) = w_backend (fst s)"
  "cm_login_locks_held (mgr_of (release_login cid slot s)) = cm_login_locks_held (mgr_of s)"
  by (auto simp: release_login_def attr_cache_clear_def in_context_def get_context_def login_view_def context_login_def
      clear_slot_login_def client_touch_def note_login_released_def Let_def fun_eq_iff split: option.splits)


text \<open>The same client, with a second context logged in on its slot.\<close>

definition shared_run :: "nat run" where
  "shared_run =
     (\<lparr>w_mgr = (context_manager_new 10 4)\<lparr>cm_contexts :=
         [(''ctx'', session_client\<lparr>lc_login_state := [(BackendSlotId 3, User)]\<rparr>),
          (''other'', (client_new ''other'' 0 None None)\<lparr>lc_login_state := [(BackendSlotId 3, User)]\<rparr>)]\<rparr>,
       w_backend = 0, w_quota = None, w_now = 0\<rparr>, \<lparr>sc_env = [], sc_fates = []\<rparr>)"


end
