(* ===== verification/Mint_Owner.thy ===== *)
theory Mint_Owner
  imports Backend_Calls "HOL-Library.Multiset"
begin

text \<open>
  Who owns what the library created (\<^verbatim>\<open>MintCompletionOwner\<close> of \<^verbatim>\<open>service_utils.rs\<close>).  A handler that
  opens a session or creates an object registers the native handle only when the awaited call has
  returned.  If it stops waiting before that, because of a timeout or because the client went away, the
  completion owner retires the handle instead.  The worker, the handler and the detached waiter run
  concurrently; this theory models the one-shot channel between them and every order of their steps.
\<close>

section \<open>The channel and the owner\<close>

text \<open>
  The receiving end of the one-shot channel: nothing reported yet, an outcome waiting to be taken, or
  closed without a further value.
\<close>

datatype 'p channel = ChannelEmpty | ChannelSent "'p CkResult" | ChannelClosed

datatype 'p try_recv = Received "'p CkResult" | RecvEmpty | RecvClosed

definition channel_try_recv :: "'p channel \<Rightarrow> 'p try_recv \<times> 'p channel" where
  "channel_try_recv c =
     (case c of
        ChannelEmpty \<Rightarrow> (RecvEmpty, ChannelEmpty)
      | ChannelSent r \<Rightarrow> (Received r, ChannelClosed)
      | ChannelClosed \<Rightarrow> (RecvClosed, ChannelClosed))"

text \<open>\<open>completion\<close> is \<open>Some\<close> of the receiver while the owner is armed.\<close>

datatype MintCompletionOwner = OwnerArmed | OwnerDisarmed

definition owner_arm :: "'p channel \<times> MintCompletionOwner" where
  "owner_arm = (ChannelEmpty, OwnerArmed)"

definition owner_disarm :: "MintCompletionOwner \<Rightarrow> MintCompletionOwner" where
  "owner_disarm _ = OwnerDisarmed"

text \<open>The payload to settle, if any, with the owner and the channel afterwards.\<close>

definition owner_settle_on_error ::
  "MintCompletionOwner \<times> 'p channel \<Rightarrow> 'p option \<times> MintCompletionOwner \<times> 'p channel" where
  "owner_settle_on_error = (\<lambda>(w, c).
     if w = OwnerDisarmed then (None, w, c)
     else case channel_try_recv c of
            (Received (Inl _), c') \<Rightarrow> (None, OwnerDisarmed, c')
          | (Received (Inr payload), c') \<Rightarrow> (Some payload, OwnerDisarmed, c')
          | (RecvEmpty, c') \<Rightarrow> (None, OwnerArmed, c')
          | (RecvClosed, c') \<Rightarrow> (None, OwnerDisarmed, c'))"

text \<open>Dropping the owner: when it is still armed, a detached task takes the receiver.\<close>

definition owner_drop :: "MintCompletionOwner \<Rightarrow> bool" where
  "owner_drop w = (w = OwnerArmed)"

definition late_payload :: "'p CkResult option \<Rightarrow> 'p option" where
  "late_payload r = (case r of Some (Inr payload) \<Rightarrow> Some payload | _ \<Rightarrow> None)"

section \<open>Objects created late\<close>

record LateMintedObjects =
  lm_session :: u64
  lm_handles :: "u64 list"
  lm_lifetimes :: "u64 option list"
  lm_incarnation :: "u64 option"

fun keep_handles :: "u64 list \<Rightarrow> u64 list \<Rightarrow> u64 list" where
  "keep_handles kept [] = kept"
| "keep_handles kept (h # hs) =
     keep_handles (if h \<noteq> 0 \<and> h \<notin> set kept then kept @ [h] else kept) hs"

definition late_minted_new :: "u64 \<Rightarrow> u64 list \<Rightarrow> LateMintedObjects" where
  "late_minted_new session handles =
     (let kept = keep_handles [] handles
      in \<lparr>lm_session = session, lm_handles = kept, lm_lifetimes = replicate (length kept) None,
          lm_incarnation = None\<rparr>)"

definition late_minted_from_captured :: "u64 \<Rightarrow> u64 list \<Rightarrow> (u64 \<times> u64) list \<Rightarrow> LateMintedObjects" where
  "late_minted_from_captured session handles captured =
     (let payload = late_minted_new session handles
      in payload\<lparr>lm_lifetimes := map (\<lambda>h. map_of captured h) (lm_handles payload)\<rparr>)"

fun destroy_all ::
  "(u64 \<Rightarrow> u64 option \<Rightarrow> 'b \<Rightarrow> unit CkResult \<times> 'b) \<Rightarrow> (u64 \<times> u64 option) list \<Rightarrow> CkRv option \<Rightarrow> 'b
   \<Rightarrow> CkRv option \<times> 'b" where
  "destroy_all destroy [] first_error b = (first_error, b)"
| "destroy_all destroy ((h, lifetime) # rest) first_error b =
     (case destroy h lifetime b of
        (Inr _, b') \<Rightarrow> destroy_all destroy rest first_error b'
      | (Inl rv, b') \<Rightarrow>
          destroy_all destroy rest (case first_error of None \<Rightarrow> Some rv | Some e \<Rightarrow> Some e) b')"

text \<open>What the detached settlement runs on: nothing at all when no handle was created.\<close>

definition late_settlement :: "u64 option \<Rightarrow> LateMintedObjects \<Rightarrow> LateMintedObjects option" where
  "late_settlement incarnation payload =
     (let payload = payload\<lparr>lm_incarnation := incarnation\<rparr>
      in if lm_handles payload = [] then None else Some payload)"

definition late_minted_settle ::
  "(u64 \<Rightarrow> u64 \<Rightarrow> u64 option \<Rightarrow> u64 option \<Rightarrow> 'b \<Rightarrow> unit CkResult \<times> 'b) \<Rightarrow> LateMintedObjects \<Rightarrow> 'b
   \<Rightarrow> unit CkResult \<times> 'b" where
  "late_minted_settle destroy_object_if_bound payload b =
     (let (first_error, b') =
            destroy_all (\<lambda>h lifetime. destroy_object_if_bound (lm_session payload) h (lm_incarnation payload) lifetime)
              (zip (lm_handles payload) (lm_lifetimes payload)) None b
      in (case first_error of None \<Rightarrow> Inr () | Some rv \<Rightarrow> Inl rv, b'))"

section \<open>One call that creates something\<close>

datatype 'p worker = WorkerQueued | WorkerRunning | WorkerReturned "'p CkResult" | WorkerGone

datatype handler = HandlerAwaiting | HandlerDone

text \<open>
  The histories record what the library created, what the handler took over and what was handed to
  the settlement.
\<close>

record 'p mint_sys =
  ms_worker :: "'p worker"
  ms_channel :: "'p channel"
  ms_owner :: MintCompletionOwner
  ms_handler :: handler
  ms_waiter :: bool
  ms_minted :: "'p multiset"
  ms_adopted :: "'p multiset"
  ms_settled :: "'p multiset"

definition mint_start :: "'p mint_sys" where
  "mint_start =
     (case owner_arm of
        (rx, owner) \<Rightarrow>
          \<lparr>ms_worker = WorkerQueued, ms_channel = rx, ms_owner = owner, ms_handler = HandlerAwaiting,
           ms_waiter = False, ms_minted = {#}, ms_adopted = {#}, ms_settled = {#}\<rparr>)"

text \<open>The handler returns: its owner is dropped.\<close>

definition handler_returns :: "'p mint_sys \<Rightarrow> 'p mint_sys" where
  "handler_returns y = y\<lparr>ms_handler := HandlerDone, ms_waiter := owner_drop (ms_owner y)\<rparr>"

text \<open>The error arm of the handler, entered with no suspension after the call has returned.\<close>

definition handler_error_arm :: "'p mint_sys \<Rightarrow> 'p mint_sys" where
  "handler_error_arm y =
     (case owner_settle_on_error (ms_owner y, ms_channel y) of
        (payload, w, c) \<Rightarrow>
          handler_returns (y\<lparr>ms_owner := w, ms_channel := c,
            ms_settled := ms_settled y + (case payload of None \<Rightarrow> {#} | Some p \<Rightarrow> {#p#})\<rparr>))"

inductive mint_step :: "'p mint_sys \<Rightarrow> 'p mint_sys \<Rightarrow> bool" where
  mint_begin: "ms_worker y = WorkerQueued \<Longrightarrow> mint_step y (y\<lparr>ms_worker := WorkerRunning\<rparr>)"
| mint_refused:
    "ms_worker y = WorkerQueued \<Longrightarrow> ms_handler y = HandlerAwaiting \<Longrightarrow>
     mint_step y (handler_error_arm (y\<lparr>ms_worker := WorkerGone, ms_channel := ChannelClosed\<rparr>))"
| mint_abandoned:
    "ms_worker y = WorkerQueued \<Longrightarrow> ms_handler y = HandlerDone \<Longrightarrow>
     mint_step y (y\<lparr>ms_worker := WorkerGone, ms_channel := ChannelClosed\<rparr>)"
| mint_report:
    "ms_worker y = WorkerRunning \<Longrightarrow> ms_channel y = ChannelEmpty \<Longrightarrow>
     mint_step y (y\<lparr>ms_worker := WorkerReturned outcome, ms_channel := ChannelSent outcome,
       ms_minted := ms_minted y + (case outcome of Inl _ \<Rightarrow> {#} | Inr p \<Rightarrow> {#p#})\<rparr>)"
| mint_panic:
    "ms_worker y = WorkerRunning \<Longrightarrow>
     mint_step y (y\<lparr>ms_worker := WorkerGone, ms_channel := ChannelClosed\<rparr>)"
| mint_adopt:
    "ms_worker y = WorkerReturned (Inr p) \<Longrightarrow> ms_handler y = HandlerAwaiting \<Longrightarrow>
     mint_step y (handler_returns (y\<lparr>ms_owner := owner_disarm (ms_owner y), ms_adopted := ms_adopted y + {#p#}\<rparr>))"
| mint_adoption_fails:
    "ms_worker y = WorkerReturned (Inr p) \<Longrightarrow> ms_handler y = HandlerAwaiting \<Longrightarrow> mint_step y (handler_returns y)"
| mint_error:
    "ms_worker y = WorkerReturned (Inl e) \<Longrightarrow> ms_handler y = HandlerAwaiting \<Longrightarrow> mint_step y (handler_error_arm y)"
| mint_timeout:
    "ms_handler y = HandlerAwaiting \<Longrightarrow> mint_step y (handler_error_arm y)"
| mint_cancel:
    "ms_handler y = HandlerAwaiting \<Longrightarrow> mint_step y (handler_returns y)"
| mint_late:
    "ms_waiter y \<Longrightarrow> ms_channel y = ChannelSent outcome \<Longrightarrow>
     mint_step y (y\<lparr>ms_waiter := False, ms_channel := ChannelClosed,
       ms_settled := ms_settled y + (case late_payload (Some outcome) of None \<Rightarrow> {#} | Some p \<Rightarrow> {#p#})\<rparr>)"
| mint_late_closed:
    "ms_waiter y \<Longrightarrow> ms_channel y = ChannelClosed \<Longrightarrow> mint_step y (y\<lparr>ms_waiter := False\<rparr>)"

inductive mint_reachable :: "'p mint_sys \<Rightarrow> bool" where
  mint_init: "mint_reachable mint_start"
| mint_next: "mint_reachable y \<Longrightarrow> mint_step y z \<Longrightarrow> mint_reachable z"

inductive_cases mint_stepE: "mint_step y z"

section \<open>The ownership invariant\<close>

text \<open>What is still in the hands of the channel: a payload reported and not yet taken over.\<close>

definition in_channel :: "'p mint_sys \<Rightarrow> 'p multiset" where
  "in_channel y =
     (case ms_channel y of ChannelSent (Inr p) \<Rightarrow> {#p#} | _ \<Rightarrow> {#})"

definition responsible :: "'p mint_sys \<Rightarrow> bool" where
  "responsible y \<longleftrightarrow> (ms_handler y = HandlerAwaiting \<and> ms_owner y = OwnerArmed) \<or> ms_waiter y"

definition mint_inv :: "'p mint_sys \<Rightarrow> bool" where
  "mint_inv y \<longleftrightarrow>
     (if responsible y then ms_minted y = ms_settled y + in_channel y \<and> ms_adopted y = {#}
      else ms_minted y = ms_settled y + ms_adopted y)
     \<and> (ms_handler y = HandlerAwaiting \<longrightarrow> ms_owner y = OwnerArmed \<and> \<not> ms_waiter y)
     \<and> (ms_worker y = WorkerQueued \<or> ms_worker y = WorkerRunning \<longrightarrow> ms_channel y = ChannelEmpty \<and> ms_minted y = {#})
     \<and> (\<forall>r. ms_worker y = WorkerReturned r \<and> responsible y \<longrightarrow> ms_channel y = ChannelSent r)
     \<and> (ms_worker y = WorkerGone \<longrightarrow> ms_channel y = ChannelClosed)
     \<and> (\<not> responsible y \<and> (ms_worker y = WorkerQueued \<or> ms_worker y = WorkerRunning) \<longrightarrow> False)"

lemmas mint_defs = mint_inv_def responsible_def in_channel_def handler_returns_def handler_error_arm_def
  owner_settle_on_error_def channel_try_recv_def owner_drop_def owner_disarm_def late_payload_def

lemma mint_start_inv: "mint_inv mint_start"
  by (simp add: mint_defs mint_start_def owner_arm_def)

lemma mint_step_inv: "mint_step y z \<Longrightarrow> mint_inv y \<Longrightarrow> mint_inv z"
  by (induction rule: mint_step.induct)
    (auto simp: mint_defs split: channel.splits sum.splits option.splits if_splits MintCompletionOwner.splits)

lemma mint_reachable_inv: "mint_reachable y \<Longrightarrow> mint_inv y"
  by (induction rule: mint_reachable.induct) (auto intro: mint_start_inv mint_step_inv)

text \<open>Nothing is left to happen: the handler has returned and neither the worker nor the waiter is out.\<close>

definition mint_quiescent :: "'p mint_sys \<Rightarrow> bool" where
  "mint_quiescent y \<longleftrightarrow>
     ms_handler y = HandlerDone \<and> \<not> ms_waiter y
     \<and> (ms_worker y = WorkerGone \<or> (\<exists>r. ms_worker y = WorkerReturned r))"

lemma mint_progress:
  assumes "mint_reachable y" "\<not> mint_quiescent y"
  shows "\<exists>z. mint_step y z"
proof (cases "ms_handler y")
  case HandlerAwaiting
  then show ?thesis
    by (blast intro: mint_cancel)
next
  case HandlerDone
  note inv = mint_reachable_inv [OF assms(1)]
  show ?thesis
  proof (cases "ms_worker y")
    case WorkerQueued
    then show ?thesis
      by (blast intro: mint_begin)
  next
    case WorkerRunning
    then show ?thesis
      by (blast intro: mint_panic)
  next
    case (WorkerReturned r)
    then have "ms_waiter y" "ms_channel y = ChannelSent r"
      using assms(2) HandlerDone inv by (auto simp: mint_quiescent_def mint_inv_def responsible_def)
    then show ?thesis
      by (blast intro: mint_late)
  next
    case WorkerGone
    then have "ms_waiter y" "ms_channel y = ChannelClosed"
      using assms(2) HandlerDone inv by (auto simp: mint_quiescent_def mint_inv_def)
    then show ?thesis
      by (blast intro: mint_late_closed)
  qed
qed

text \<open>Every step uses up a stage of one of the three parties, so a call cannot go on for ever.\<close>

definition mint_measure :: "'p mint_sys \<Rightarrow> nat" where
  "mint_measure y =
     (case ms_worker y of WorkerQueued \<Rightarrow> 2 | WorkerRunning \<Rightarrow> 1 | _ \<Rightarrow> 0)
     + (case ms_handler y of HandlerAwaiting \<Rightarrow> 2 | HandlerDone \<Rightarrow> 0)
     + (if ms_waiter y then 1 else 0)"

lemma mint_step_measure: "mint_step y z \<Longrightarrow> mint_inv y \<Longrightarrow> mint_measure z < mint_measure y"
  by (induction rule: mint_step.induct)
    (auto simp: mint_measure_def mint_defs split: channel.splits sum.splits option.splits if_splits
      MintCompletionOwner.splits worker.splits)

inductive mint_steps :: "nat \<Rightarrow> 'p mint_sys \<Rightarrow> 'p mint_sys \<Rightarrow> bool" where
  mint_steps_0: "mint_steps 0 y y"
| mint_steps_Suc: "mint_steps n y z \<Longrightarrow> mint_step z z' \<Longrightarrow> mint_steps (Suc n) y z'"

lemma mint_steps_bound:
  "mint_steps n y z \<Longrightarrow> mint_reachable y \<Longrightarrow> mint_reachable z \<and> n + mint_measure z \<le> mint_measure y"
proof (induction rule: mint_steps.induct)
  case (mint_steps_Suc n y z z')
  then show ?case
    using mint_step_measure [of z z'] mint_reachable_inv [of z] by (fastforce intro: mint_next)
qed simp

lemma mint_start_measure [simp]: "mint_measure mint_start = 4"
  by (simp add: mint_measure_def mint_start_def owner_arm_def)

text \<open>
  C26.  A native handle is neither lost nor retired twice.  Whatever the order in which the worker
  reports, the handler takes the result, times out, fails or is cancelled, and the detached waiter wakes
  up: at every moment what was taken over together with what was handed to the settlement is part of
  what the library created; such a call comes to rest after at most four steps, it can always move until
  then, and at rest every created handle has been taken over or handed to the settlement, once.
\<close>

theorem mint_owned_once:
  assumes "mint_steps n mint_start y"
  shows "n \<le> 4
    \<and> ms_adopted y + ms_settled y \<subseteq># ms_minted y
    \<and> (if mint_quiescent y then ms_adopted y + ms_settled y = ms_minted y else \<exists>z. mint_step y z)"
proof -
  have y: "mint_reachable y" and n: "n \<le> 4"
    using mint_steps_bound [OF assms mint_init] by auto
  note inv = mint_reachable_inv [OF y]
  have "ms_adopted y + ms_settled y \<subseteq># ms_minted y"
    using inv by (auto simp: mint_inv_def union_commute split: if_splits)
  moreover have "mint_quiescent y \<Longrightarrow> ms_adopted y + ms_settled y = ms_minted y"
    using inv by (auto simp: mint_inv_def mint_quiescent_def responsible_def union_commute)
  ultimately show ?thesis
    using n mint_progress [OF y] by simp
qed

text \<open>The call times out while the library is at work; the session it opens later is settled.\<close>

definition late_open :: "u64 mint_sys" where
  "late_open =
     \<lparr>ms_worker = WorkerReturned (Inr 7), ms_channel = ChannelClosed, ms_owner = OwnerArmed,
      ms_handler = HandlerDone, ms_waiter = False, ms_minted = {#7#}, ms_adopted = {#}, ms_settled = {#7#}\<rparr>"

lemma late_open_steps: "mint_steps (Suc (Suc (Suc (Suc 0)))) mint_start late_open"
proof -
  let ?running = "mint_start\<lparr>ms_worker := WorkerRunning\<rparr> :: u64 mint_sys"
  let ?late = "?running\<lparr>ms_handler := HandlerDone, ms_waiter := True\<rparr>"
  let ?sent = "?late\<lparr>ms_worker := WorkerReturned (Inr 7), ms_channel := ChannelSent (Inr 7), ms_minted := {#7#}\<rparr>"
  have "mint_step mint_start ?running"
    using mint_begin [of "mint_start :: u64 mint_sys"] by (simp add: mint_start_def owner_arm_def)
  moreover have "mint_step ?running ?late"
    using mint_timeout [of ?running] by (simp add: mint_start_def owner_arm_def mint_defs)
  moreover have "mint_step ?late ?sent"
    using mint_report [of ?late "Inr 7"] by (simp add: mint_start_def owner_arm_def)
  moreover have "mint_step ?sent late_open"
    using mint_late [of ?sent "Inr 7"] by (simp add: mint_start_def owner_arm_def late_payload_def late_open_def)
  ultimately show ?thesis
    by (blast intro: mint_steps.intros)
qed

theorem mint_owned_once_witness:
  "mint_steps 4 mint_start late_open \<and> mint_quiescent late_open
   \<and> ms_adopted late_open + ms_settled late_open = ms_minted late_open"
  using mint_owned_once [OF late_open_steps] late_open_steps
  by (simp add: mint_quiescent_def late_open_def numeral_eq_Suc)

section \<open>Settling late objects\<close>

lemma keep_handles_set: "set (keep_handles kept hs) = set kept \<union> {h \<in> set hs. h \<noteq> 0}"
  by (induction kept hs rule: keep_handles.induct) auto

lemma keep_handles_distinct: "distinct kept \<Longrightarrow> distinct (keep_handles kept hs)"
  by (induction kept hs rule: keep_handles.induct) auto

lemma late_minted_from_captured_handles:
  "distinct (lm_handles (late_minted_from_captured session hs captured))"
  "set (lm_handles (late_minted_from_captured session hs captured)) = {h \<in> set hs. h \<noteq> 0}"
  "lm_lifetimes (late_minted_from_captured session hs captured)
   = map (map_of captured) (lm_handles (late_minted_from_captured session hs captured))"
  by (simp_all add: late_minted_from_captured_def late_minted_new_def Let_def keep_handles_set
      keep_handles_distinct)

text \<open>A failing destroy does not strand the handles after it.\<close>

lemma destroy_all_log:
  "snd (destroy_all (\<lambda>h l b. (answer h l, b @ [(h, l)])) todo first b) = b @ todo"
  "fst (destroy_all (\<lambda>h l b. (answer h l, b @ [(h, l)])) todo first b) = None \<longleftrightarrow>
   first = None \<and> (\<forall>(h, l) \<in> set todo. answer h l = Inr ())"
  by (induction todo arbitrary: first b) (auto split: option.splits sum.splits)

lemma late_settlement_complete:
  "snd (late_minted_settle (\<lambda>ses h inc l b. (answer h l, b @ [(h, l)]))
     (late_minted_from_captured session hs captured) [])
   = map (\<lambda>h. (h, map_of captured h)) (lm_handles (late_minted_from_captured session hs captured))"
  by (simp add: late_minted_settle_def split_beta destroy_all_log late_minted_from_captured_handles
      zip_map2 zip_same_conv_map Let_def)

end
