(* ===== verification/Session_Lifecycle.thy ===== *)
theory Session_Lifecycle
  imports Session_Login Close_Session Mint_Owner
begin

text \<open>
  Opening and closing sessions
  (\<^verbatim>\<open>crates/server/src/server/grpc_service/session_handlers/lifecycle.rs\<close>): the handlers of
  \<^verbatim>\<open>C_OpenSession\<close>, \<^verbatim>\<open>C_CloseSession\<close>, \<^verbatim>\<open>C_CloseAllSessions\<close> and \<^verbatim>\<open>C_GetSessionInfo\<close>.
\<close>

section \<open>Opening\<close>

text \<open>\<open>peer\<close> is the address of the connection the request came over, when it has one.\<close>

definition principal_quota_key :: "string option \<Rightarrow> ContextManager \<Rightarrow> ClientContextId \<Rightarrow> string" where
  "principal_quota_key peer m cid =
     (case context_identity m cid of
        Some identity \<Rightarrow> identity
      | None \<Rightarrow> (case peer of Some ip \<Rightarrow> ip | None \<Rightarrow> cid))"

text \<open>The reservation of the quota: whether the open may go on, and the key to release.\<close>

definition reserve_session ::
  "string option \<Rightarrow> ClientContextId \<Rightarrow> 'b run \<Rightarrow> (bool \<times> string option) \<times> 'b run" where
  "reserve_session peer cid s =
     (case per_principal_max_sessions (w_quota (fst s)) of
        None \<Rightarrow> ((True, None), s)
      | Some limit \<Rightarrow>
          let key = principal_quota_key peer (mgr_of s) cid;
              s1 = (case peer of
                      Some ip \<Rightarrow>
                        if context_identity (mgr_of s) cid = None
                        then snd (in_context cid (\<lambda>ctx. ((), ctx\<lparr>lc_last_peer_ip := Some ip\<rparr>)) s) else s
                    | None \<Rightarrow> s);
              (reserved, m) = try_reserve_session_for_principal key limit (mgr_of s1)
          in ((reserved, if reserved then Some key else None), on_mgr (\<lambda>_. m) s1))"

definition drop_reservation :: "string option \<Rightarrow> 'b run \<Rightarrow> 'b run" where
  "drop_reservation reservation s =
     (case reservation of None \<Rightarrow> s | Some key \<Rightarrow> on_mgr (release_session_reservation key) s)"

definition register_session_handle ::
  "ClientContextId \<Rightarrow> u64 \<Rightarrow> BackendSlotId \<Rightarrow> 'b run \<Rightarrow> u64 option \<times> 'b run" where
  "register_session_handle cid backend_handle slot s =
     (let (r, s') = in_context cid (register_session (BackendHandle backend_handle) slot) s
      in (map_option vh_raw r, s'))"

text \<open>The call itself and the registration of its result, with the reservation held.\<close>

definition open_reserved ::
  "'b Pkcs11Backend \<Rightarrow> ClientContextId \<Rightarrow> BackendSlotId \<Rightarrow> u64 \<Rightarrow> 'b run \<Rightarrow> (Status + CkRv \<times> u64) \<times> 'b run" where
  "open_reserved be cid slot flags s =
     (case call_backend (be_open_session be (bs_raw slot) (CkSessionFlags flags)) s of
        (Inl status, s1) \<Rightarrow> (Inl status, s1)
      | (Inr (Inl error), s1) \<Rightarrow> (Inr (error, 0), s1)
      | (Inr (Inr backend_session), s1) \<Rightarrow>
          (case register_session_handle cid backend_session slot s1 of
             (Some virtual_handle, s2) \<Rightarrow> (Inr (CKR_OK, virtual_handle), s2)
           | (None, s2) \<Rightarrow>
               (Inr (CKR_CRYPTOKI_NOT_INITIALIZED, 0), snd (call_backend (be_close_session be backend_session) s2))))"

definition open_session ::
  "'b Pkcs11Backend \<Rightarrow> TokenPolicy \<Rightarrow> string option \<Rightarrow> ClientContextId \<Rightarrow> u64 \<Rightarrow> u64 \<Rightarrow> 'b run
   \<Rightarrow> (Status + CkRv \<times> u64) \<times> 'b run" where
  "open_session be policy peer cid slot_id flags s =
     (case context_exists cid s of
        (False, s1) \<Rightarrow> (Inr (CKR_CRYPTOKI_NOT_INITIALIZED, 0), s1)
      | (True, s1) \<Rightarrow>
          (case resolve_slot (mgr_of s1) slot_id of
             Inl error \<Rightarrow> (Inr (error, 0), s1)
           | Inr backend_slot \<Rightarrow>
               (case slot_is_authorized be policy cid backend_slot s1 of
                  (Inl status, s2) \<Rightarrow> (Inl status, s2)
                | (Inr (Inl error), s2) \<Rightarrow> (Inr (error, 0), s2)
                | (Inr (Inr False), s2) \<Rightarrow> (Inr (CKR_SLOT_ID_INVALID, 0), s2)
                | (Inr (Inr True), s2) \<Rightarrow>
                    (case reserve_session peer cid s2 of
                       ((False, _), s3) \<Rightarrow> (Inr (CKR_SESSION_COUNT, 0), s3)
                     | ((True, reservation), s3) \<Rightarrow>
                         let (r, s4) = open_reserved be cid backend_slot flags s3
                         in (r, drop_reservation reservation s4)))))"

section \<open>Closing\<close>

text \<open>
  A blocking closure that owns transitions.  When it is refused it is dropped without having run;
  when it unwinds, its transitions are dropped where they stand; when the timeout fires first, it keeps
  them, and what it does later is part of the interference.  The flag says whether the outcome is known
  when the caller goes on.
\<close>

definition call_owning ::
  "(ContextManager \<times> 'b \<Rightarrow> 'r CkResult \<times> ContextManager \<times> 'b) \<Rightarrow> (ContextManager \<Rightarrow> ContextManager)
   \<Rightarrow> (ContextManager \<Rightarrow> ContextManager) \<Rightarrow> 'b run \<Rightarrow> (Status + 'r CkResult) \<times> bool \<times> 'b run" where
  "call_owning operation dropped unwound s =
     (let (w, sc) = pause s;
          (fate, fates) = (case sc_fates sc of [] \<Rightarrow> (Completes, []) | f # fs \<Rightarrow> (f, fs));
          sc' = sc\<lparr>sc_fates := fates\<rparr>
      in case fate of
           BreakerRefuses \<Rightarrow> (Inr (Inl CKR_HOST_MEMORY), True, pause (w\<lparr>w_mgr := dropped (w_mgr w)\<rparr>, sc'))
         | PeerRefuses \<Rightarrow> (Inr (Inl CKR_HOST_MEMORY), True, pause (w\<lparr>w_mgr := dropped (w_mgr w)\<rparr>, sc'))
         | TimesOut b \<Rightarrow> (Inr (Inl CKR_FUNCTION_FAILED), False, pause (w\<lparr>w_backend := b\<rparr>, sc'))
         | Panics b \<Rightarrow> (Inl Internal, True, pause (w\<lparr>w_mgr := unwound (w_mgr w), w_backend := b\<rparr>, sc'))
         | Completes \<Rightarrow>
             let (r, m, b) = operation (w_mgr w, w_backend w)
             in (Inr r, True, pause (w\<lparr>w_mgr := m, w_backend := b\<rparr>, sc')))"

text \<open>\<open>carrier_unwound\<close> is the session the transient carrier had open if its own closure unwinds.\<close>

definition logout_after_close_completion ::
  "'b Pkcs11Backend \<Rightarrow> u64 option \<Rightarrow> (BackendSlotId \<times> LoginState) option \<Rightarrow> bool \<Rightarrow> 'b run \<Rightarrow> 'b run" where
  "logout_after_close_completion be carrier_unwound held_login completed s =
     (case held_login of
        None \<Rightarrow> s
      | Some (slot, login_state) \<Rightarrow>
          if completed then snd (backend_logout_if_last_holder_out_inner be carrier_unwound slot None login_state s)
          else s)"

definition proven_gone :: "ClientContextId \<Rightarrow> VirtualHandle \<Rightarrow> 'b run \<Rightarrow> bool \<times> 'b run" where
  "proven_gone cid vh s =
     (let (r, s') = in_context cid (\<lambda>ctx. (handle_map_is_proven_gone (lc_session_handles ctx) vh, ctx)) s
      in (case r of None \<Rightarrow> False | Some gone \<Rightarrow> gone, s'))"

definition close_begun ::
  "'b Pkcs11Backend \<Rightarrow> u64 option \<Rightarrow> (BackendSlotId \<times> LoginState) option \<Rightarrow> CloseSessionTransition \<Rightarrow> 'b run
   \<Rightarrow> (Status + CkRv) \<times> 'b run" where
  "close_begun be carrier_unwound held_login t s =
     (let now = w_now (fst s) in
      case call_owning (run_close now (\<lambda>h. be_close_session be (bh_raw h)) t)
             (transition_drop now t) (transition_drop now (transition_mark_started t)) s of
        (Inl status, _, s1) \<Rightarrow> (Inl status, s1)
      | (Inr result, completed, s1) \<Rightarrow>
          (Inr (CkRv (ck_rv_only result)),
           logout_after_close_completion be carrier_unwound held_login completed s1))"

definition held_session_login ::
  "ClientContextId \<Rightarrow> VirtualHandle \<Rightarrow> 'b run \<Rightarrow> (BackendSlotId \<times> LoginState) option \<times> 'b run" where
  "held_session_login cid vh s =
     (let (r, s') = in_context cid (\<lambda>ctx.
            (Option.bind (hget (lc_session_slots ctx) vh)
               (\<lambda>slot. map_option (\<lambda>login. (slot, login)) (hget (lc_login_state ctx) slot)), ctx)) s
      in (Option.bind r id, s'))"

definition close_session_with_timeout ::
  "'b Pkcs11Backend \<Rightarrow> u64 option \<Rightarrow> ClientContextId option \<Rightarrow> ClientContextId \<Rightarrow> u64 \<Rightarrow> 'b run
   \<Rightarrow> (Status + CkRv) \<times> 'b run" where
  "close_session_with_timeout be carrier_unwound inherited cid session_handle s =
     (let vh = VirtualHandle session_handle in
      case context_exists cid s of
        (False, s1) \<Rightarrow> (Inr CKR_CRYPTOKI_NOT_INITIALIZED, s1)
      | (True, s1) \<Rightarrow>
          (case slot_for_session cid vh s1 of
             (None, s2) \<Rightarrow> (Inr CKR_SESSION_HANDLE_INVALID, s2)
           | (Some slot, s2) \<Rightarrow>
               (case acquire_slot_login_lock slot s2 of
                  (Inl rv, s3) \<Rightarrow> (Inr rv, s3)
                | (Inr _, s3) \<Rightarrow>
                    let (held_login, s4) = held_session_login cid vh s3;
                        (begun, m) = begin_close_session_with_guard (w_now (fst s4)) cid vh inherited (mgr_of s4);
                        s5 = on_mgr (\<lambda>_. m) s4
                    in case begun of
                         Inl ContextMissing \<Rightarrow> (Inr CKR_CRYPTOKI_NOT_INITIALIZED, on_mgr (unlock_slot slot) s5)
                       | Inl SessionMissing \<Rightarrow>
                           let (gone, s6) = proven_gone cid vh s5
                           in (Inr (if gone then CKR_SESSION_HANDLE_INVALID else CKR_FUNCTION_FAILED),
                               on_mgr (unlock_slot slot) s6)
                       | Inr t \<Rightarrow> close_begun be carrier_unwound held_login t (on_mgr (unlock_slot slot) s5))))"

section \<open>Closing all sessions of a slot\<close>

text \<open>Suspending the members; the number of those someone else is closing, or the context is gone.\<close>

fun begin_batch ::
  "ClientContextId \<Rightarrow> VirtualHandle list \<Rightarrow> CloseSessionTransition list \<Rightarrow> nat \<Rightarrow> 'b run
   \<Rightarrow> (CloseSessionTransition list \<times> nat) option \<times> CloseSessionTransition list \<times> 'b run" where
  "begin_batch cid [] ts skipped s = (Some (ts, skipped), ts, s)"
| "begin_batch cid (vh # vhs) ts skipped s =
     (case begin_close_session_with_guard (w_now (fst s)) cid vh None (mgr_of s) of
        (Inr t, m) \<Rightarrow> begin_batch cid vhs (ts @ [t]) skipped (on_mgr (\<lambda>_. m) s)
      | (Inl ContextMissing, m) \<Rightarrow> (None, ts, on_mgr (\<lambda>_. m) s)
      | (Inl SessionMissing, m) \<Rightarrow>
          (case proven_gone cid vh (on_mgr (\<lambda>_. m) s) of
             (gone, s') \<Rightarrow> begin_batch cid vhs ts (if gone then skipped else skipped + 1) s'))"

text \<open>The blocking closure: every member is closed and settled with its own outcome, the last error is kept.\<close>

fun close_members ::
  "'b Pkcs11Backend \<Rightarrow> CloseSessionTransition list \<Rightarrow> CkRv option \<Rightarrow> ContextManager \<times> 'b
   \<Rightarrow> CloseSessionTransition list \<times> CkRv option \<times> ContextManager \<times> 'b" where
  "close_members be [] last_error mb = ([], last_error, mb)"
| "close_members be (t # ts) last_error mb =
     (let (outcome, b) = be_close_session be (bh_raw (ct_backend_handle t)) (snd mb);
          (t', m) = transition_settle outcome (transition_mark_started t, fst mb);
          (ts', e, mb') = close_members be ts (case outcome of Inl rv \<Rightarrow> Some rv | Inr _ \<Rightarrow> last_error) (m, b)
      in (t' # ts', e, mb'))"

definition drop_transitions :: "instant \<Rightarrow> CloseSessionTransition list \<Rightarrow> ContextManager \<Rightarrow> ContextManager" where
  "drop_transitions now ts m = fold (transition_drop now) ts m"

definition run_close_batch ::
  "instant \<Rightarrow> 'b Pkcs11Backend \<Rightarrow> CloseSessionTransition list \<Rightarrow> ContextManager \<times> 'b
   \<Rightarrow> unit CkResult \<times> ContextManager \<times> 'b" where
  "run_close_batch now be ts mb =
     (let (ts', last_error, m, b) = close_members be ts None mb
      in (case last_error of Some rv \<Rightarrow> Inl rv | None \<Rightarrow> Inr (), drop_transitions now ts' m, b))"

text \<open>The closure unwinds in the member after those whose outcomes are given.\<close>

fun unwind_members ::
  "CloseSessionTransition list \<Rightarrow> unit CkResult list \<Rightarrow> ContextManager \<Rightarrow> CloseSessionTransition list \<times> ContextManager" where
  "unwind_members [] outcomes m = ([], m)"
| "unwind_members (t # ts) [] m = (transition_mark_started t # ts, m)"
| "unwind_members (t # ts) (outcome # outcomes) m =
     (let (t', m1) = transition_settle outcome (transition_mark_started t, m);
          (ts', m2) = unwind_members ts outcomes m1
      in (t' # ts', m2))"

definition unwind_batch ::
  "instant \<Rightarrow> CloseSessionTransition list \<Rightarrow> unit CkResult list \<Rightarrow> ContextManager \<Rightarrow> ContextManager" where
  "unwind_batch now ts outcomes m = (let (ts', m') = unwind_members ts outcomes m in drop_transitions now ts' m')"

definition slot_sessions :: "BackendSlotId \<Rightarrow> LogicalClientInstance \<Rightarrow> VirtualHandle list" where
  "slot_sessions slot ctx = map fst (filter (\<lambda>(_, s). s = slot) (lc_session_slots ctx))"

definition close_all_batch ::
  "'b Pkcs11Backend \<Rightarrow> u64 option \<Rightarrow> unit CkResult list \<Rightarrow> (BackendSlotId \<times> LoginState) option
   \<Rightarrow> CloseSessionTransition list \<Rightarrow> nat \<Rightarrow> 'b run \<Rightarrow> (Status + CkRv) \<times> 'b run" where
  "close_all_batch be carrier_unwound outcomes held_login ts skipped s =
     (if ts = []
      then (Inr (if skipped > 0 then CKR_FUNCTION_FAILED else CKR_OK),
            logout_after_close_completion be carrier_unwound held_login True s)
      else
        let now = w_now (fst s) in
        case call_owning (run_close_batch now be ts) (drop_transitions now ts) (unwind_batch now ts outcomes) s of
          (Inl status, _, s1) \<Rightarrow> (Inl status, s1)
        | (Inr result, completed, s1) \<Rightarrow>
            let batch_rv = (case result of Inr _ \<Rightarrow> CKR_OK | Inl rv \<Rightarrow> rv);
                rv = (if skipped > 0 \<and> batch_rv = CKR_OK then CKR_FUNCTION_FAILED else batch_rv)
            in (Inr rv, logout_after_close_completion be carrier_unwound held_login completed s1))"

definition close_all_sessions_with_timeout ::
  "'b Pkcs11Backend \<Rightarrow> TokenPolicy \<Rightarrow> u64 option \<Rightarrow> unit CkResult list \<Rightarrow> ClientContextId \<Rightarrow> u64 \<Rightarrow> 'b run
   \<Rightarrow> (Status + CkRv) \<times> 'b run" where
  "close_all_sessions_with_timeout be policy carrier_unwound outcomes cid slot_id s =
     (case context_exists cid s of
        (False, s1) \<Rightarrow> (Inr CKR_CRYPTOKI_NOT_INITIALIZED, s1)
      | (True, s1) \<Rightarrow>
          (case resolve_slot (mgr_of s1) slot_id of
             Inl error \<Rightarrow> (Inr error, s1)
           | Inr backend_slot \<Rightarrow>
               (case slot_is_authorized be policy cid backend_slot s1 of
                  (Inl status, s2) \<Rightarrow> (Inl status, s2)
                | (Inr (Inl error), s2) \<Rightarrow> (Inr error, s2)
                | (Inr (Inr False), s2) \<Rightarrow> (Inr CKR_SLOT_ID_INVALID, s2)
                | (Inr (Inr True), s2) \<Rightarrow>
                    let (login, s3) = in_context cid (\<lambda>ctx. (hget (lc_login_state ctx) backend_slot, ctx)) s2;
                        held_login = map_option (\<lambda>l. (backend_slot, l)) (Option.bind login id);
                        (members, s4) = in_context cid (\<lambda>ctx. (slot_sessions backend_slot ctx, ctx)) s3;
                        virtual_sessions = (case members of None \<Rightarrow> [] | Some vhs \<Rightarrow> vhs)
                    in case begin_batch cid virtual_sessions [] 0 s4 of
                         (None, ts, s5) \<Rightarrow>
                           (Inr CKR_CRYPTOKI_NOT_INITIALIZED, on_mgr (drop_transitions (w_now (fst s5)) ts) s5)
                       | (Some (ts, skipped), _, s5) \<Rightarrow>
                           close_all_batch be carrier_unwound outcomes held_login ts skipped s5)))"

section \<open>Session information\<close>

definition resolve_session :: "ClientContextId \<Rightarrow> u64 \<Rightarrow> 'b run \<Rightarrow> u64 CkResult \<times> 'b run" where
  "resolve_session cid session_handle s =
     (case in_context cid (\<lambda>ctx.
             let virt = VirtualHandle session_handle
             in ((handle_map_resolve (lc_session_handles ctx) virt,
                  handle_map_suspended_backend (lc_session_handles ctx) virt), ctx)) s of
        (None, s') \<Rightarrow> (Inl CKR_CRYPTOKI_NOT_INITIALIZED, s')
      | (Some (Some backend_session, _), s') \<Rightarrow> (Inr (bh_raw backend_session), s')
      | (Some (None, Some _), s') \<Rightarrow> (Inl CKR_FUNCTION_FAILED, s')
      | (Some (None, None), s') \<Rightarrow> (Inl CKR_SESSION_HANDLE_INVALID, s'))"

text \<open>The library's answer is checked against the slot the session was opened on.\<close>

record CkSessionInfo =
  si_slot_id :: u64
  si_state :: CkSessionState
  si_flags :: CkSessionFlags
  si_device_error :: CkRv

definition get_session_info ::
  "(u64 \<Rightarrow> 'b \<Rightarrow> CkSessionInfo CkResult \<times> 'b) \<Rightarrow> ClientContextId \<Rightarrow> u64 \<Rightarrow> 'b run
   \<Rightarrow> (Status + CkRv \<times> CkSessionInfo option) \<times> 'b run" where
  "get_session_info be_get_session_info cid session_handle s =
     (case resolve_session cid session_handle s of
        (Inl error, s1) \<Rightarrow> (Inr (error, None), s1)
      | (Inr session, s1) \<Rightarrow>
          (case call_backend (be_get_session_info session) s1 of
             (Inl status, s2) \<Rightarrow> (Inl status, s2)
           | (Inr (Inl error), s2) \<Rightarrow> (Inr (error, None), s2)
           | (Inr (Inr info), s2) \<Rightarrow>
               let reported_slot = BackendSlotId (si_slot_id info);
                   (owner, s3) = slot_for_session cid (VirtualHandle session_handle) s2
               in case slot_map_to_virtual (cm_slot_map (mgr_of s3)) reported_slot of
                    Some virtual_slot \<Rightarrow>
                      if owner \<noteq> Some reported_slot then (Inr (CKR_DEVICE_ERROR, None), s3)
                      else (Inr (CKR_OK, Some (info\<lparr>si_slot_id := vs_raw virtual_slot\<rparr>)), s3)
                  | None \<Rightarrow> (Inr (CKR_DEVICE_ERROR, None), s3)))"

section \<open>What the parts of the handlers leave alone\<close>

text \<open>Views that do not look at the time of the last use of a context.\<close>

definition touch_blind :: "ClientContextId \<Rightarrow> (ContextManager \<Rightarrow> 'v) \<Rightarrow> bool" where
  "touch_blind cid view \<longleftrightarrow>
     (\<forall>m ctx now. hget (cm_contexts m) cid = Some ctx \<longrightarrow>
        view (m\<lparr>cm_contexts := hput cid (client_touch now ctx) (cm_contexts m)\<rparr>) = view m)"

definition cache_blind :: "(ContextManager \<Rightarrow> 'v) \<Rightarrow> bool" where
  "cache_blind view \<longleftrightarrow> (\<forall>m c. view (m\<lparr>cm_token_info_cache := c\<rparr>) = view m)"

lemma view_kept_read:
  assumes "in_context cid (\<lambda>ctx. (g ctx, ctx)) s = (r, s')" "touch_blind cid view"
  shows "view_kept view s s'"
  using assms(1) by (rule view_kept_in_context) (use assms(2) in \<open>simp add: touch_blind_def\<close>)

lemma context_exists_kept: "context_exists cid s = (r, s') \<Longrightarrow> touch_blind cid view \<Longrightarrow> view_kept view s s'"
  by (auto simp: context_exists_def split: prod.splits intro: view_kept_read)

lemma token_info_kept:
  assumes "token_info be slot s = (r, s')" "cache_blind view"
  shows "view_kept view s s'"
proof -
  have pub: "view (snd (cache_token_info_if_generation now slot label serial g m)) = view m" for now label serial g m
    using assms(2) by (simp add: cache_token_info_if_generation_def cache_token_info_def cache_blind_def)
  show ?thesis
    using assms(1)
    by (auto simp: token_info_def Let_def split: option.splits prod.splits sum.splits
        intro: view_kept_call view_kept_trans [OF view_kept_call view_kept_on_mgr] simp: pub)
qed

lemma authz_identity_kept:
  "authz_context_identity cid s = (r, s') \<Longrightarrow> touch_blind cid view \<Longrightarrow> view_kept view s s'"
  by (auto simp: authz_context_identity_def split: prod.splits option.splits sum.splits if_splits
      intro: context_exists_kept)

lemma authorized_kept:
  assumes "slot_is_authorized be policy cid slot s = (r, s')" "touch_blind cid view" "cache_blind view"
  shows "view_kept view s s'"
proof -
  obtain i s1 where i: "authz_context_identity cid s = (i, s1)"
    by (meson surj_pair)
  obtain t s2 where t: "token_info be slot s1 = (t, s2)"
    by (meson surj_pair)
  have "view_kept view s s1"
    using authz_identity_kept [OF i assms(2)] .
  moreover have "view_kept view s s2"
    using view_kept_trans [OF authz_identity_kept [OF i assms(2)] token_info_kept [OF t assms(3)]] .
  ultimately show ?thesis
    using assms(1) i t
    by (auto simp: slot_is_authorized_def split: sum.splits if_splits prod.splits)
qed

section \<open>Opening a session\<close>

text \<open>What an open may not change behind the client's back: its sessions, and anyone's reservations.\<close>

definition session_view ::
  "ClientContextId \<Rightarrow> ContextManager \<Rightarrow> (HandleMap \<times> (VirtualHandle, BackendSlotId) hashmap) option" where
  "session_view cid m = map_option (\<lambda>c. (lc_session_handles c, lc_session_slots c)) (hget (cm_contexts m) cid)"

lemma session_view_blind: "touch_blind cid (session_view cid)" "cache_blind (session_view cid)"
  by (simp_all add: touch_blind_def cache_blind_def session_view_def client_touch_def)

lemma outstanding_blind: "touch_blind cid outstanding_sessions" "cache_blind outstanding_sessions"
  by (simp_all add: touch_blind_def cache_blind_def outstanding_sessions_def fun_eq_iff)

lemma outstanding_reserved:
  "try_reserve_session_for_principal key limit m = (ok, m') \<Longrightarrow>
   outstanding_sessions m' = (if ok then (outstanding_sessions m)(key := outstanding_sessions m key + 1)
                              else outstanding_sessions m)"
  by (auto simp: try_reserve_session_for_principal_def outstanding_sessions_def fun_eq_iff split: if_splits)

lemma outstanding_released:
  "outstanding_sessions (release_session_reservation key m) =
   (outstanding_sessions m)(key := outstanding_sessions m key - 1)"
  by (auto simp: release_session_reservation_def outstanding_sessions_def fun_eq_iff split: option.splits)

lemma session_view_reserve:
  "session_view cid (snd (try_reserve_session_for_principal key limit m)) = session_view cid m"
  "session_view cid (release_session_reservation key m) = session_view cid m"
  by (simp_all add: session_view_def try_reserve_session_for_principal_def release_session_reservation_def
      split: option.split)

lemma reserve_session_spec:
  assumes "reserve_session peer cid s = ((ok, reservation), s')"
  shows "view_kept (session_view cid) s s'"
    and "view_stable outstanding_sessions s \<Longrightarrow> view_stable outstanding_sessions s'"
    and "outstanding_sessions (mgr_of s') =
      (case reservation of None \<Rightarrow> outstanding_sessions (mgr_of s)
       | Some key \<Rightarrow> (outstanding_sessions (mgr_of s))(key := outstanding_sessions (mgr_of s) key + 1))"
    and "\<not> ok \<Longrightarrow> reservation = None"
proof -
  let ?f = "\<lambda>ip ctx. ((), ctx\<lparr>lc_last_peer_ip := Some ip\<rparr>)"
  let ?s1 = "case peer of Some ip \<Rightarrow>
      if context_identity (mgr_of s) cid = None then snd (in_context cid (?f ip) s) else s | None \<Rightarrow> s"
  have k1: "view_kept (session_view cid) s ?s1"
    by (cases peer) (auto intro!: view_kept_in_context [OF surjective_pairing] simp: session_view_def client_touch_def)
  have k2: "view_kept outstanding_sessions s ?s1"
    by (cases peer) (auto intro!: view_kept_in_context [OF surjective_pairing] simp: outstanding_sessions_def fun_eq_iff)
  have o: "outstanding_sessions (mgr_of ?s1) = outstanding_sessions (mgr_of s)" "snd ?s1 = snd s"
    using in_context_frame(4) [of cid _ s, OF surjective_pairing]
    by (auto simp: in_context_def get_context_def outstanding_sessions_def fun_eq_iff split: option.splits prod.splits)
  show "view_kept (session_view cid) s s'"
    using assms view_kept_trans [OF k1 view_kept_on_mgr] session_view_reserve(1)
    by (auto simp: reserve_session_def Let_def split: option.splits prod.splits) (metis snd_conv)+
  show "view_stable outstanding_sessions s \<Longrightarrow> view_stable outstanding_sessions s'"
    using assms o by (auto simp: reserve_session_def Let_def view_stable_def split: option.splits prod.splits if_splits)
  show "outstanding_sessions (mgr_of s') =
      (case reservation of None \<Rightarrow> outstanding_sessions (mgr_of s)
       | Some key \<Rightarrow> (outstanding_sessions (mgr_of s))(key := outstanding_sessions (mgr_of s) key + 1))"
    using assms o by (auto simp: reserve_session_def Let_def split: option.splits prod.splits if_splits
        dest!: outstanding_reserved)
  show "\<not> ok \<Longrightarrow> reservation = None"
    using assms by (auto simp: reserve_session_def Let_def split: option.splits prod.splits if_splits)
qed

text \<open>The invariant of the tables, through the same parts.\<close>

lemma manager_inv_put:
  "manager_inv m \<Longrightarrow> hget (cm_contexts m) cid = Some ctx \<Longrightarrow> client_inv ctx' = client_inv ctx \<Longrightarrow> lc_id ctx' = lc_id ctx \<Longrightarrow>
   manager_inv (m\<lparr>cm_contexts := hput cid ctx' (cm_contexts m)\<rparr>)"
  using manager_invD(2) by (auto intro!: put_context_inv)

lemma client_inv_peer [simp]: "client_inv (ctx\<lparr>lc_last_peer_ip := p\<rparr>) = client_inv ctx"
  by (simp add: client_inv_def)

lemma guar_inv_read:
  "in_context cid (\<lambda>ctx. (g ctx, ctx)) s = (r, s') \<Longrightarrow> guar manager_inv s s'"
  by (erule guar_in_context) (auto intro!: manager_inv_put simp: client_touch_def)

lemma context_exists_guar: "context_exists cid s = (r, s') \<Longrightarrow> guar manager_inv s s'"
  by (auto simp: context_exists_def split: prod.splits intro: guar_inv_read)

lemma manager_inv_cache: "manager_inv (snd (cache_token_info_if_generation now slot l sn g m)) = manager_inv m"
  by (auto simp: cache_token_info_if_generation_def cache_token_info_def manager_inv_def)

lemma token_info_guar: "token_info be slot s = (r, s') \<Longrightarrow> guar manager_inv s s'"
  by (auto simp: token_info_def Let_def manager_inv_cache split: option.splits prod.splits sum.splits
      intro: guar_call guar_trans [OF guar_call guar_on_mgr])

lemma authorized_guar:
  assumes "slot_is_authorized be policy cid slot s = (r, s')"
  shows "guar manager_inv s s'"
proof -
  obtain i s1 where i: "authz_context_identity cid s = (i, s1)"
    by (meson surj_pair)
  obtain t s2 where t: "token_info be slot s1 = (t, s2)"
    by (meson surj_pair)
  have "guar manager_inv s s1"
    using i by (auto simp: authz_context_identity_def split: prod.splits option.splits sum.splits if_splits
        intro: context_exists_guar)
  moreover from this have "guar manager_inv s s2"
    using guar_trans token_info_guar [OF t] by blast
  ultimately show ?thesis
    using assms i t by (auto simp: slot_is_authorized_def split: sum.splits if_splits prod.splits)
qed

lemma reserve_guar:
  assumes "reserve_session peer cid s = (x, s')"
  shows "guar manager_inv s s'"
proof -
  have pub: "manager_inv (snd (try_reserve_session_for_principal key limit m)) = manager_inv m" for key limit m
    by (auto simp: try_reserve_session_for_principal_def manager_inv_def)
  let ?s1 = "case peer of Some ip \<Rightarrow> if context_identity (mgr_of s) cid = None
      then snd (in_context cid (\<lambda>ctx. ((), ctx\<lparr>lc_last_peer_ip := Some ip\<rparr>)) s) else s | None \<Rightarrow> s"
  have k: "guar manager_inv s ?s1"
    by (cases peer) (auto intro!: guar_in_context [OF surjective_pairing] manager_inv_put simp: client_touch_def)
  show ?thesis
  proof (cases "per_principal_max_sessions (w_quota (fst s))")
    case None
    then show ?thesis
      using assms by (simp add: reserve_session_def)
  next
    case (Some limit)
    let ?key = "principal_quota_key peer (mgr_of s) cid"
    have "s' = on_mgr (\<lambda>_. snd (try_reserve_session_for_principal ?key limit (mgr_of ?s1))) ?s1"
      using assms Some by (auto simp: reserve_session_def Let_def split: prod.splits)
    then show ?thesis
      using guar_trans [OF k guar_on_mgr [of manager_inv ?s1]] pub by simp
  qed
qed

section \<open>The result of an open\<close>

lemma register_bound:
  assumes "client_inv ctx" "register_session b slot ctx = (v, ctx')"
  shows "handle_map_resolve (lc_session_handles ctx') v = Some b \<and> hget (lc_session_slots ctx') v = Some slot"
proof -
  have inv: "handle_map_inv (lc_session_handles ctx)"
    using assms(1) by (simp add: client_inv_iff)
  then show ?thesis
    using assms(2) handle_map_inv_forward [OF inv]
    by (auto simp: register_session_def handle_map_insert_def handle_map_resolve_def Let_def split: option.splits)
qed

lemma open_reserved_spec:
  assumes run: "open_reserved be cid slot flags s = (r, s')" and inv: "manager_inv (mgr_of s)" "rely manager_inv s"
    and honest: "truthful be"
  shows "view_kept outstanding_sessions s s'"
    and "case r of
        Inl _ \<Rightarrow> view_kept (session_view cid) s s'
      | Inr (rv, vh) \<Rightarrow>
          if rv = CKR_OK
          then \<exists>session b b'. be_open_session be (bs_raw slot) (CkSessionFlags flags) b = (Inr session, b')
                 \<and> session_bound (mgr_of s') cid vh session slot
          else vh = 0 \<and> view_kept (session_view cid) s s'"
proof -
  obtain r1 s1 where c: "call_backend (be_open_session be (bs_raw slot) (CkSessionFlags flags)) s = (r1, s1)"
    by (meson surj_pair)
  note k = view_kept_call [OF c] and g = guarD(2) [OF guar_call [OF c] inv(2,1)]
  have "view_kept outstanding_sessions s s' \<and> (case r of
        Inl _ \<Rightarrow> view_kept (session_view cid) s s'
      | Inr (rv, vh) \<Rightarrow>
          if rv = CKR_OK
          then \<exists>session b b'. be_open_session be (bs_raw slot) (CkSessionFlags flags) b = (Inr session, b')
                 \<and> session_bound (mgr_of s') cid vh session slot
          else vh = 0 \<and> view_kept (session_view cid) s s')"
  proof (cases "\<exists>x. r1 = Inr (Inr x)")
    case False
    have "r1 \<noteq> Inr (Inl CKR_OK)"
      using c call_backend_error [of _ s _ s1] truthfulD(1) [OF honest] by blast
    then show ?thesis
      using run c k False by (cases r1; cases "projr r1") (auto simp: open_reserved_def)
  next
    case True
    then obtain session where r1: "r1 = Inr (Inr session)"
      by blast
    obtain b b' where lib: "be_open_session be (bs_raw slot) (CkSessionFlags flags) b = (Inr session, b')"
      using c r1 by (blast elim: call_backend_OkE)
    obtain x s2 where reg: "in_context cid (register_session (BackendHandle session) slot) s1 = (x, s2)"
      by (meson surj_pair)
    from reg show ?thesis
    proof (cases rule: in_context_mgr)
      case missing
      obtain y s3 where c3: "call_backend (be_close_session be session) s2 = (y, s3)"
        by (meson surj_pair)
      have "view_kept outstanding_sessions s1 s2" "view_kept (session_view cid) s1 s2"
        using missing(3) by (simp_all add: view_kept_on_mgr)
      then have "view_kept outstanding_sessions s s3" "view_kept (session_view cid) s s3"
        using view_kept_call [OF c] view_kept_call [OF c3] by (blast intro: view_kept_trans)+
      then show ?thesis
        using run c r1 reg missing(2) c3 by (auto simp: open_reserved_def register_session_handle_def)
    next
      case (found ctx v ctx')
      have ci: "client_inv (client_touch (w_now (fst s1)) ctx)"
        using manager_invD(2) [OF g found(1)] by (simp add: client_touch_def)
      have "r = Inr (CKR_OK, vh_raw v)" "s' = s2"
        using run c r1 reg found(3) by (simp_all add: open_reserved_def register_session_handle_def)
      moreover have "session_bound (mgr_of s2) cid (vh_raw v) session slot"
        using register_bound [OF ci found(2)] found(4) by (simp add: session_bound_def)
      moreover have "view_kept outstanding_sessions s1 s2"
        unfolding found(4) by (rule view_kept_on_mgr) (simp add: outstanding_sessions_def fun_eq_iff)
      moreover from this have "view_kept outstanding_sessions s s2"
        using view_kept_call [OF c] by (blast intro: view_kept_trans)
      ultimately show ?thesis
        using lib by auto
    qed
  qed
  then show "view_kept outstanding_sessions s s'"
    and "case r of
        Inl _ \<Rightarrow> view_kept (session_view cid) s s'
      | Inr (rv, vh) \<Rightarrow>
          if rv = CKR_OK
          then \<exists>session b b'. be_open_session be (bs_raw slot) (CkSessionFlags flags) b = (Inr session, b')
                 \<and> session_bound (mgr_of s') cid vh session slot
          else vh = 0 \<and> view_kept (session_view cid) s s'"
    by blast+
qed

lemma token_info_error:
  assumes "token_info be slot s = (Inr r, s')" "truthful be"
  shows "r \<noteq> Inl CKR_OK"
proof (cases "cached_token_info (w_now (fst s)) slot (mgr_of s)")
  case None
  obtain x t where c: "call_backend (be_get_token_info be (bs_raw slot)) s = (x, t)"
    by (meson surj_pair)
  then have "x \<noteq> Inr (Inl CKR_OK)"
    using call_backend_error [of _ s _ t] truthfulD(5) [OF assms(2)] by blast
  then show ?thesis
    using assms(1) None c by (auto simp: token_info_def Let_def split: sum.splits)
qed (use assms(1) in \<open>auto simp: token_info_def\<close>)

lemma authorized_error:
  assumes "slot_is_authorized be policy cid slot s = (Inr r, s')" "truthful be"
  shows "r \<noteq> Inl CKR_OK"
proof -
  obtain i s1 where i: "authz_context_identity cid s = (i, s1)"
    by (meson surj_pair)
  obtain t s2 where t: "token_info be slot s1 = (t, s2)"
    by (meson surj_pair)
  have "i \<noteq> Inl CKR_OK"
    using i by (auto simp: authz_context_identity_def split: prod.splits sum.splits if_splits option.splits)
  moreover have "t \<noteq> Inr (Inl CKR_OK)"
    using token_info_error [OF _ assms(2)] t by blast
  ultimately show ?thesis
    using assms(1) i t by (auto simp: slot_is_authorized_def split: sum.splits if_splits prod.splits)
qed

text \<open>
  What an open has done: with \<open>CKR_OK\<close>, the slot is known, the policy allows the context its token and
  the library opened the session to which the returned handle is now bound, on that slot; with every other
  answer the handle is 0 and, if nobody else touches them, the client's sessions are what they were.
\<close>

definition open_effect ::
  "'b Pkcs11Backend \<Rightarrow> TokenPolicy \<Rightarrow> ClientContextId \<Rightarrow> u64 \<Rightarrow> u64 \<Rightarrow> 'b run \<Rightarrow> Status + CkRv \<times> u64 \<Rightarrow> 'b run \<Rightarrow> bool" where
  "open_effect be policy cid slot_id flags s r s' \<longleftrightarrow>
     (if \<exists>vh. r = Inr (CKR_OK, vh)
      then \<exists>vh slot session s1 b b'.
             r = Inr (CKR_OK, vh)
           \<and> resolve_slot (mgr_of s1) slot_id = Inr slot
           \<and> fst (slot_is_authorized be policy cid slot s1) = Inr (Inr True)
           \<and> be_open_session be (bs_raw slot) (CkSessionFlags flags) b = (Inr session, b')
           \<and> session_bound (mgr_of s') cid vh session slot
      else (\<forall>rv vh. r = Inr (rv, vh) \<longrightarrow> vh = 0)
           \<and> (view_stable (session_view cid) s \<longrightarrow> session_view cid (mgr_of s') = session_view cid (mgr_of s)))"

definition open_refusal :: "Status + CkRv \<times> u64 \<Rightarrow> bool" where
  "open_refusal r = (case r of Inl _ \<Rightarrow> True | Inr (rv, vh) \<Rightarrow> rv \<noteq> CKR_OK \<and> vh = 0)"

lemma open_effect_refused:
  "open_refusal r \<Longrightarrow> view_kept (session_view cid) s s' \<Longrightarrow> open_effect be policy cid slot_id flags s r s'"
  by (auto simp: open_effect_def open_refusal_def view_kept_def split: sum.splits)

lemma open_effect_opened:
  assumes "resolve_slot (mgr_of s1) slot_id = Inr slot" "fst (slot_is_authorized be policy cid slot s1) = Inr (Inr True)"
    and "be_open_session be (bs_raw slot) (CkSessionFlags flags) b = (Inr session, b')"
    and "session_bound (mgr_of s') cid vh session slot" "r = Inr (CKR_OK, vh)"
  shows "open_effect be policy cid slot_id flags s r s'"
  using assms unfolding open_effect_def by (metis (no_types, lifting))

lemma drop_reservation_frame:
  "session_view cid (mgr_of (drop_reservation x s)) = session_view cid (mgr_of s)"
  "session_bound (mgr_of (drop_reservation x s)) cid vh session slot = session_bound (mgr_of s) cid vh session slot"
  by (cases x; simp add: drop_reservation_def session_view_reserve)
    (cases x; auto simp: drop_reservation_def session_bound_def release_session_reservation_def split: option.split)

lemma authorised_open:
  assumes res: "reserve_session peer cid s2 = ((ok, reservation), s3)"
    and opn: "open_reserved be cid slot flags s3 = (r, s4)"
    and inv: "manager_inv (mgr_of s2)" "rely manager_inv s2" "view_stable outstanding_sessions s2"
    and honest: "truthful be"
  shows "outstanding_sessions (mgr_of (drop_reservation reservation s4)) = outstanding_sessions (mgr_of s2)"
    and "(\<exists>vh session b b'. r = Inr (CKR_OK, vh)
           \<and> be_open_session be (bs_raw slot) (CkSessionFlags flags) b = (Inr session, b')
           \<and> session_bound (mgr_of (drop_reservation reservation s4)) cid vh session slot)
         \<or> open_refusal r \<and> view_kept (session_view cid) s2 (drop_reservation reservation s4)"
proof -
  note spec = reserve_session_spec [OF res]
  have g: "manager_inv (mgr_of s3)" "rely manager_inv s3"
    using guarD [OF reserve_guar [OF res] inv(2,1)] by simp_all
  note o = open_reserved_spec [OF opn g honest]
  have "outstanding_sessions (mgr_of s4) = outstanding_sessions (mgr_of s3)"
    using o(1) spec(2) inv(3) by (simp add: view_kept_def)
  then show "outstanding_sessions (mgr_of (drop_reservation reservation s4)) = outstanding_sessions (mgr_of s2)"
    using spec(3) by (cases reservation) (auto simp: drop_reservation_def outstanding_released)
  have drop: "view_kept (session_view cid) s4 (drop_reservation reservation s4)"
    by (cases reservation) (auto simp: drop_reservation_def session_view_reserve intro!: view_kept_on_mgr)
  have "view_kept (session_view cid) s3 s4 \<Longrightarrow> view_kept (session_view cid) s2 (drop_reservation reservation s4)"
    using spec(1) drop view_kept_trans by blast
  then show "(\<exists>vh session b b'. r = Inr (CKR_OK, vh)
           \<and> be_open_session be (bs_raw slot) (CkSessionFlags flags) b = (Inr session, b')
           \<and> session_bound (mgr_of (drop_reservation reservation s4)) cid vh session slot)
         \<or> open_refusal r \<and> view_kept (session_view cid) s2 (drop_reservation reservation s4)"
    using o(2) by (auto simp: drop_reservation_frame open_refusal_def split: sum.splits prod.splits if_splits)
qed


text \<open>A client with one session on a known slot, and an open policy.\<close>

definition slotted_run :: "nat run" where
  "slotted_run =
     on_mgr (\<lambda>m. m\<lparr>cm_slot_map := snd (slot_map_register (BackendSlotId 3) slot_map_new)\<rparr>) session_run"

definition no_policy :: TokenPolicy where
  "no_policy = \<lparr>tp_rules = [], tp_allow_all_authenticated = False, tp_has_policy = False, tp_anonymous_principal = None,
     tp_per_object_active_cache = False, tp_per_class_active_cache = False, tp_per_mechanism_active_cache = False\<rparr>"

lemmas slotted_run_eval = slotted_run_def session_run_eval slot_map_register_def slot_map_new_def resolve_slot_def
  slot_map_resolve_def context_exists_def slot_is_authorized_def authz_context_identity_def context_identity_def
  no_policy_def allows_unauthenticated_def

lemma slotted_run_hyps:
  "manager_inv (mgr_of slotted_run)" "rely P slotted_run" "view_stable view slotted_run"
proof -
  have "client_inv session_client" "lc_id session_client = ''ctx''"
    by (simp_all add: session_client_def register_session_def client_new_def handle_map_insert_def
        handle_map_new_def client_inv_def handle_map_inv_def issued_def hkeys_def hwf_def Let_def)
  then show "manager_inv (mgr_of slotted_run)"
    by (simp add: manager_inv_def slotted_run_def session_run_def mgr_of_def on_mgr_def hwf_def)
qed (simp_all add: rely_def view_stable_def slotted_run_def session_run_def on_mgr_def)

lemma slotted_run_open:
  "fst (open_session easy_backend no_policy None ''ctx'' 1 4 slotted_run) = Inr (CKR_OK, 2)"
  by (simp add: slotted_run_eval open_session_def reserve_session_def per_principal_max_sessions_def open_reserved_def
      register_session_handle_def drop_reservation_def)


end
