(* ===== verification/Close_All.thy ===== *)
theory Close_All
  imports Session_Lifecycle
begin

text \<open>
  What \<^verbatim>\<open>C_CloseAllSessions\<close> promises: the lemmas follow one batch from the suspension of its members
  through the blocking closure, in each way the closure can end, to the answer.
\<close>

section \<open>Beginning the batch\<close>

lemma begin_close_missing:
  assumes "manager_inv m" "begin_close_session_with_guard now cid vh inherited m = (Inl SessionMissing, m')"
  shows "manager_inv m' \<and> session_fate_of m' = session_fate_of m \<and> (\<forall>b. session_fate_of m cid vh \<noteq> SessionLive b)
    \<and> (\<exists>ctx. hget (cm_contexts m') cid = Some ctx)"
proof -
  let ?m1 = "if inherited \<noteq> Some cid then snd (begin_operation cid m) else m"
  let ?release = "\<lambda>m. if inherited \<noteq> Some cid then drop_operation_guard now cid m else m"
  obtain ctx where ctx: "hget (cm_contexts ?m1) cid = Some ctx"
    and none: "fst (handle_map_suspend vh (lc_session_handles ctx)) = None" and m': "m' = ?release ?m1"
    using assms(2) unfolding begin_close_session_with_guard_def Let_def
    by (cases "begin_operation cid m") (auto split: if_splits option.splits prod.splits)
  have "session_fate_of m' = session_fate_of m"
    by (simp add: m')
  moreover have "hget (hm_virtual_to_backend (lc_session_handles ctx)) vh = None"
    using none by (auto simp: handle_map_suspend_def Let_def split: option.splits)
  then have "session_fate_of ?m1 cid vh \<noteq> SessionLive b" for b
    using ctx by (simp add: session_fate_of_def handle_fate_raw split: option.split)
  moreover have "\<exists>ctx. hget (cm_contexts m') cid = Some ctx"
    using ctx by (auto simp: m' drop_operation_guard_def update_context_def split: option.splits if_splits)
  ultimately show ?thesis
    using assms(1) by (auto simp: m' guard_inv split: if_splits)
qed

lemma proven_gone_spec:
  assumes "proven_gone cid vh s = (gone, s')"
  shows "session_fate_of (mgr_of s') = session_fate_of (mgr_of s)" "guar manager_inv s s'" "snd s' = snd s"
    and "hget (cm_contexts (mgr_of s)) cid \<noteq> None \<Longrightarrow> gone \<longleftrightarrow> session_fate_of (mgr_of s) cid vh = SessionGone"
proof -
  obtain r where r: "in_context cid (\<lambda>ctx. (handle_map_is_proven_gone (lc_session_handles ctx) vh, ctx)) s = (r, s')"
    "gone = (case r of None \<Rightarrow> False | Some g \<Rightarrow> g)"
    using assms by (auto simp: proven_gone_def split: prod.splits)
  show "guar manager_inv s s'" "snd s' = snd s"
    using guar_inv_read [OF r(1)] in_context_frame(4) [OF r(1)] .
  have "session_fate_of (mgr_of s') = session_fate_of (mgr_of s) \<and>
      (hget (cm_contexts (mgr_of s)) cid \<noteq> None \<longrightarrow> gone = (session_fate_of (mgr_of s) cid vh = SessionGone))"
    using r(1)
  proof (cases rule: in_context_mgr)
    case (found ctx x ctx')
    then show ?thesis
      using r(2) by (auto simp: session_fate_of_def fun_eq_iff client_touch_def handle_fate_def
          handle_map_is_proven_gone_def handle_map_resolve_def handle_map_suspended_backend_def split: option.splits)
  qed simp
  then show "session_fate_of (mgr_of s') = session_fate_of (mgr_of s)"
    and "hget (cm_contexts (mgr_of s)) cid \<noteq> None \<Longrightarrow> gone \<longleftrightarrow> session_fate_of (mgr_of s) cid vh = SessionGone"
    by blast+
qed

abbreviation members :: "CloseSessionTransition list \<Rightarrow> VirtualHandle set" where
  "members ts \<equiv> ct_virtual_session ` set ts"

definition begun_from :: "ContextManager \<Rightarrow> ContextManager \<Rightarrow> ClientContextId \<Rightarrow> CloseSessionTransition list \<Rightarrow> bool" where
  "begun_from m m' cid ts \<longleftrightarrow>
     (\<forall>t \<in> set ts. ct_context_id t = cid
        \<and> session_fate_of m cid (ct_virtual_session t) = SessionLive (ct_backend_handle t)
        \<and> session_fate_of m' cid (ct_virtual_session t) = SessionSuspended (ct_backend_handle t))
     \<and> (\<forall>v. v \<notin> members ts \<longrightarrow> session_fate_of m' cid v = session_fate_of m cid v)"

lemma begin_batch_spec:
  assumes "begin_batch cid vhs ts0 k0 s = (Some (ts, k), ts', s')" "manager_inv (mgr_of s)"
  shows "\<exists>new. ts = ts0 @ new \<and> manager_inv (mgr_of s') \<and> snd s' = snd s \<and> k0 \<le> k
    \<and> begun_from (mgr_of s) (mgr_of s') cid new \<and> members new \<subseteq> set vhs
    \<and> (k = k0 \<longrightarrow> (\<forall>v \<in> set vhs. v \<in> members new \<or> session_fate_of (mgr_of s) cid v = SessionGone))"
  using assms
proof (induction vhs arbitrary: ts0 k0 s)
  case Nil
  then show ?case by (auto simp: begun_from_def)
next
  case (Cons vh vhs)
  obtain x m where b: "begin_close_session_with_guard (w_now (fst s)) cid vh None (mgr_of s) = (x, m)"
    by (meson surj_pair)
  show ?case
  proof (cases x)
    case (Inr t)
    let ?s1 = "on_mgr (\<lambda>_. m) s"
    note spec = begin_close_spec [OF Cons.prems(2) b [unfolded Inr]]
    have run: "begin_batch cid vhs (ts0 @ [t]) k0 ?s1 = (Some (ts, k), ts', s')"
      using Cons.prems(1) b Inr by simp
    obtain new where new: "ts = (ts0 @ [t]) @ new" "manager_inv (mgr_of s')" "snd s' = snd ?s1" "k0 \<le> k"
      "begun_from m (mgr_of s') cid new" "members new \<subseteq> set vhs"
      "k = k0 \<Longrightarrow> \<forall>v \<in> set vhs. v \<in> members new \<or> session_fate_of m cid v = SessionGone"
      using Cons.IH [OF run] spec by auto
    have vh: "ct_virtual_session t = vh" "session_fate_of m cid vh = SessionSuspended (ct_backend_handle t)"
      using spec by auto
    then have "vh \<notin> members new"
      using new(5) by (force simp: begun_from_def)
    then have "begun_from (mgr_of s) (mgr_of s') cid (t # new)"
      using new(5) spec vh unfolding begun_from_def by (auto split: if_splits)
    then show ?thesis
      using new vh spec by (intro exI [of _ "t # new"]) (auto split: if_splits)
  next
    case (Inl e)
    then have e: "e = SessionMissing"
      using Cons.prems(1) b by (cases e) auto
    let ?s1 = "on_mgr (\<lambda>_. m) s"
    note spec = begin_close_missing [OF Cons.prems(2) b [unfolded Inl e]]
    obtain gone s2 where g: "proven_gone cid vh ?s1 = (gone, s2)"
      by (meson surj_pair)
    note pg = proven_gone_spec [OF g]
    have inv2: "manager_inv (mgr_of s2)"
    proof -
      have "manager_inv (mgr_of ?s1) \<longrightarrow> manager_inv (mgr_of s2)"
        using g by (auto simp: proven_gone_def in_context_def get_context_def client_touch_def split: option.splits prod.splits
            intro!: manager_inv_put)
      then show ?thesis using spec by simp
    qed
    have same: "session_fate_of (mgr_of s2) = session_fate_of (mgr_of s)"
      using pg(1) spec by simp
    let ?k1 = "if gone then k0 else k0 + 1"
    have run: "begin_batch cid vhs ts0 ?k1 s2 = (Some (ts, k), ts', s')"
      using Cons.prems(1) b Inl e g by simp
    obtain new where new: "ts = ts0 @ new" "manager_inv (mgr_of s')" "snd s' = snd s2" "?k1 \<le> k"
      "begun_from (mgr_of s2) (mgr_of s') cid new" "members new \<subseteq> set vhs"
      "k = ?k1 \<Longrightarrow> \<forall>v \<in> set vhs. v \<in> members new \<or> session_fate_of (mgr_of s2) cid v = SessionGone"
      using Cons.IH [OF run inv2] by blast
    have gone: "gone \<longleftrightarrow> session_fate_of (mgr_of s) cid vh = SessionGone"
      using pg(4) spec by auto
    have "k = k0 \<Longrightarrow> gone"
      using new(4) by (cases gone) auto
    then have "k = k0 \<Longrightarrow> \<forall>v \<in> set (vh # vhs). v \<in> members new \<or> session_fate_of (mgr_of s) cid v = SessionGone"
      using new(7) gone same by auto
    moreover have "k0 \<le> k"
      using new(4) by (cases gone) auto
    moreover have "begun_from (mgr_of s) (mgr_of s') cid new"
      using new(5) same by (simp add: begun_from_def)
    moreover have "snd s' = snd s"
      using new(3) pg(3) by simp
    ultimately show ?thesis
      using new(1,2,6) by (intro exI [of _ new]) auto
  qed
qed

section \<open>Running the batch\<close>

text \<open>Completing, settling and dropping transitions concern their own handles only.\<close>

definition spares :: "ClientContextId \<Rightarrow> VirtualHandle set \<Rightarrow> ContextManager \<Rightarrow> ContextManager \<Rightarrow> bool" where
  "spares cid vs m m' \<longleftrightarrow>
     (manager_inv m \<longrightarrow> manager_inv m' \<and> (\<forall>v. v \<notin> vs \<longrightarrow> session_fate_of m' cid v = session_fate_of m cid v)
       \<and> (\<forall>v. session_fate_of m cid v = SessionGone \<longrightarrow> session_fate_of m' cid v = SessionGone))"

lemma spares_refl [simp]: "spares cid vs m m"
  by (simp add: spares_def)

lemma spares_trans: "spares cid vs m m1 \<Longrightarrow> spares cid vs m1 m2 \<Longrightarrow> spares cid vs m m2"
  by (auto simp: spares_def)

lemma spares_mono: "spares cid vs m m' \<Longrightarrow> vs \<subseteq> vs' \<Longrightarrow> spares cid vs' m m'"
  by (auto simp: spares_def)

lemma spares_step: "spares cid {v} m m1 \<Longrightarrow> spares cid vs m1 m2 \<Longrightarrow> spares cid (insert v vs) m m2"
  by (blast intro: spares_trans spares_mono)

lemma spares_complete: "spares cid {vh} m (complete_close_session cid' vh b k m)"
  using complete_fate(1) [of m cid' vh b k] complete_fate(2) [of m cid' vh b k cid] by (auto simp: spares_def)

lemma spares_drop: "spares cid {ct_virtual_session t} m (transition_drop now t m)"
  using transition_drop_fate [of m now t cid] transition_drop_inv [of m now t] by (auto simp: spares_def)

lemma spares_drops: "spares cid (members ts) m (drop_transitions now ts m)"
proof (induction ts arbitrary: m)
  case (Cons t ts)
  have "spares cid (members (t # ts)) m (transition_drop now t m)"
    by (rule spares_mono [OF spares_drop]) auto
  moreover have "spares cid (members (t # ts)) (transition_drop now t m) (drop_transitions now ts (transition_drop now t m))"
    by (rule spares_mono [OF Cons.IH]) auto
  ultimately show ?case
    by (simp add: drop_transitions_def spares_trans)
qed (simp add: drop_transitions_def)

lemma settle_members:
  "transition_settle outcome (transition_mark_started t, m) = (t', m') \<Longrightarrow>
   ct_virtual_session t' = ct_virtual_session t \<and> ct_settled t' \<and> spares cid {ct_virtual_session t} m m'"
  using spares_complete by (auto simp: transition_settle_def transition_mark_started_def)

lemma spares_unwind: "unwind_members ts outcomes m = (ts', m') \<Longrightarrow> members ts' = members ts \<and> spares cid (members ts) m m'"
proof (induction ts outcomes m arbitrary: ts' m' rule: unwind_members.induct)
  case (3 t ts outcome outcomes m)
  obtain t1 m1 where t: "transition_settle outcome (transition_mark_started t, m) = (t1, m1)"
    by (meson surj_pair)
  obtain ts2 m2 where r: "unwind_members ts outcomes m1 = (ts2, m2)"
    by (meson surj_pair)
  have ih: "members ts2 = members ts" "spares cid (members ts) m1 m2"
    using "3.IH" [OF t [symmetric] refl] r by auto
  note st = settle_members [OF t, of cid]
  have "ts' = t1 # ts2" "m' = m2"
    using 3(2) t r by simp_all
  then show ?case
    using ih st spares_step [of cid _ m m1 _ m2] by simp
qed (auto simp: transition_mark_started_def)

lemma spares_members:
  assumes "close_members be ts e (m, b) = (ts', e', m', b')"
  shows "members ts' = members ts \<and> (\<forall>t \<in> set ts'. ct_settled t) \<and> spares cid (members ts) m m'"
  using assms
proof (induction ts arbitrary: e m b ts')
  case (Cons t ts)
  obtain outcome b1 where o: "be_close_session be (bh_raw (ct_backend_handle t)) b = (outcome, b1)"
    by (meson surj_pair)
  obtain t1 m1 where t: "transition_settle outcome (transition_mark_started t, m) = (t1, m1)"
    by (meson surj_pair)
  obtain ts2 where r: "close_members be ts (case outcome of Inl rv \<Rightarrow> Some rv | Inr _ \<Rightarrow> e) (m1, b1) = (ts2, e', m', b')"
    "ts' = t1 # ts2"
    using Cons.prems o t by (auto split: prod.splits)
  note st = settle_members [OF t, of cid]
  have "spares cid (members (t # ts)) m m'"
    using Cons.IH [OF r(1)] st spares_step [of cid _ m m1 _ m'] by simp
  then show ?case
    using Cons.IH [OF r(1)] r(2) st by simp
qed simp

lemma close_members_None: "fst (snd (close_members be ts e mb)) = None \<Longrightarrow> e = None"
  by (induction ts arbitrary: e mb) (fastforce simp: split_beta Let_def split: sum.splits)+

lemma close_members_ok:
  assumes "close_members be ts e (m, b) = (ts', None, m', b')" "manager_inv m"
    and "\<forall>t \<in> set ts. ct_context_id t = cid \<and>
      session_fate_of m cid (ct_virtual_session t) \<in> {SessionSuspended (ct_backend_handle t), SessionGone}"
  shows "e = None \<and> (\<forall>v \<in> members ts. session_fate_of m' cid v = SessionGone)"
  using assms
proof (induction ts arbitrary: e m b ts')
  case (Cons t ts)
  obtain outcome b1 where o: "be_close_session be (bh_raw (ct_backend_handle t)) b = (outcome, b1)"
    by (meson surj_pair)
  obtain t1 m1 where t: "transition_settle outcome (transition_mark_started t, m) = (t1, m1)"
    by (meson surj_pair)
  obtain ts2 where r: "close_members be ts (case outcome of Inl rv \<Rightarrow> Some rv | Inr _ \<Rightarrow> e) (m1, b1) = (ts2, None, m', b')"
    using Cons.prems(1) o t by (auto split: prod.splits)
  have inv1: "manager_inv m1"
    using settle_members [OF t, of cid] Cons.prems(2) by (simp add: spares_def)
  have m1: "m1 = complete_close_session cid (ct_virtual_session t) (ct_backend_handle t) (close_completion outcome) m"
    using t Cons.prems(3) by (auto simp: transition_settle_def transition_mark_started_def)
  have keep: "session_fate_of m1 cid v = session_fate_of m cid v \<or> v = ct_virtual_session t" for v
    using settle_members [OF t, of cid] Cons.prems(2) by (auto simp: spares_def)
  have first: "session_fate_of m1 cid (ct_virtual_session t) = SessionGone" if "outcome = Inr ()"
    using complete_fate(2) [OF Cons.prems(2), of cid "ct_virtual_session t" "ct_backend_handle t" _ cid] Cons.prems(3)
    by (auto simp: m1 that close_completion_def completed_fate_def)
  show ?case
  proof (cases outcome)
    case (Inl rv)
    have "(case outcome of Inl rv \<Rightarrow> Some rv | Inr _ \<Rightarrow> e) \<noteq> None"
      using Inl by simp
    then show ?thesis
      using close_members_None [of be ts "case outcome of Inl rv \<Rightarrow> Some rv | Inr _ \<Rightarrow> e" "(m1, b1)"] r by simp
  next
    case (Inr u)
    have "\<forall>t' \<in> set ts. ct_context_id t' = cid \<and>
        session_fate_of m1 cid (ct_virtual_session t') \<in> {SessionSuspended (ct_backend_handle t'), SessionGone}"
    proof
      fix t'
      assume "t' \<in> set ts"
      then show "ct_context_id t' = cid \<and>
          session_fate_of m1 cid (ct_virtual_session t') \<in> {SessionSuspended (ct_backend_handle t'), SessionGone}"
        using Cons.prems(3) keep [of "ct_virtual_session t'"] first Inr by auto
    qed
    then have ih: "e = None \<and> (\<forall>v \<in> members ts. session_fate_of m' cid v = SessionGone)"
      using Cons.IH [OF r inv1] Inr by simp
    moreover have "session_fate_of m' cid (ct_virtual_session t) = SessionGone"
      using spares_members [OF r, of cid] inv1 first Inr by (simp add: spares_def)
    ultimately show ?thesis
      by simp
  qed
qed simp

lemma drops_settled:
  assumes "\<forall>t \<in> set ts. ct_settled t" "manager_inv m"
  shows "session_fate_of (drop_transitions now ts m) = session_fate_of m \<and> manager_inv (drop_transitions now ts m)"
  using assms
proof (induction ts arbitrary: m)
  case (Cons t ts)
  have "session_fate_of (transition_drop now t m) = session_fate_of m"
    using Cons.prems transition_drop_fate by (auto simp: fun_eq_iff)
  then show ?case
    using Cons.IH [of "transition_drop now t m"] Cons.prems transition_drop_inv [of m now t]
    by (simp add: drop_transitions_def)
qed (simp add: drop_transitions_def)

lemma batch_spares: "run_close_batch now be ts (m, b) = (result, m', b') \<Longrightarrow> spares cid (members ts) m m'"
proof -
  assume run: "run_close_batch now be ts (m, b) = (result, m', b')"
  obtain ts1 e m1 b1 where c: "close_members be ts None (m, b) = (ts1, e, m1, b1)"
    by (metis prod_cases4)
  have "m' = drop_transitions now ts1 m1"
    using run c by (simp add: run_close_batch_def)
  then show ?thesis
    using spares_members [OF c, of cid] spares_drops [of cid ts1 m1 now] spares_trans by metis
qed

lemma batch_ok:
  assumes "run_close_batch now be ts (m, b) = (Inr (), m', b')" "manager_inv m"
    and "\<forall>t \<in> set ts. ct_context_id t = cid \<and>
      session_fate_of m cid (ct_virtual_session t) = SessionSuspended (ct_backend_handle t)"
  shows "\<forall>v \<in> members ts. session_fate_of m' cid v = SessionGone"
proof -
  obtain ts1 m1 where c: "close_members be ts None (m, b) = (ts1, None, m1, b')"
    and m': "m' = drop_transitions now ts1 m1"
    using assms(1) by (auto simp: run_close_batch_def split: prod.splits option.splits)
  have "\<forall>v \<in> members ts. session_fate_of m1 cid v = SessionGone"
    using close_members_ok [OF c assms(2)] assms(3) by blast
  moreover have "session_fate_of m' = session_fate_of m1"
    using drops_settled [of ts1 m1 now] spares_members [OF c, of cid] assms(2) m' by (simp add: spares_def)
  ultimately show ?thesis
    by simp
qed

lemma unwind_spares: "spares cid (members ts) m (unwind_batch now ts outcomes m)"
proof -
  obtain ts' m' where u: "unwind_members ts outcomes m = (ts', m')"
    by (meson surj_pair)
  then show ?thesis
    using spares_unwind [OF u, of cid] spares_drops [of cid ts' m' now] spares_trans [of cid _ m m']
    by (simp add: unwind_batch_def)
qed

text \<open>Suspending the members touches no other session, even if the context disappears on the way.\<close>

lemma begin_close_no_context:
  assumes "manager_inv m" "begin_close_session_with_guard now cid vh inherited m = (Inl ContextMissing, m')"
  shows "manager_inv m' \<and> session_fate_of m' = session_fate_of m"
  using assms unfolding begin_close_session_with_guard_def Let_def
  by (cases "begin_operation cid m") (use guard_inv fate_begin_operation [of cid m] in
    \<open>auto simp: begin_operation_def split: if_splits option.splits prod.splits\<close>)

lemma begin_batch_spares:
  "begin_batch cid vhs ts0 k0 s = (x, ts, s') \<Longrightarrow>
   spares cid (set vhs) (mgr_of s) (mgr_of s') \<and> members ts \<subseteq> members ts0 \<union> set vhs"
proof (induction vhs arbitrary: ts0 k0 s)
  case (Cons vh vhs)
  obtain y m where b: "begin_close_session_with_guard (w_now (fst s)) cid vh None (mgr_of s) = (y, m)"
    by (meson surj_pair)
  let ?s1 = "on_mgr (\<lambda>_. m) s"
  show ?case
  proof (cases y)
    case (Inr t)
    note spec = begin_close_spec [OF _ b [unfolded Inr]]
    have "spares cid {vh} (mgr_of s) m"
      using spec by (auto simp: spares_def)
    moreover have "spares cid (set vhs) m (mgr_of s') \<and> members ts \<subseteq> members (ts0 @ [t]) \<union> set vhs"
      using Cons.IH [of "ts0 @ [t]" k0 ?s1] Cons.prems b Inr by simp
    moreover have "ct_virtual_session t = vh"
      using b Inr by (auto elim: begin_close_InrE)
    ultimately show ?thesis
      using spares_step [of cid vh "mgr_of s" m "set vhs"] by auto
  next
    case (Inl e)
    show ?thesis
    proof (cases e)
      case ContextMissing
      then have "ts = ts0" "mgr_of s' = m"
        using Cons.prems b Inl by auto
      then show ?thesis
        using begin_close_no_context [OF _ b [unfolded Inl ContextMissing]] by (auto simp: spares_def)
    next
      case SessionMissing
      obtain gone s2 where g: "proven_gone cid vh ?s1 = (gone, s2)"
        by (meson surj_pair)
      have "manager_inv m \<longrightarrow> manager_inv (mgr_of s2)"
        using g by (auto simp: proven_gone_def in_context_def get_context_def client_touch_def split: option.splits prod.splits
            intro!: manager_inv_put)
      then have "spares cid {vh} (mgr_of s) (mgr_of s2)"
        using begin_close_missing [OF _ b [unfolded Inl SessionMissing]] proven_gone_spec(1) [OF g]
        by (auto simp: spares_def)
      moreover have "spares cid (set vhs) (mgr_of s2) (mgr_of s') \<and> members ts \<subseteq> members ts0 \<union> set vhs"
        using Cons.IH [of ts0 "if gone then k0 else k0 + 1" s2] Cons.prems b Inl SessionMissing g by simp
      ultimately show ?thesis
        using spares_step [of cid vh "mgr_of s" "mgr_of s2" "set vhs"] by auto
    qed
  qed
qed auto

section \<open>The closure, and the logout after it\<close>

lemma call_owningE:
  assumes "call_owning operation dropped unwound s = (r, completed, s')"
  obtains w sc m1 b1 fates where "pause s = (w, sc)" "s' = pause (w\<lparr>w_mgr := m1, w_backend := b1\<rparr>, sc\<lparr>sc_fates := fates\<rparr>)"
    "m1 = w_mgr w \<and> r = Inr (Inl CKR_FUNCTION_FAILED) \<or> m1 = dropped (w_mgr w) \<and> r = Inr (Inl CKR_HOST_MEMORY)
     \<or> m1 = unwound (w_mgr w) \<and> r = Inl Internal \<or> (\<exists>x. r = Inr x \<and> operation (w_mgr w, w_backend w) = (x, m1, b1))"
proof -
  obtain w sc where p: "pause s = (w, sc)"
    by (meson surj_pair)
  obtain fate fates where f: "(case sc_fates sc of [] \<Rightarrow> (Completes, []) | f # fs \<Rightarrow> (f, fs)) = (fate, fates)"
    by (meson surj_pair)
  note run = assms [unfolded call_owning_def p f Let_def prod.case]
  show thesis
  proof (cases fate)
    case Completes
    obtain x m b where o: "operation (w_mgr w, w_backend w) = (x, m, b)"
      by (metis prod_cases3)
    then show ?thesis
      using run Completes that [OF p, of b m fates] by simp
  next
    case (TimesOut b)
    then show ?thesis
      using run that [OF p, of b "w_mgr w" fates] by simp
  next
    case BreakerRefuses
    then show ?thesis
      using run that [OF p, of "w_backend w" "dropped (w_mgr w)" fates] by simp
  next
    case PeerRefuses
    then show ?thesis
      using run that [OF p, of "w_backend w" "dropped (w_mgr w)" fates] by simp
  next
    case (Panics b)
    then show ?thesis
      using run that [OF p, of b "unwound (w_mgr w)" fates] by simp
  qed
qed

definition lock_blind :: "(ContextManager \<Rightarrow> 'v) \<Rightarrow> bool" where
  "lock_blind view \<longleftrightarrow>
     (\<forall>m slot. view (lock_slot slot m) = view m \<and> view (unlock_slot slot m) = view m)
     \<and> (\<forall>m led. view (record_unresolved led m) = view m)"

lemma logout_via_kept: "view_kept view s (snd (logout_via be carriers s))"
proof (induction be carriers s rule: logout_via.induct)
  case (2 be via carriers s)
  obtain r s1 where c: "call_backend (be_logout be via) s = (r, s1)"
    by (meson surj_pair)
  note k = view_kept_call [OF c, of view]
  show ?case
  proof (cases "\<exists>rv. r = Inr (Inl rv) \<and> (rv = CKR_SESSION_HANDLE_INVALID \<or> rv = CKR_SESSION_CLOSED)")
    case True
    then obtain rv where rv: "r = Inr (Inl rv)" "rv = CKR_SESSION_HANDLE_INVALID \<or> rv = CKR_SESSION_CLOSED"
      by blast
    have "view_kept view s1 (snd (logout_via be carriers s1))"
      using "2.IH" [OF c [symmetric] rv(1) refl rv(2)] .
    then show ?thesis
      using c rv view_kept_trans [OF k] by simp
  next
    case False
    then show ?thesis
      using c k by (auto split: sum.splits)
  qed
qed simp

lemma transient_carrier_kept:
  assumes "lock_blind view"
  shows "view_kept view s (snd (last_holder_logout_via_transient_carrier be unwound slot departed s))"
proof -
  let ?flags = "if departed = So then session_flags_or RW_SESSION SERIAL_SESSION else SERIAL_SESSION"
  obtain r s1 where c: "call_backend (transient_carrier be slot ?flags) s = (r, s1)"
    by (meson surj_pair)
  note k = view_kept_call [OF c, of view]
  have "view_kept view s (on_mgr (unlock_slot slot \<circ> record_unresolved led) s1)"
    "view_kept view s (on_mgr (unlock_slot slot) s1)" for led
    using assms by (auto intro!: view_kept_trans [OF k view_kept_on_mgr] simp: lock_blind_def)
  then show ?thesis
    using c k by (auto simp: last_holder_logout_via_transient_carrier_def Let_def split: sum.splits)
qed

lemma logout_inner_kept:
  assumes "lock_blind view"
  shows "view_kept view s (snd (backend_logout_if_last_holder_out_inner be unwound slot preferred departed s))"
proof -
  let ?s2 = "on_mgr (lock_slot slot) (pause s)"
  let ?cs = "logout_carriers (mgr_of ?s2) slot preferred"
  have k2: "view_kept view s ?s2"
    using assms by (auto intro!: view_kept_trans [OF view_kept_pause view_kept_on_mgr] simp: lock_blind_def)
  have "view_kept view s (on_mgr (unlock_slot slot) (snd (logout_via be ?cs ?s2)))"
    using assms by (auto intro!: view_kept_trans [OF view_kept_trans [OF k2 logout_via_kept] view_kept_on_mgr]
        simp: lock_blind_def)
  then show ?thesis
    using view_kept_pause [of view s] view_kept_trans [OF k2 transient_carrier_kept [OF assms]]
    by (auto simp: backend_logout_if_last_holder_out_inner_def Let_def split_beta)
qed

lemma logout_after_kept:
  "lock_blind view \<Longrightarrow> view_kept view s (logout_after_close_completion be unwound held completed s)"
  by (auto simp: logout_after_close_completion_def logout_inner_kept split: option.splits)

section \<open>The answer\<close>

text \<open>What nobody else changes meanwhile: the client's sessions, and which slot a number stands for.\<close>

definition close_view ::
  "ClientContextId \<Rightarrow> ContextManager \<Rightarrow> SlotMap \<times> (VirtualHandle, BackendSlotId) hashmap option \<times> (VirtualHandle \<Rightarrow> session_fate)" where
  "close_view cid m =
     (cm_slot_map m, map_option lc_session_slots (hget (cm_contexts m) cid), session_fate_of m cid)"

lemma close_view_blind:
  "touch_blind cid (close_view cid)" "cache_blind (close_view cid)" "lock_blind (close_view cid)"
  by (auto simp: touch_blind_def cache_blind_def lock_blind_def close_view_def client_touch_def session_fate_of_def
      lock_slot_def unlock_slot_def record_unresolved_def fun_eq_iff)

text \<open>The sessions a client has on a slot.\<close>

definition sessions_on :: "ContextManager \<Rightarrow> ClientContextId \<Rightarrow> BackendSlotId \<Rightarrow> VirtualHandle set" where
  "sessions_on m cid slot =
     {vh. \<exists>ctx. hget (cm_contexts m) cid = Some ctx \<and> hget (lc_session_slots ctx) vh = Some slot}"

lemma set_slot_sessions: "client_inv ctx \<Longrightarrow> set (slot_sessions slot ctx) = {vh. hget (lc_session_slots ctx) vh = Some slot}"
  by (force simp: slot_sessions_def hget_eq_Some_iff client_inv_def)

lemma truthful_batch:
  assumes "truthful be" "run_close_batch now be ts mb = (result, mb')"
  shows "result \<noteq> Inl CKR_OK"
proof -
  have "fst (snd (close_members be ts e mb)) \<noteq> Some CKR_OK" if "e \<noteq> Some CKR_OK" for e
    using that
  proof (induction ts arbitrary: e mb)
    case (Cons t ts)
    have "fst (be_close_session be (bh_raw (ct_backend_handle t)) (snd mb)) \<noteq> Inl CKR_OK"
      using truthfulD(2) [OF assms(1)] .
    then show ?case
      using Cons.IH [of "case fst (be_close_session be (bh_raw (ct_backend_handle t)) (snd mb)) of Inl rv \<Rightarrow> Some rv | Inr _ \<Rightarrow> e"]
        Cons.prems
      by (auto simp: split_beta Let_def split: sum.splits)
  qed simp
  then show ?thesis
    using assms(2) by (auto simp: run_close_batch_def split_beta Let_def split: option.splits)
qed

text \<open>One batch, from its suspended members to the answer.\<close>

lemma close_all_batch_spec:
  assumes run: "close_all_batch be cu outcomes held ts skipped s = (r, s')"
    and inv: "manager_inv (mgr_of s)" "rely manager_inv s" "view_stable (close_view cid) s" "truthful be"
    and susp: "\<forall>t \<in> set ts. ct_context_id t = cid
      \<and> session_fate_of (mgr_of s) cid (ct_virtual_session t) = SessionSuspended (ct_backend_handle t)"
  shows "(\<forall>v. v \<notin> members ts \<longrightarrow> session_fate_of (mgr_of s') cid v = session_fate_of (mgr_of s) cid v)
    \<and> (r = Inr CKR_OK \<longrightarrow> skipped = 0 \<and> (\<forall>v \<in> members ts. session_fate_of (mgr_of s') cid v = SessionGone))"
proof (cases "ts = []")
  case True
  then have "s' = logout_after_close_completion be cu held True s" "r = Inr CKR_OK \<Longrightarrow> skipped = 0"
    using run by (auto simp: close_all_batch_def split: if_splits)
  then show ?thesis
    using view_keptD(2) [OF logout_after_kept [OF close_view_blind(3)] inv(3), of be cu held True] True
    by (simp add: close_view_def)
next
  case False
  let ?now = "w_now (fst s)"
  obtain x completed s1 where c: "call_owning (run_close_batch ?now be ts) (drop_transitions ?now ts)
      (unwind_batch ?now ts outcomes) s = (x, completed, s1)"
    by (metis prod_cases3)
  obtain w sc m1 b1 fates where p: "pause s = (w, sc)"
    and s1: "s1 = pause (w\<lparr>w_mgr := m1, w_backend := b1\<rparr>, sc\<lparr>sc_fates := fates\<rparr>)"
    and outcome: "m1 = w_mgr w \<and> x = Inr (Inl CKR_FUNCTION_FAILED)
      \<or> m1 = drop_transitions ?now ts (w_mgr w) \<and> x = Inr (Inl CKR_HOST_MEMORY)
      \<or> m1 = unwind_batch ?now ts outcomes (w_mgr w) \<and> x = Inl Internal
      \<or> (\<exists>y. x = Inr y \<and> run_close_batch ?now be ts (w_mgr w, w_backend w) = (y, m1, b1))"
    using call_owningE [OF c] .
  note pk = view_kept_pause [of "close_view cid" s] and pg = guar_pause [of manager_inv s]
  have w: "manager_inv (w_mgr w)" "session_fate_of (w_mgr w) cid = session_fate_of (mgr_of s) cid"
    using guarD(2) [OF pg inv(2,1)] view_keptD(2) [OF pk inv(3)] p by (simp_all add: mgr_of_def close_view_def)
  have stable: "view_stable (close_view cid) (w\<lparr>w_mgr := m1, w_backend := b1\<rparr>, sc\<lparr>sc_fates := fates\<rparr>)"
    using view_keptD(1) [OF pk inv(3)] p by (simp add: view_stable_def)
  have s1_fate: "session_fate_of (mgr_of s1) cid = session_fate_of m1 cid" "view_stable (close_view cid) s1"
    using view_keptD [OF view_kept_pause stable] s1 by (simp_all add: mgr_of_def close_view_def)
  have sp: "spares cid (members ts) (w_mgr w) m1"
    using outcome by (elim disjE) (auto intro: spares_drops unwind_spares batch_spares)
  have final: "session_fate_of (mgr_of s') cid = session_fate_of m1 cid \<and>
      (r = Inr CKR_OK \<longrightarrow> skipped = 0 \<and> x = Inr (Inr ()))"
  proof (cases x)
    case (Inl st)
    then show ?thesis
      using run c False s1_fate by (auto simp: close_all_batch_def Let_def)
  next
    case (Inr y)
    have "y \<noteq> Inl CKR_OK"
      using outcome Inr truthful_batch [OF inv(4), of ?now ts "(w_mgr w, w_backend w)"] by auto
    moreover have "s' = logout_after_close_completion be cu held completed s1"
      using run c False Inr by (simp add: close_all_batch_def Let_def)
    ultimately show ?thesis
      using run c False Inr s1_fate(1)
        view_keptD(2) [OF logout_after_kept [OF close_view_blind(3)] s1_fate(2), of be cu held completed]
      by (auto simp: close_all_batch_def Let_def close_view_def split: sum.splits if_splits)
  qed
  have "\<forall>v \<in> members ts. session_fate_of m1 cid v = SessionGone" if "x = Inr (Inr ())"
    using outcome that w susp by (intro batch_ok [of ?now be ts "w_mgr w" "w_backend w" m1 b1]) auto
  then show ?thesis
    using final sp w by (auto simp: spares_def)
qed

lemma session_slots_fate:
  assumes "manager_inv m" "vh \<in> sessions_on m cid slot"
  shows "session_fate_of m cid vh \<noteq> SessionGone"
proof -
  obtain ctx where ctx: "hget (cm_contexts m) cid = Some ctx" "hget (lc_session_slots ctx) vh = Some slot"
    using assms(2) by (auto simp: sessions_on_def)
  have "vh \<in> set (hkeys (lc_session_slots ctx))"
    using ctx(2) by (auto simp: set_hkeys)
  then show ?thesis
    using manager_invD(2) [OF assms(1) ctx(1)] ctx(1)
    by (auto simp: client_inv_def session_fate_of_def handle_fate_raw set_hkeys split: option.splits)
qed

lemma sessions_on_view:
  "sessions_on m cid slot =
     (case fst (snd (close_view cid m)) of None \<Rightarrow> {} | Some slots \<Rightarrow> {vh. hget slots vh = Some slot})"
  by (auto simp: sessions_on_def close_view_def split: option.splits)

lemma slot_members:
  assumes "in_context cid (\<lambda>ctx. (slot_sessions slot ctx, ctx)) s = (ms, s')" "manager_inv (mgr_of s')"
  shows "set (case ms of None \<Rightarrow> [] | Some vhs \<Rightarrow> vhs) = sessions_on (mgr_of s') cid slot"
  using assms(1)
proof (cases rule: in_context_mgr)
  case (found ctx x ctx')
  then have "hget (cm_contexts (mgr_of s')) cid = Some ctx'" "ms = Some (slot_sessions slot ctx')"
    by auto
  then show ?thesis
    using set_slot_sessions [of ctx' slot] manager_invD(2) [OF assms(2)] by (auto simp: sessions_on_def)
qed (simp add: sessions_on_def)

text \<open>
  C30.  \<open>CKR_OK\<close> from closing all sessions means all of them are gone.  The client closes the sessions
  of a slot while other tasks do anything that keeps the tables well formed and leaves this client's
  sessions alone; the call into the library may complete, time out, be refused or unwind in the middle of
  the batch.  Sessions on other slots keep their state in every case.  If the answer is \<open>CKR_OK\<close>, then the
  slot number stands for a slot and no session the client had there is left, neither usable nor suspended.
\<close>

theorem close_all_ok_means_gone:
  assumes "close_all_sessions_with_timeout be policy cu outcomes cid slot_id s = (r, s')"
    and "manager_inv (mgr_of s)" "rely manager_inv s" "view_stable (close_view cid) s" "truthful be"
  shows "(\<forall>vh. (\<forall>slot. resolve_slot (mgr_of s) slot_id = Inr slot \<longrightarrow> vh \<notin> sessions_on (mgr_of s) cid slot)
            \<longrightarrow> session_fate_of (mgr_of s') cid vh = session_fate_of (mgr_of s) cid vh)
    \<and> (r = Inr CKR_OK \<longrightarrow>
         (\<exists>slot. resolve_slot (mgr_of s) slot_id = Inr slot
           \<and> (\<forall>vh \<in> sessions_on (mgr_of s) cid slot. session_fate_of (mgr_of s') cid vh = SessionGone)))"
proof -
  obtain found s1 where c1: "context_exists cid s = (found, s1)"
    by (meson surj_pair)
  note v1 = context_exists_kept [OF c1 close_view_blind(1)]
  have rs: "resolve_slot (mgr_of s1) slot_id = resolve_slot (mgr_of s) slot_id"
    using view_keptD(2) [OF v1 assms(4)] by (simp add: close_view_def resolve_slot_def)
  show ?thesis
  proof (cases "\<exists>slot. found \<and> resolve_slot (mgr_of s) slot_id = Inr slot")
    case False
    then have "s' = s1" "r \<noteq> Inr CKR_OK"
      using assms(1) c1 rs
      by (cases found; auto simp: close_all_sessions_with_timeout_def resolve_slot_def split: sum.splits option.splits)+
    then show ?thesis
      using view_keptD(2) [OF v1 assms(4)] by (simp add: close_view_def)
  next
    case True
    then obtain slot where slot: "found" "resolve_slot (mgr_of s) slot_id = Inr slot"
      by blast
    obtain a s2 where c2: "slot_is_authorized be policy cid slot s1 = (a, s2)"
      by (meson surj_pair)
    note v2 = view_kept_trans [OF v1 authorized_kept [OF c2 close_view_blind(1,2)]]
    note g2 = guar_trans [OF context_exists_guar [OF c1] authorized_guar [OF c2]]
    show ?thesis
    proof (cases "a = Inr (Inr True)")
      case False
      have "a \<noteq> Inr (Inl CKR_OK)"
        using authorized_error [OF _ assms(5)] c2 by blast
      then have "s' = s2 \<and> r \<noteq> Inr CKR_OK"
        using assms(1) c1 slot rs c2 False
        by (auto simp: close_all_sessions_with_timeout_def split: sum.splits bool.splits)
      then show ?thesis
        using view_keptD(2) [OF v2 assms(4)] by (simp add: close_view_def)
    next
      case auth: True
      obtain lg s3 where c3: "in_context cid (\<lambda>ctx. (hget (lc_login_state ctx) slot, ctx)) s2 = (lg, s3)"
        by (meson surj_pair)
      obtain ms s4 where c4: "in_context cid (\<lambda>ctx. (slot_sessions slot ctx, ctx)) s3 = (ms, s4)"
        by (meson surj_pair)
      note v4 = view_kept_trans [OF view_kept_trans [OF v2 view_kept_read [OF c3 close_view_blind(1)]]
          view_kept_read [OF c4 close_view_blind(1)]]
      note g4 = guar_trans [OF guar_trans [OF g2 guar_inv_read [OF c3]] guar_inv_read [OF c4]]
      have i4: "manager_inv (mgr_of s4)" "rely manager_inv s4" "view_stable (close_view cid) s4"
        using guarD [OF g4 assms(3,2)] view_keptD(1) [OF v4 assms(4)] by simp_all
      have same: "close_view cid (mgr_of s4) = close_view cid (mgr_of s)"
        using view_keptD(2) [OF v4 assms(4)] .
      let ?vhs = "case ms of None \<Rightarrow> [] | Some vhs \<Rightarrow> vhs"
      have vhs: "set ?vhs = sessions_on (mgr_of s) cid slot"
        using slot_members [OF c4 i4(1)] same by (simp add: sessions_on_view)
      obtain x ts s5 where c5: "begin_batch cid ?vhs [] 0 s4 = (x, ts, s5)"
        by (metis prod_cases3)
      let ?held = "map_option (\<lambda>l. (slot, l)) (Option.bind lg id)"
      have run: "(r, s') = (case x of
          None \<Rightarrow> (Inr CKR_CRYPTOKI_NOT_INITIALIZED, on_mgr (drop_transitions (w_now (fst s5)) ts) s5)
        | Some (ts, skipped) \<Rightarrow> close_all_batch be cu outcomes ?held ts skipped s5)"
        using assms(1) c1 slot rs c2 auth c3 c4 c5
        by (auto simp: close_all_sessions_with_timeout_def split: option.splits)
      have sp: "spares cid (set ?vhs) (mgr_of s4) (mgr_of s5)" "members ts \<subseteq> set ?vhs"
        using begin_batch_spares [OF c5] by auto
      have fate4: "session_fate_of (mgr_of s4) cid = session_fate_of (mgr_of s) cid"
        using same by (simp add: close_view_def)
      show ?thesis
      proof (cases x)
        case None
        then have "r \<noteq> Inr CKR_OK" "mgr_of s' = drop_transitions (w_now (fst s5)) ts (mgr_of s5)"
          using run by auto
        moreover have "spares cid (set ?vhs) (mgr_of s4) (drop_transitions (w_now (fst s5)) ts (mgr_of s5))"
          using spares_trans [OF sp(1) spares_mono [OF spares_drops sp(2)]] .
        ultimately show ?thesis
          using i4(1) vhs slot fate4 by (auto simp: spares_def)
      next
        case (Some p)
        obtain ts' skipped where p: "p = (ts', skipped)"
          by (meson surj_pair)
        obtain new where new: "ts' = [] @ new" "manager_inv (mgr_of s5)" "snd s5 = snd s4"
          "begun_from (mgr_of s4) (mgr_of s5) cid new" "members new \<subseteq> set ?vhs"
          "skipped = 0 \<Longrightarrow> \<forall>v \<in> set ?vhs. v \<in> members new \<or> session_fate_of (mgr_of s4) cid v = SessionGone"
          using begin_batch_spec [OF c5 [unfolded Some p] i4(1)] by auto
        have i5: "rely manager_inv s5" "view_stable (close_view cid) s5"
          using i4(2,3) new(3) by (simp_all add: rely_def view_stable_def)
        have b: "close_all_batch be cu outcomes ?held new skipped s5 = (r, s')"
          using run Some p new(1) by simp
        have "\<forall>t \<in> set new. ct_context_id t = cid
            \<and> session_fate_of (mgr_of s5) cid (ct_virtual_session t) = SessionSuspended (ct_backend_handle t)"
          using new(4) by (simp add: begun_from_def)
        note fin = close_all_batch_spec [OF b new(2) i5 assms(5) this]
        have "session_fate_of (mgr_of s') cid v = session_fate_of (mgr_of s) cid v" if "v \<notin> set ?vhs" for v
        proof -
          have "v \<notin> members new"
            using new(5) that by blast
          then show ?thesis
            using fin new(4) fate4 by (simp add: begun_from_def)
        qed
        moreover have "v \<in> members new" if "r = Inr CKR_OK" "v \<in> set ?vhs" for v
          using fin new(6) that vhs fate4 session_slots_fate [OF assms(2), of v cid slot] by metis
        moreover have "session_fate_of (mgr_of s') cid v = SessionGone" if "r = Inr CKR_OK" "v \<in> members new" for v
          using fin that by blast
        ultimately show ?thesis
          using vhs slot(2) by auto
      qed
    qed
  qed
qed

lemma slotted_run_close_all:
  "fst (close_all_sessions_with_timeout easy_backend no_policy None [] ''ctx'' 1 slotted_run) = Inr CKR_OK"
  by (simp add: slotted_run_eval close_all_sessions_with_timeout_def slot_sessions_def begin_close_session_with_guard_def
      begin_operation_def update_context_def handle_map_suspend_def detach_reverse_def close_all_batch_def call_owning_def
      run_close_batch_def logout_after_close_completion_def transition_settle_def transition_mark_started_def)

theorem close_all_ok_means_gone_witness:
  "VirtualHandle 1 \<in> sessions_on (mgr_of slotted_run) ''ctx'' (BackendSlotId 3)
   \<and> session_fate_of (mgr_of (snd (close_all_sessions_with_timeout easy_backend no_policy None [] ''ctx'' 1 slotted_run)))
       ''ctx'' (VirtualHandle 1) = SessionGone"
proof -
  have "VirtualHandle 1 \<in> sessions_on (mgr_of slotted_run) ''ctx'' (BackendSlotId 3)"
    "resolve_slot (mgr_of slotted_run) 1 = Inr (BackendSlotId 3)"
    by (simp_all add: sessions_on_def slotted_run_eval)
  then show ?thesis
    using close_all_ok_means_gone [of easy_backend no_policy None "[]" "''ctx''" 1 slotted_run,
        OF surjective_pairing slotted_run_hyps easy_truthful] slotted_run_close_all
    by auto
qed

end
