(* ===== verification/Audit_Chain.thy ===== *)
theory Audit_Chain
  imports Rust_Str "HOL-Library.Product_Lexorder" "HOL-Library.List_Lexorder" "HOL-Library.Char_ord" "HOL-Library.Sublist"
begin

text \<open>
  The audit log and its verifier (\<^verbatim>\<open>crates/audit/src\<close>): the record schema, the hash chain, the signed
  checkpoints, and the verification of a directory of rotated log files.

  A directory is a map from file names to contents.  SHA-256, Ed25519 and the JSON library are not part
  of the sources; \<open>AuditLibs\<close> has their functions as fields, and every definition that calls one takes
  it as the argument \<open>L\<close>.  Error messages are left out.
\<close>

section \<open>Records\<close>

datatype EventClass = ClassAuth | ClassKeyMgmt | ClassAdmin | ClassDataPlane | ClassSystem | ClassDeny

definition fail_closed :: "EventClass \<Rightarrow> bool" where
  "fail_closed c \<longleftrightarrow> c \<noteq> ClassDataPlane"

record AuditRecord =
  ar_schema_version :: u32
  ar_seq :: u64
  ar_ts_unix_ms :: u64
  ar_ts_monotonic_ns :: u64
  ar_prev_hash :: string
  ar_request_id :: string
  ar_identity :: "string option"
  ar_method :: string
  ar_class :: EventClass
  ar_slot :: "u64 option"
  ar_session :: "u64 option"
  ar_object_ref :: "string option"
  ar_ck_rv :: u64
  ar_latency_us :: u64
  ar_dropped_count :: "u64 option"

definition AUDIT_SCHEMA_VERSION :: u32 where
  "AUDIT_SCHEMA_VERSION = 2"

definition GAP_SENTINEL_METHOD :: string where
  "GAP_SENTINEL_METHOD = ''__AUDIT_GAP__''"

definition sentinel_dropped_count :: "AuditRecord \<Rightarrow> u64 option" where
  "sentinel_dropped_count r =
     (if ar_method r = GAP_SENTINEL_METHOD \<and> ar_class r = ClassSystem then ar_dropped_count r else None)"

datatype AuditError = Malformed | BadSignature | AuditIo

record Checkpoint =
  cp_seq :: u64
  cp_chain_head_hash :: string
  cp_ts_unix_ms :: u64
  cp_record_count :: u64

record CheckpointLine =
  cl_checkpoint :: Checkpoint
  cl_signature :: string

record AnchorFile =
  an_last_hash :: string
  an_last_seq :: u64
  an_active_bytes :: nat

text \<open>
  The libraries: SHA-256; \<^verbatim>\<open>serde_json\<close> on records, checkpoints, checkpoint lines and anchors, where
  \<open>None\<close> is a text that does not parse; Ed25519 with its test that 32 bytes are a point.
\<close>

record AuditLibs =
  lib_sha256 :: "string \<Rightarrow> u8 list"
  lib_record_out :: "AuditRecord \<Rightarrow> string"
  lib_record_in :: "string \<Rightarrow> AuditRecord option"
  lib_checkpoint_out :: "Checkpoint \<Rightarrow> string"
  lib_line_out :: "CheckpointLine \<Rightarrow> string"
  lib_line_in :: "string \<Rightarrow> CheckpointLine option"
  lib_anchor_out :: "AnchorFile \<Rightarrow> string"
  lib_anchor_in :: "string \<Rightarrow> AnchorFile option"
  lib_ed_public :: "u8 list \<Rightarrow> u8 list"
  lib_ed_point :: "u8 list \<Rightarrow> bool"
  lib_ed_sign :: "u8 list \<Rightarrow> string \<Rightarrow> u8 list"
  lib_ed_verify :: "u8 list \<Rightarrow> string \<Rightarrow> u8 list \<Rightarrow> bool"

definition to_jsonl :: "AuditLibs \<Rightarrow> AuditRecord \<Rightarrow> string" where
  "to_jsonl L r = lib_record_out L r @ [CHR 0x0A]"

definition from_jsonl :: "AuditLibs \<Rightarrow> string \<Rightarrow> AuditError + AuditRecord" where
  "from_jsonl L s =
     (case lib_record_in L (trim_end_matches [CHR 0x0A] s) of None \<Rightarrow> Inl Malformed | Some r \<Rightarrow> Inr r)"

section \<open>The chain\<close>

definition GENESIS_HASH :: string where
  "GENESIS_HASH = replicate 64 (CHR ''0'')"

definition record_hash :: "AuditLibs \<Rightarrow> string \<Rightarrow> AuditRecord \<Rightarrow> string" where
  "record_hash L prev_hash_hex r = hex_encode (lib_sha256 L (prev_hash_hex @ lib_record_out L r))"

record ChainState =
  cs_last_hash :: string
  cs_last_seq :: u64

definition chain_genesis :: ChainState where
  "chain_genesis = \<lparr>cs_last_hash = GENESIS_HASH, cs_last_seq = 0\<rparr>"

text \<open>\<^verbatim>\<open>append\<close> gives the record its number and link; the result has the record and the next state.\<close>

definition chain_append :: "AuditLibs \<Rightarrow> AuditRecord \<Rightarrow> ChainState \<Rightarrow> AuditRecord \<times> ChainState" where
  "chain_append L r c =
     (let r' = r\<lparr>ar_seq := cs_last_seq c, ar_prev_hash := cs_last_hash c\<rparr>
      in (r', \<lparr>cs_last_hash = record_hash L (cs_last_hash c) r', cs_last_seq = cs_last_seq c + 1\<rparr>))"

section \<open>Signed checkpoints\<close>

definition signer_from_seed_bytes :: "u8 list \<Rightarrow> AuditError + u8 list" where
  "signer_from_seed_bytes seed = (if length seed = 32 then Inr seed else Inl Malformed)"

definition sign_checkpoint :: "AuditLibs \<Rightarrow> u8 list \<Rightarrow> Checkpoint \<Rightarrow> string" where
  "sign_checkpoint L key cp = hex_encode (lib_ed_sign L key (lib_checkpoint_out L cp))"

definition public_hex :: "AuditLibs \<Rightarrow> u8 list \<Rightarrow> string" where
  "public_hex L key = hex_encode (lib_ed_public L key)"

definition verifier_from_public_hex :: "AuditLibs \<Rightarrow> string \<Rightarrow> AuditError + u8 list" where
  "verifier_from_public_hex L pub_hex =
     (case hex_decode pub_hex of
        None \<Rightarrow> Inl BadSignature
      | Some bytes \<Rightarrow> if length bytes = 32 \<and> lib_ed_point L bytes then Inr bytes else Inl BadSignature)"

definition verify_checkpoint :: "AuditLibs \<Rightarrow> u8 list \<Rightarrow> Checkpoint \<Rightarrow> string \<Rightarrow> bool" where
  "verify_checkpoint L key cp sig_hex =
     (case hex_decode sig_hex of
        None \<Rightarrow> False
      | Some sig \<Rightarrow> length sig = 64 \<and> lib_ed_verify L key (lib_checkpoint_out L cp) sig)"

section \<open>Replay\<close>

definition MAX_VERIFY_GAPS :: nat where
  "MAX_VERIFY_GAPS = 10000"

definition saturating_add :: "u64 \<Rightarrow> u64 \<Rightarrow> u64" where
  "saturating_add a b = (if unat a + unat b \<ge> 2 ^ 64 then - 1 else a + b)"

definition saturating_sub :: "u64 \<Rightarrow> u64 \<Rightarrow> u64" where
  "saturating_sub a b = (if b \<le> a then a - b else 0)"

record StreamReplay =
  sr_needed :: "u64 set"
  sr_records :: nat
  sr_first_seq :: u64
  sr_last_seq :: u64
  sr_links_ok :: bool
  sr_unordered :: bool
  sr_expected_prev :: "string option"
  sr_prev_seq :: "u64 option"
  sr_gaps :: "u64 list"
  sr_missing_total :: u64
  sr_duplicates :: "u64 list"
  sr_dup_values_total :: u64
  sr_seq_to_hash :: "(u64, string) hashmap"
  sr_seq_to_ts :: "(u64, u64) hashmap"
  sr_dropped_records :: u64

definition replay_new :: "u64 set \<Rightarrow> StreamReplay" where
  "replay_new needed =
     \<lparr>sr_needed = needed, sr_records = 0, sr_first_seq = 0, sr_last_seq = 0, sr_links_ok = True,
      sr_unordered = False, sr_expected_prev = None, sr_prev_seq = None, sr_gaps = [], sr_missing_total = 0,
      sr_duplicates = [], sr_dup_values_total = 0, sr_seq_to_hash = [], sr_seq_to_ts = [], sr_dropped_records = 0\<rparr>"

text \<open>The loop that samples the missing numbers between two neighbours.\<close>

function sample_gaps :: "u64 \<Rightarrow> u64 \<Rightarrow> u64 list \<Rightarrow> u64 list" where
  "sample_gaps s seq gaps =
     (if s < seq \<and> length gaps < MAX_VERIFY_GAPS then sample_gaps (s + 1) seq (gaps @ [s]) else gaps)"
  by auto
termination by (relation "measure (\<lambda>(s, seq, gaps). MAX_VERIFY_GAPS - length gaps)") auto

declare sample_gaps.simps [simp del]

text \<open>The comparison of a record's number with that of the record before it.\<close>

definition check_order :: "u64 \<Rightarrow> u64 \<Rightarrow> StreamReplay \<Rightarrow> StreamReplay" where
  "check_order prev seq s =
     (if seq < prev then s\<lparr>sr_unordered := True\<rparr>
      else if seq = prev then
        (if sr_duplicates s = [] \<or> last (sr_duplicates s) \<noteq> prev
         then s\<lparr>sr_dup_values_total := saturating_add (sr_dup_values_total s) 1,
                sr_duplicates := (if length (sr_duplicates s) < MAX_VERIFY_GAPS
                                  then sr_duplicates s @ [prev] else sr_duplicates s)\<rparr>
         else s)
      else let missing = seq - prev - 1
           in if missing > 0
              then s\<lparr>sr_missing_total := saturating_add (sr_missing_total s) missing,
                     sr_gaps := sample_gaps (prev + 1) seq (sr_gaps s)\<rparr>
              else s)"

definition push_order :: "AuditRecord \<Rightarrow> StreamReplay \<Rightarrow> StreamReplay" where
  "push_order r s =
     (let s1 = (if sr_records s = 0 then s\<lparr>sr_first_seq := ar_seq r, sr_expected_prev := Some (ar_prev_hash r)\<rparr>
                else case sr_prev_seq s of None \<Rightarrow> s | Some prev \<Rightarrow> check_order prev (ar_seq r) s)
      in s1\<lparr>sr_prev_seq := Some (ar_seq r), sr_last_seq := ar_seq r, sr_records := sr_records s1 + 1\<rparr>)"

text \<open>The comparison of its link with the running digest, and the digest after it.\<close>

definition push_link :: "AuditLibs \<Rightarrow> AuditRecord \<Rightarrow> StreamReplay \<Rightarrow> StreamReplay" where
  "push_link L r s =
     (let expected = (case sr_expected_prev s of None \<Rightarrow> [] | Some e \<Rightarrow> e);
          s1 = (if ar_prev_hash r \<noteq> expected then s\<lparr>sr_links_ok := False\<rparr> else s);
          h = record_hash L expected r;
          s2 = (if ar_seq r \<in> sr_needed s1
                then s1\<lparr>sr_seq_to_hash := hput (ar_seq r) h (sr_seq_to_hash s1),
                        sr_seq_to_ts := hput (ar_seq r) (ar_ts_unix_ms r) (sr_seq_to_ts s1)\<rparr>
                else s1)
      in s2\<lparr>sr_expected_prev := Some h\<rparr>)"

definition push_sentinel :: "AuditRecord \<Rightarrow> StreamReplay \<Rightarrow> StreamReplay" where
  "push_sentinel r s =
     (case sentinel_dropped_count r of
        Some n \<Rightarrow> s\<lparr>sr_dropped_records := saturating_add (sr_dropped_records s) n\<rparr>
      | None \<Rightarrow> s)"

definition replay_push :: "AuditLibs \<Rightarrow> AuditRecord \<Rightarrow> StreamReplay \<Rightarrow> StreamReplay" where
  "replay_push L r s = push_sentinel r (push_link L r (push_order r s))"

record ReplayOutcome =
  ro_records :: nat
  ro_first_seq :: u64
  ro_last_seq :: u64
  ro_links_ok :: bool
  ro_contiguous :: bool
  ro_unordered :: bool
  ro_gaps :: "u64 list"
  ro_gaps_truncated :: bool
  ro_duplicates :: "u64 list"
  ro_duplicates_truncated :: bool
  ro_seq_to_hash :: "(u64, string) hashmap"
  ro_seq_to_ts :: "(u64, u64) hashmap"
  ro_head :: string
  ro_dropped_records :: u64

definition replay_finish :: "StreamReplay \<Rightarrow> ReplayOutcome" where
  "replay_finish s =
     \<lparr>ro_records = sr_records s, ro_first_seq = sr_first_seq s, ro_last_seq = sr_last_seq s,
      ro_links_ok = sr_links_ok s, ro_contiguous = (sr_missing_total s = 0), ro_unordered = sr_unordered s,
      ro_gaps = sr_gaps s, ro_gaps_truncated = (unat (sr_missing_total s) > length (sr_gaps s)),
      ro_duplicates = sr_duplicates s,
      ro_duplicates_truncated = (unat (sr_dup_values_total s) > length (sr_duplicates s)),
      ro_seq_to_hash = sr_seq_to_hash s, ro_seq_to_ts = sr_seq_to_ts s,
      ro_head = (case sr_expected_prev s of None \<Rightarrow> GENESIS_HASH | Some h \<Rightarrow> h),
      ro_dropped_records = sr_dropped_records s\<rparr>"

section \<open>The files of a directory\<close>

type_synonym files = "(string, string) hashmap"

definition strip_suffix :: "string \<Rightarrow> string \<Rightarrow> string option" where
  "strip_suffix p s = map_option rev (strip_prefix (rev p) (rev s))"

definition is_ascii_digit :: "char \<Rightarrow> bool" where
  "is_ascii_digit c \<longleftrightarrow> CHR ''0'' \<le> c \<and> c \<le> CHR ''9''"

definition ACTIVE_LOG :: string where
  "ACTIVE_LOG = ''audit.jsonl''"

definition CHECKPOINTS :: string where
  "CHECKPOINTS = ''audit.checkpoints.jsonl''"

definition ANCHOR :: string where
  "ANCHOR = ''audit.anchor.json''"

text \<open>The part of a name between \<^verbatim>\<open>audit.\<close> and \<^verbatim>\<open>.jsonl\<close>.\<close>

definition rotation_digits :: "string \<Rightarrow> string option" where
  "rotation_digits name = Option.bind (strip_prefix ''audit.'' name) (strip_suffix ''.jsonl'')"

definition is_audit_log :: "string \<Rightarrow> bool" where
  "is_audit_log name \<longleftrightarrow>
     name = ACTIVE_LOG
     \<or> (case rotation_digits name of None \<Rightarrow> False | Some digits \<Rightarrow> digits \<noteq> [] \<and> list_all is_ascii_digit digits)"

definition log_file_order_key :: "string \<Rightarrow> nat \<times> nat \<times> string" where
  "log_file_order_key name =
     (if name = ACTIVE_LOG then (1, 0, [])
      else let digits = (case rotation_digits name of None \<Rightarrow> [] | Some digits \<Rightarrow> digits)
           in (0, length digits, digits))"

definition collect_log_files :: "files \<Rightarrow> string list" where
  "collect_log_files files = sort_key log_file_order_key (filter is_audit_log (hkeys files))"

text \<open>
  The lines of a text, as the standard library has them: a line ends at a line feed, which a carriage
  return may precede, and the last line may lack its line feed.
\<close>

fun lines_from :: "string \<Rightarrow> string \<Rightarrow> string list" where
  "lines_from acc [] = (if acc = [] then [] else [rev acc])"
| "lines_from acc (c # cs) =
     (if c = CHR 0x0A then rev (if acc \<noteq> [] \<and> hd acc = CHR 0x0D then tl acc else acc) # lines_from [] cs
      else lines_from (c # acc) cs)"

definition lines_of :: "string \<Rightarrow> string list" where
  "lines_of s = lines_from [] s"

text \<open>The length of the UTF-8 character that bytes start with, and whether bytes are a sequence of such.\<close>

definition byte_in :: "nat \<Rightarrow> nat \<Rightarrow> char \<Rightarrow> bool" where
  "byte_in lo hi c \<longleftrightarrow> lo \<le> of_char c \<and> (of_char c :: nat) \<le> hi"

definition second_of_three :: "char \<Rightarrow> char \<Rightarrow> bool" where
  "second_of_three a b \<longleftrightarrow>
     byte_in (if byte_in 0xE0 0xE0 a then 0xA0 else 0x80) (if byte_in 0xED 0xED a then 0x9F else 0xBF) b"

definition second_of_four :: "char \<Rightarrow> char \<Rightarrow> bool" where
  "second_of_four a b \<longleftrightarrow>
     byte_in (if byte_in 0xF0 0xF0 a then 0x90 else 0x80) (if byte_in 0xF4 0xF4 a then 0x8F else 0xBF) b"

definition utf8_len :: "char \<Rightarrow> nat" where
  "utf8_len a =
     (if byte_in 0x00 0x7F a then 1 else if byte_in 0xC2 0xDF a then 2
      else if byte_in 0xE0 0xEF a then 3 else if byte_in 0xF0 0xF4 a then 4 else 0)"

fun utf8_rest :: "string \<Rightarrow> bool" where
  "utf8_rest [a] = True"
| "utf8_rest [a, b] = byte_in 0x80 0xBF b"
| "utf8_rest [a, b, c] = (second_of_three a b \<and> byte_in 0x80 0xBF c)"
| "utf8_rest [a, b, c, d] = (second_of_four a b \<and> byte_in 0x80 0xBF c \<and> byte_in 0x80 0xBF d)"
| "utf8_rest _ = False"

definition utf8_char :: "string \<Rightarrow> nat option" where
  "utf8_char s =
     (let n = (case s of [] \<Rightarrow> 0 | a # _ \<Rightarrow> utf8_len a)
      in if 0 < n \<and> n \<le> length s \<and> utf8_rest (take n s) then Some n else None)"

lemma utf8_char_bounds: "utf8_char s = Some n \<Longrightarrow> 0 < n \<and> n \<le> length s"
  by (auto simp: utf8_char_def Let_def split: if_splits)

function utf8 :: "string \<Rightarrow> bool" where
  "utf8 s \<longleftrightarrow> s = [] \<or> (case utf8_char s of None \<Rightarrow> False | Some n \<Rightarrow> utf8 (drop n s))"
  by auto
termination by (relation "measure length") (auto dest: utf8_char_bounds)

declare utf8.simps [simp del]

text \<open>
  The values of the lines of a file; the first line that cannot be read or does not parse ends the
  reading.  Both the log files and the checkpoint file are read this way.
\<close>

fun stream_values :: "(string \<Rightarrow> AuditError + 'a) \<Rightarrow> string list \<Rightarrow> AuditError + 'a list" where
  "stream_values parse [] = Inr []"
| "stream_values parse (l # ls) =
     (if \<not> utf8 l then Inl AuditIo
      else if l = [] then stream_values parse ls
      else case parse l of
        Inl e \<Rightarrow> Inl e
      | Inr v \<Rightarrow> (case stream_values parse ls of Inl e \<Rightarrow> Inl e | Inr vs \<Rightarrow> Inr (v # vs)))"

definition check_schema_version :: "AuditRecord \<Rightarrow> AuditError + AuditRecord" where
  "check_schema_version r = (if ar_schema_version r \<noteq> AUDIT_SCHEMA_VERSION then Inl Malformed else Inr r)"

definition parse_checked :: "AuditLibs \<Rightarrow> string \<Rightarrow> AuditError + AuditRecord" where
  "parse_checked L l = (case from_jsonl L l of Inl e \<Rightarrow> Inl e | Inr r \<Rightarrow> check_schema_version r)"

definition stream_file_records :: "AuditLibs \<Rightarrow> string \<Rightarrow> AuditError + AuditRecord list" where
  "stream_file_records L content = stream_values (parse_checked L) (lines_of content)"

text \<open>The records of all log files, oldest file first.\<close>

fun stream_files :: "AuditLibs \<Rightarrow> files \<Rightarrow> string list \<Rightarrow> AuditError + AuditRecord list" where
  "stream_files L files [] = Inr []"
| "stream_files L files (name # names) =
     (case hget files name of
        None \<Rightarrow> Inl AuditIo
      | Some content \<Rightarrow>
          (case stream_file_records L content of
             Inl e \<Rightarrow> Inl e
           | Inr rs \<Rightarrow> (case stream_files L files names of Inl e \<Rightarrow> Inl e | Inr rs' \<Rightarrow> Inr (rs @ rs'))))"

section \<open>Checkpoints and the anchor\<close>

record CheckpointSidecar =
  sc_lines :: "CheckpointLine list"
  sc_verifier :: "u8 list option"
  sc_signature_checked :: bool
  sc_missing :: bool

definition needed_seqs :: "CheckpointSidecar \<Rightarrow> u64 set" where
  "needed_seqs sc = set (map (cp_seq \<circ> cl_checkpoint) (sc_lines sc))"

definition parse_line :: "AuditLibs \<Rightarrow> string \<Rightarrow> AuditError + CheckpointLine" where
  "parse_line L l = (case lib_line_in L l of None \<Rightarrow> Inl Malformed | Some cl \<Rightarrow> Inr cl)"

definition read_checkpoint_sidecar :: "AuditLibs \<Rightarrow> files \<Rightarrow> string option \<Rightarrow> AuditError + CheckpointSidecar" where
  "read_checkpoint_sidecar L files public_key_hex =
     (case hget files CHECKPOINTS of
        None \<Rightarrow> Inr \<lparr>sc_lines = [], sc_verifier = None, sc_signature_checked = (public_key_hex \<noteq> None), sc_missing = True\<rparr>
      | Some content \<Rightarrow>
          (case (case public_key_hex of
                   None \<Rightarrow> Inr None
                 | Some pub \<Rightarrow> map_sum id Some (verifier_from_public_hex L pub)) of
             Inl e \<Rightarrow> Inl e
           | Inr verifier \<Rightarrow>
               (case stream_values (parse_line L) (lines_of content) of
                  Inl e \<Rightarrow> Inl e
                | Inr ls \<Rightarrow> Inr \<lparr>sc_lines = ls, sc_verifier = verifier,
                                sc_signature_checked = (verifier \<noteq> None), sc_missing = False\<rparr>)))"

text \<open>Whether a checkpoint lies in the retained range, and whether it is signed and bound to the log.\<close>

definition in_range :: "ReplayOutcome \<Rightarrow> Checkpoint \<Rightarrow> bool" where
  "in_range ro cp \<longleftrightarrow> ro_records ro > 0 \<and> ro_first_seq ro \<le> cp_seq cp \<and> cp_seq cp \<le> ro_last_seq ro"

definition checkpoint_binds :: "AuditLibs \<Rightarrow> u8 list option \<Rightarrow> ReplayOutcome \<Rightarrow> CheckpointLine \<Rightarrow> bool" where
  "checkpoint_binds L verifier ro cl =
     (let cp = cl_checkpoint cl;
          sig_ok = (case verifier of None \<Rightarrow> True | Some v \<Rightarrow> verify_checkpoint L v cp (cl_signature cl));
          count_ok = (saturating_sub (cp_record_count cp) 1 \<le> cp_seq cp);
          ts_ok = (case hget (ro_seq_to_ts ro) (cp_seq cp) of None \<Rightarrow> False | Some ts \<Rightarrow> ts \<le> cp_ts_unix_ms cp);
          hash_ok = (hget (ro_seq_to_hash ro) (cp_seq cp) = Some (cp_chain_head_hash cp))
      in sig_ok \<and> hash_ok \<and> count_ok \<and> ts_ok)"

text \<open>The numbers of checkpoints verified and failed, and whether signatures were checked.\<close>

definition eval_checkpoints :: "AuditLibs \<Rightarrow> CheckpointSidecar \<Rightarrow> ReplayOutcome \<Rightarrow> nat \<times> nat \<times> bool" where
  "eval_checkpoints L sc ro =
     (if sc_missing sc then
        (if sc_signature_checked sc \<and> ro_records ro > 0 then (0, 1, True) else (0, 0, sc_signature_checked sc))
      else
        let evaluated = filter (in_range ro \<circ> cl_checkpoint) (sc_lines sc);
            verified = length (filter (checkpoint_binds L (sc_verifier sc) ro) evaluated);
            failed = length (filter (\<lambda>cl. \<not> checkpoint_binds L (sc_verifier sc) ro cl) evaluated);
            nothing_bound = (sc_verifier sc \<noteq> None \<and> ro_records ro > 0 \<and> evaluated = [])
        in (verified, failed + (if nothing_bound then 1 else 0), sc_signature_checked sc))"

definition check_anchor :: "AuditLibs \<Rightarrow> files \<Rightarrow> ReplayOutcome \<Rightarrow> AuditError + bool" where
  "check_anchor L files ro =
     (case hget files ANCHOR of
        None \<Rightarrow> Inr (ro_records ro = 0)
      | Some content \<Rightarrow>
          (case lib_anchor_in L content of
             None \<Rightarrow> Inl Malformed
           | Some a \<Rightarrow>
               if ro_records ro = 0 then Inr (an_last_hash a = GENESIS_HASH \<and> an_last_seq a = 0)
               else if ro_last_seq ro = - 1 then Inl Malformed
               else Inr (an_last_hash a = ro_head ro \<and> an_last_seq a = ro_last_seq ro + 1)))"

section \<open>The verifier\<close>

record VerifyReport =
  vr_files :: nat
  vr_records :: nat
  vr_first_seq :: u64
  vr_last_seq :: u64
  vr_chain_ok :: bool
  vr_unordered :: bool
  vr_gaps :: "u64 list"
  vr_gaps_truncated :: bool
  vr_duplicate_seqs :: "u64 list"
  vr_duplicates_truncated :: bool
  vr_checkpoints_verified :: nat
  vr_checkpoints_failed :: nat
  vr_signature_checked :: bool
  vr_head_matches_anchor :: bool
  vr_dropped_records :: u64

definition replay :: "AuditLibs \<Rightarrow> u64 set \<Rightarrow> AuditRecord list \<Rightarrow> ReplayOutcome" where
  "replay L needed rs = replay_finish (fold (replay_push L) rs (replay_new needed))"

definition verify_dir :: "AuditLibs \<Rightarrow> files \<Rightarrow> string option \<Rightarrow> AuditError + VerifyReport" where
  "verify_dir L files public_key_hex =
     (let log_files = collect_log_files files
      in case read_checkpoint_sidecar L files public_key_hex of
        Inl e \<Rightarrow> Inl e
      | Inr sidecar \<Rightarrow>
          (case stream_files L files log_files of
             Inl e \<Rightarrow> Inl e
           | Inr rs \<Rightarrow>
               (let ro = replay L (needed_seqs sidecar) rs;
                    (verified, failed, signature_checked) = eval_checkpoints L sidecar ro
                in case check_anchor L files ro of
                     Inl e \<Rightarrow> Inl e
                   | Inr head_matches_anchor \<Rightarrow>
                       Inr \<lparr>vr_files = length log_files, vr_records = ro_records ro,
                            vr_first_seq = ro_first_seq ro, vr_last_seq = ro_last_seq ro,
                            vr_chain_ok = (ro_links_ok ro \<and> ro_contiguous ro \<and> ro_duplicates ro = []
                                           \<and> \<not> ro_duplicates_truncated ro \<and> \<not> ro_unordered ro
                                           \<and> failed = 0 \<and> head_matches_anchor),
                            vr_unordered = ro_unordered ro, vr_gaps = ro_gaps ro,
                            vr_gaps_truncated = ro_gaps_truncated ro,
                            vr_duplicate_seqs = ro_duplicates ro,
                            vr_duplicates_truncated = ro_duplicates_truncated ro,
                            vr_checkpoints_verified = verified, vr_checkpoints_failed = failed,
                            vr_signature_checked = signature_checked,
                            vr_head_matches_anchor = head_matches_anchor,
                            vr_dropped_records = ro_dropped_records ro\<rparr>)))"

section \<open>Linked records\<close>

text \<open>
  A list of records is linked after the digest \<open>h\<close> from the number \<open>s\<close> on when every record has the next
  number, which does not wrap around, and the digest of the record before it.
\<close>

fun linked :: "AuditLibs \<Rightarrow> string \<Rightarrow> u64 \<Rightarrow> AuditRecord list \<Rightarrow> bool" where
  "linked L h s [] = True"
| "linked L h s (r # rs) \<longleftrightarrow>
     ar_prev_hash r = h \<and> ar_seq r = s \<and> (rs = [] \<or> s \<noteq> - 1) \<and> linked L (record_hash L h r) (s + 1) rs"

fun head_after :: "AuditLibs \<Rightarrow> string \<Rightarrow> AuditRecord list \<Rightarrow> string" where
  "head_after L h [] = h"
| "head_after L h (r # rs) = head_after L (record_hash L h r) rs"

lemma head_after_append [simp]: "head_after L h (xs @ ys) = head_after L (head_after L h xs) ys"
  by (induction xs arbitrary: h) auto

lemma linked_snoc:
  "linked L h s (rs @ [r]) \<longleftrightarrow>
     linked L h s rs \<and> ar_prev_hash r = head_after L h rs \<and> ar_seq r = s + of_nat (length rs)
     \<and> (rs \<noteq> [] \<longrightarrow> ar_seq (last rs) \<noteq> - 1)"
  by (induction rs arbitrary: h s) (auto simp: algebra_simps)

lemma linked_appendD1: "linked L h s (xs @ ys) \<Longrightarrow> linked L h s xs"
  by (induction xs arbitrary: h s) auto

lemma linked_appendD2:
  "linked L h s (xs @ ys) \<Longrightarrow> linked L (head_after L h xs) (s + of_nat (length xs)) ys"
proof (induction xs arbitrary: h s)
  case (Cons r xs)
  then have "linked L (head_after L (record_hash L h r) xs) (s + 1 + of_nat (length xs)) ys" by simp
  then show ?case by (simp add: add.assoc)
qed simp

lemma linked_last_seq:
  "linked L h s rs \<Longrightarrow> rs \<noteq> [] \<Longrightarrow> ar_seq (last rs) = s + of_nat (length rs - 1)"
  by (induction rs rule: rev_induct) (auto simp: linked_snoc)

lemma linked_seq_nth:
  assumes "linked L h s rs" "i < length rs"
  shows "unat (ar_seq (rs ! i)) = unat s + i"
  using assms
proof (induction rs arbitrary: h s i)
  case (Cons r rs)
  show ?case
  proof (cases i)
    case (Suc j)
    with Cons.prems have j: "j < length rs" and s: "s \<noteq> - 1" by auto
    from s have "unat (s + 1) = unat s + 1" by (simp add: unat_add_one)
    moreover have "unat (ar_seq (rs ! j)) = unat (s + 1) + j"
      using Cons.prems j by (intro Cons.IH) auto
    ultimately show ?thesis using Suc by simp
  qed (use Cons.prems in simp)
qed simp

lemma linked_distinct: "linked L h s rs \<Longrightarrow> distinct (map ar_seq rs)"
  unfolding distinct_conv_nth by (auto dest: linked_seq_nth) (metis add_left_cancel linked_seq_nth)

section \<open>What a replay computes\<close>

definition replayed :: "AuditLibs \<Rightarrow> u64 set \<Rightarrow> AuditRecord list \<Rightarrow> StreamReplay" where
  "replayed L needed rs = fold (replay_push L) rs (replay_new needed)"

lemma replayed_Nil [simp]: "replayed L needed [] = replay_new needed"
  by (simp add: replayed_def)

lemma replayed_snoc [simp]: "replayed L needed (rs @ [r]) = replay_push L r (replayed L needed rs)"
  by (simp add: replayed_def)

text \<open>No finding so far.\<close>

definition clean :: "StreamReplay \<Rightarrow> bool" where
  "clean s \<longleftrightarrow>
     sr_links_ok s \<and> \<not> sr_unordered s \<and> sr_missing_total s = 0 \<and> sr_duplicates s = [] \<and> sr_dup_values_total s = 0"

lemma saturating_add_eq_0: "saturating_add a b = 0 \<longleftrightarrow> a = 0 \<and> b = 0"
proof -
  have "unat (a + b) = unat a + unat b" if "unat a + unat b < 2 ^ 64"
    using that by (simp add: unat_word_ariths)
  then show ?thesis
    by (auto simp: saturating_add_def unat_eq_zero[symmetric] u64_max_eq simp del: unat_eq_zero)
qed

lemma check_order_fields [simp]:
  "sr_needed (check_order p q s) = sr_needed s" "sr_records (check_order p q s) = sr_records s"
  "sr_first_seq (check_order p q s) = sr_first_seq s" "sr_last_seq (check_order p q s) = sr_last_seq s"
  "sr_links_ok (check_order p q s) = sr_links_ok s" "sr_expected_prev (check_order p q s) = sr_expected_prev s"
  "sr_prev_seq (check_order p q s) = sr_prev_seq s" "sr_seq_to_hash (check_order p q s) = sr_seq_to_hash s"
  "sr_seq_to_ts (check_order p q s) = sr_seq_to_ts s" "sr_dropped_records (check_order p q s) = sr_dropped_records s"
  by (simp_all add: check_order_def Let_def)

lemma check_order_clean: "clean (check_order p q s) \<longleftrightarrow> clean s \<and> p \<noteq> - 1 \<and> q = p + 1"
proof -
  have "q < p \<or> q = p \<or> p < q" by auto
  moreover have "q - p - 1 = 0 \<longleftrightarrow> q = p + 1" by (auto simp: algebra_simps)
  moreover have "p < q \<Longrightarrow> p \<noteq> - 1"
    by auto
  moreover have "p \<noteq> - 1 \<Longrightarrow> p < p + 1" by (rule word_add_one_gt)
  ultimately show ?thesis
    by (auto simp: check_order_def clean_def Let_def saturating_add_eq_0 MAX_VERIFY_GAPS_def word_gt_0)
qed

definition expected_prev :: "AuditRecord \<Rightarrow> StreamReplay \<Rightarrow> string" where
  "expected_prev r s =
     (if sr_records s = 0 then ar_prev_hash r else case sr_expected_prev s of None \<Rightarrow> [] | Some e \<Rightarrow> e)"

lemma push_sentinel_fields [simp]:
  "sr_needed (push_sentinel r s) = sr_needed s" "sr_records (push_sentinel r s) = sr_records s"
  "sr_first_seq (push_sentinel r s) = sr_first_seq s" "sr_last_seq (push_sentinel r s) = sr_last_seq s"
  "sr_prev_seq (push_sentinel r s) = sr_prev_seq s" "sr_expected_prev (push_sentinel r s) = sr_expected_prev s"
  "sr_seq_to_hash (push_sentinel r s) = sr_seq_to_hash s" "sr_seq_to_ts (push_sentinel r s) = sr_seq_to_ts s"
  "sr_gaps (push_sentinel r s) = sr_gaps s" "sr_missing_total (push_sentinel r s) = sr_missing_total s"
  "clean (push_sentinel r s) \<longleftrightarrow> clean s"
  by (simp_all add: push_sentinel_def clean_def split: option.split)

lemma push_link_fields [simp]:
  "sr_needed (push_link L r s) = sr_needed s" "sr_records (push_link L r s) = sr_records s"
  "sr_first_seq (push_link L r s) = sr_first_seq s" "sr_last_seq (push_link L r s) = sr_last_seq s"
  "sr_prev_seq (push_link L r s) = sr_prev_seq s"
  "sr_gaps (push_link L r s) = sr_gaps s" "sr_missing_total (push_link L r s) = sr_missing_total s"
  by (simp_all add: push_link_def Let_def)

lemma push_link_clean:
  "clean (push_link L r s) \<longleftrightarrow> clean s \<and> ar_prev_hash r = (case sr_expected_prev s of None \<Rightarrow> [] | Some e \<Rightarrow> e)"
  by (auto simp: push_link_def clean_def Let_def)

lemma push_order_fields [simp]:
  "sr_needed (push_order r s) = sr_needed s" "sr_records (push_order r s) = Suc (sr_records s)"
  "sr_first_seq (push_order r s) = (if sr_records s = 0 then ar_seq r else sr_first_seq s)"
  "sr_last_seq (push_order r s) = ar_seq r" "sr_prev_seq (push_order r s) = Some (ar_seq r)"
  "sr_seq_to_hash (push_order r s) = sr_seq_to_hash s" "sr_seq_to_ts (push_order r s) = sr_seq_to_ts s"
  by (simp_all add: push_order_def Let_def split: option.split)

lemma push_order_expected:
  "(case sr_expected_prev (push_order r s) of None \<Rightarrow> [] | Some e \<Rightarrow> e) = expected_prev r s"
  by (simp add: push_order_def expected_prev_def Let_def split: option.split)

lemma replay_push_fields [simp]:
  "sr_needed (replay_push L r s) = sr_needed s"
  "sr_records (replay_push L r s) = Suc (sr_records s)"
  "sr_first_seq (replay_push L r s) = (if sr_records s = 0 then ar_seq r else sr_first_seq s)"
  "sr_last_seq (replay_push L r s) = ar_seq r"
  "sr_prev_seq (replay_push L r s) = Some (ar_seq r)"
  by (simp_all add: replay_push_def)

lemma replay_push_hashes:
  "sr_expected_prev (replay_push L r s) = Some (record_hash L (expected_prev r s) r)"
  "sr_seq_to_hash (replay_push L r s) =
     (if ar_seq r \<in> sr_needed s then hput (ar_seq r) (record_hash L (expected_prev r s) r) (sr_seq_to_hash s)
      else sr_seq_to_hash s)"
  "sr_seq_to_ts (replay_push L r s) =
     (if ar_seq r \<in> sr_needed s then hput (ar_seq r) (ar_ts_unix_ms r) (sr_seq_to_ts s) else sr_seq_to_ts s)"
  by (simp_all add: replay_push_def push_link_def push_order_expected Let_def)

lemma replay_push_clean:
  "clean (replay_push L r s) \<longleftrightarrow>
     ar_prev_hash r = expected_prev r s
     \<and> (if sr_records s = 0 then clean s
        else case sr_prev_seq s of None \<Rightarrow> clean s | Some p \<Rightarrow> clean (check_order p (ar_seq r) s))"
proof -
  have "clean (push_order r s) \<longleftrightarrow>
     (if sr_records s = 0 then clean s
      else case sr_prev_seq s of None \<Rightarrow> clean s | Some p \<Rightarrow> clean (check_order p (ar_seq r) s))"
    by (simp add: push_order_def Let_def clean_def split: option.split)
  then show ?thesis by (auto simp: replay_push_def push_link_clean push_order_expected)
qed

lemma replay_push_missing:
  "sr_gaps (replay_push L r s) = (if sr_records s = 0 then sr_gaps s
     else case sr_prev_seq s of None \<Rightarrow> sr_gaps s | Some p \<Rightarrow> sr_gaps (check_order p (ar_seq r) s))"
  "sr_missing_total (replay_push L r s) = (if sr_records s = 0 then sr_missing_total s
     else case sr_prev_seq s of None \<Rightarrow> sr_missing_total s | Some p \<Rightarrow> sr_missing_total (check_order p (ar_seq r) s))"
  by (simp_all add: replay_push_def push_order_def Let_def split: option.split)

lemma replayed_fields [simp]:
  "sr_needed (replayed L needed rs) = needed"
  "sr_records (replayed L needed rs) = length rs"
  by (induction rs rule: rev_induct) (simp_all add: replay_new_def)

lemma replayed_ends [simp]:
  assumes "rs \<noteq> []"
  shows "sr_first_seq (replayed L needed rs) = ar_seq (hd rs)"
    and "sr_last_seq (replayed L needed rs) = ar_seq (last rs)"
    and "sr_prev_seq (replayed L needed rs) = Some (ar_seq (last rs))"
    and "sr_expected_prev (replayed L needed rs) = Some (head_after L (ar_prev_hash (hd rs)) rs)"
  using assms
  by (induction rs rule: rev_induct) (auto simp: replay_push_hashes expected_prev_def hd_append)

lemma replayed_clean:
  "clean (replayed L needed rs) \<longleftrightarrow> linked L (ar_prev_hash (hd rs)) (ar_seq (hd rs)) rs"
proof (induction rs rule: rev_induct)
  case Nil
  show ?case by (simp add: clean_def replay_new_def)
next
  case (snoc r rs)
  show ?case
  proof (cases "rs = []")
    case True
    then show ?thesis
      using replayed_snoc[of L needed "[]" r]
      by (simp add: replay_push_clean replay_new_def expected_prev_def) (simp add: clean_def)
  next
    case False
    have "ar_seq (last rs) + 1 = ar_seq (hd rs) + of_nat (length rs)"
      if "linked L (ar_prev_hash (hd rs)) (ar_seq (hd rs)) rs"
      using linked_last_seq[OF that False] False by (cases "length rs") simp_all
    with False snoc show ?thesis
      by (auto simp: replay_push_clean check_order_clean linked_snoc expected_prev_def)
  qed
qed

text \<open>The digest and time kept for a number are those of the last record that has it.\<close>

lemma replayed_bound:
  assumes "ar_seq r \<notin> ar_seq ` set ys" "ar_seq r \<in> needed"
  shows "hget (sr_seq_to_hash (replayed L needed (xs @ r # ys))) (ar_seq r)
           = Some (head_after L (ar_prev_hash (hd (xs @ [r]))) (xs @ [r]))"
    and "hget (sr_seq_to_ts (replayed L needed (xs @ r # ys))) (ar_seq r) = Some (ar_ts_unix_ms r)"
proof -
  have "hget (sr_seq_to_hash (replayed L needed (xs @ r # ys))) (ar_seq r)
          = Some (head_after L (ar_prev_hash (hd (xs @ [r]))) (xs @ [r]))
        \<and> hget (sr_seq_to_ts (replayed L needed (xs @ r # ys))) (ar_seq r) = Some (ar_ts_unix_ms r)"
    using assms(1)
  proof (induction ys rule: rev_induct)
    case Nil
    show ?case
      using assms(2) replayed_snoc[of L needed xs r]
      by (cases "xs = []") (auto simp: replay_push_hashes expected_prev_def replay_new_def)
  next
    case (snoc y ys)
    then show ?case using replayed_snoc[of L needed "xs @ r # ys" y] by (auto simp: replay_push_hashes)
  qed
  then show "hget (sr_seq_to_hash (replayed L needed (xs @ r # ys))) (ar_seq r)
           = Some (head_after L (ar_prev_hash (hd (xs @ [r]))) (xs @ [r]))"
    and "hget (sr_seq_to_ts (replayed L needed (xs @ r # ys))) (ar_seq r) = Some (ar_ts_unix_ms r)"
    by simp_all
qed

lemma replay_fields [simp]:
  "ro_records (replay L needed rs) = length rs"
  "ro_seq_to_hash (replay L needed rs) = sr_seq_to_hash (replayed L needed rs)"
  "ro_seq_to_ts (replay L needed rs) = sr_seq_to_ts (replayed L needed rs)"
  by (simp_all add: replay_def replay_finish_def replayed_def[symmetric])

lemma replay_ends [simp]:
  assumes "rs \<noteq> []"
  shows "ro_first_seq (replay L needed rs) = ar_seq (hd rs)"
    and "ro_last_seq (replay L needed rs) = ar_seq (last rs)"
    and "ro_head (replay L needed rs) = head_after L (ar_prev_hash (hd rs)) rs"
  using assms by (simp_all add: replay_def replay_finish_def replayed_def[symmetric])

lemma replay_faultless:
  "ro_links_ok ro \<and> ro_contiguous ro \<and> ro_duplicates ro = [] \<and> \<not> ro_duplicates_truncated ro \<and> \<not> ro_unordered ro
     \<longleftrightarrow> linked L (ar_prev_hash (hd rs)) (ar_seq (hd rs)) rs"
  if "ro = replay L needed rs"
  unfolding replayed_clean[of L needed, symmetric] that
  by (auto simp: replay_def replay_finish_def replayed_def[symmetric] clean_def unat_eq_zero)

section \<open>When a directory verifies\<close>

lemma verify_dir_ok_iff:
  "(\<exists>rep. verify_dir L files key = Inr rep \<and> vr_chain_ok rep) \<longleftrightarrow>
     (\<exists>sc rs. read_checkpoint_sidecar L files key = Inr sc
        \<and> stream_files L files (collect_log_files files) = Inr rs
        \<and> linked L (ar_prev_hash (hd rs)) (ar_seq (hd rs)) rs
        \<and> fst (snd (eval_checkpoints L sc (replay L (needed_seqs sc) rs))) = 0
        \<and> check_anchor L files (replay L (needed_seqs sc) rs) = Inr True)"
proof -
  have "(\<exists>rep. (case check_anchor L files ro of
                  Inl e \<Rightarrow> Inl e
                | Inr b \<Rightarrow> Inr (f b)) = Inr rep \<and> P rep)
          \<longleftrightarrow> (\<exists>b. check_anchor L files ro = Inr b \<and> P (f b))" for ro and f :: "bool \<Rightarrow> VerifyReport" and P
    by (cases "check_anchor L files ro") auto
  note anchored = this
  show ?thesis
    unfolding verify_dir_def Let_def
    by (auto simp: anchored intro: replay_faultless[THEN iffD1, OF refl]
        dest: replay_faultless[THEN iffD2, OF refl] split: sum.split prod.split)
qed

section \<open>Tamper evidence\<close>

text \<open>
  Two lists of records show a collision when different records of theirs have the same digest.  Linked
  lists that end in the same digest and show no collision agree from the end on.
\<close>

definition collision :: "AuditLibs \<Rightarrow> AuditRecord list \<Rightarrow> AuditRecord list \<Rightarrow> bool" where
  "collision L rs gs \<longleftrightarrow>
     (\<exists>r \<in> set rs. \<exists>g \<in> set gs. r \<noteq> g \<and> record_hash L (ar_prev_hash r) r = record_hash L (ar_prev_hash g) g)"

lemma collision_mono:
  "collision L rs gs \<Longrightarrow> set rs \<subseteq> set rs' \<Longrightarrow> set gs \<subseteq> set gs' \<Longrightarrow> collision L rs' gs'"
  unfolding collision_def by blast

lemma linked_agree:
  assumes "linked L h s rs" "linked L h' s' gs" "length rs \<le> length gs"
    and "head_after L h rs = head_after L h' gs" "\<not> collision L rs gs"
  shows "suffix rs gs"
  using assms
proof (induction rs arbitrary: gs rule: rev_induct)
  case (snoc r rs)
  then obtain gs' g where gs: "gs = gs' @ [g]" by (cases gs rule: rev_cases) auto
  from snoc.prems gs have prev: "ar_prev_hash r = head_after L h rs" "ar_prev_hash g = head_after L h' gs'"
    by (auto simp: linked_snoc)
  with snoc.prems(4,5) gs have "r = g" by (auto simp: collision_def)
  with prev have "head_after L h rs = head_after L h' gs'" by simp
  moreover from snoc.prems gs have "\<not> collision L rs gs'"
    using collision_mono[of L rs gs' "rs @ [r]" gs] by auto
  ultimately have "suffix rs gs'"
    using snoc.IH[of gs'] snoc.prems gs by (auto simp: linked_snoc)
  with \<open>r = g\<close> gs show ?case by (auto simp: suffix_def)
qed simp

lemma linked_length:
  assumes "linked L h s rs" "rs \<noteq> []"
  shows "unat (ar_seq (last rs)) = unat s + (length rs - 1)"
  using linked_seq_nth[OF assms(1), of "length rs - 1"] assms(2) by (simp add: last_conv_nth)

text \<open>The records with numbers up to \<open>q\<close>, and a checkpoint the daemon can have signed after writing \<open>gs\<close>.\<close>

definition records_upto :: "u64 \<Rightarrow> AuditRecord list \<Rightarrow> AuditRecord list" where
  "records_upto q rs = takeWhile (\<lambda>r. ar_seq r \<le> q) rs"

definition checkpoint_of :: "AuditLibs \<Rightarrow> AuditRecord list \<Rightarrow> Checkpoint \<Rightarrow> bool" where
  "checkpoint_of L gs cp \<longleftrightarrow>
     unat (cp_seq cp) < length gs \<and> cp_chain_head_hash cp = head_after L GENESIS_HASH (records_upto (cp_seq cp) gs)"

lemma linked_upto:
  "linked L h s rs \<Longrightarrow> records_upto q rs = take (if s \<le> q then Suc (unat q - unat s) else 0) rs"
proof (induction rs arbitrary: h s)
  case (Cons r rs)
  then have r: "ar_seq r = s" and rest: "rs = [] \<or> s \<noteq> - 1" and link: "linked L (record_hash L h r) (s + 1) rs"
    by auto
  show ?case
  proof (cases "s \<le> q \<and> rs \<noteq> []")
    case True
    with rest have "unat (s + 1) = Suc (unat s)" by (simp add: unat_add_one)
    with True Cons.IH[OF link] r show ?thesis
      by (auto simp: records_upto_def word_le_nat_alt Suc_diff_Suc)
  qed (use r in \<open>auto simp: records_upto_def\<close>)
qed (simp add: records_upto_def)

lemma eval_checkpoints_ok:
  assumes "fst (snd (eval_checkpoints L sc ro)) = 0" "sc_verifier sc = Some v" "\<not> sc_missing sc" "ro_records ro > 0"
  shows "\<exists>cl \<in> set (sc_lines sc). in_range ro (cl_checkpoint cl)"
    and "cl \<in> set (sc_lines sc) \<Longrightarrow> in_range ro (cl_checkpoint cl) \<Longrightarrow> checkpoint_binds L (Some v) ro cl"
  using assms by (auto simp: eval_checkpoints_def Let_def filter_empty_conv split: if_splits)

lemma linked_split:
  assumes "linked L h s rs" "rs \<noteq> []" "s \<le> q" "q \<le> ar_seq (last rs)"
  obtains xs r ys where "rs = xs @ r # ys" "ar_seq r = q" "records_upto q rs = xs @ [r]"
    "ar_seq r \<notin> ar_seq ` set ys"
proof -
  define i where "i = unat q - unat s"
  from assms linked_length[OF assms(1,2)] have i: "i < length rs"
    unfolding i_def by (cases rs) (auto simp: word_le_nat_alt)
  with linked_seq_nth[OF assms(1) i] assms(3) have q: "ar_seq (rs ! i) = q"
    by (simp add: i_def word_le_nat_alt word_unat_eq_iff)
  have rs: "rs = take i rs @ rs ! i # drop (Suc i) rs" using i by (rule id_take_nth_drop)
  moreover have "records_upto q rs = take i rs @ [rs ! i]"
    using linked_upto[OF assms(1), of q] assms(3) i by (simp add: i_def take_Suc_conv_app_nth)
  moreover have "ar_seq (rs ! i) \<notin> ar_seq ` set (drop (Suc i) rs)"
    using linked_distinct[OF assms(1)] by (subst (asm) rs) auto
  ultimately show thesis using that q by blast
qed

text \<open>The records up to a checkpoint of the daemon are the daemon's.\<close>

lemma bound_upto:
  assumes "linked L (ar_prev_hash (hd rs)) (ar_seq (hd rs)) rs" "rs \<noteq> []" "linked L GENESIS_HASH 0 gs"
    and "ar_seq (hd rs) \<le> cp_seq cp" "cp_seq cp \<le> ar_seq (last rs)" "cp_seq cp \<in> needed"
    and "hget (sr_seq_to_hash (replayed L needed rs)) (cp_seq cp) = Some (cp_chain_head_hash cp)"
    and "checkpoint_of L gs cp" "\<not> collision L rs gs"
  shows "suffix (records_upto (cp_seq cp) rs) (records_upto (cp_seq cp) gs)"
proof -
  obtain xs r ys where rs: "rs = xs @ r # ys" "ar_seq r = cp_seq cp" "records_upto (cp_seq cp) rs = xs @ [r]"
      and new: "ar_seq r \<notin> ar_seq ` set ys"
    using linked_split[OF assms(1,2,4,5)] .
  have "head_after L (ar_prev_hash (hd rs)) (xs @ [r]) = cp_chain_head_hash cp"
    using replayed_bound(1)[OF new, of needed L xs] assms(6,7) rs by (cases "xs = []") simp_all
  with assms(8) have "head_after L (ar_prev_hash (hd rs)) (xs @ [r])
      = head_after L GENESIS_HASH (records_upto (cp_seq cp) gs)" (is "_ = head_after L _ ?gs")
    by (simp add: checkpoint_of_def)
  moreover have gs: "?gs = take (Suc (unat (cp_seq cp))) gs" using linked_upto[OF assms(3)] by simp
  moreover have "linked L (ar_prev_hash (hd rs)) (ar_seq (hd rs)) (xs @ [r])"
    using linked_appendD1[of L _ _ "xs @ [r]" ys] assms(1) rs(1) by simp
  moreover have "linked L GENESIS_HASH 0 ?gs"
    using linked_appendD1[of L _ _ ?gs "drop (Suc (unat (cp_seq cp))) gs"] assms(3) gs by simp
  moreover have "length (xs @ [r]) \<le> length ?gs"
    using linked_seq_nth[OF assms(1), of "length xs"] rs assms(8) gs by (simp add: checkpoint_of_def)
  moreover have "\<not> collision L (xs @ [r]) ?gs"
    using collision_mono[of L "xs @ [r]" ?gs rs gs] assms(9) rs(1) set_take_subset[of _ gs] gs by auto
  ultimately show ?thesis using linked_agree rs(3) by metis
qed

lemma sidecar_with_key:
  assumes "read_checkpoint_sidecar L files (Some pub) = Inr sc" "verifier_from_public_hex L pub = Inr v"
    and "fst (snd (eval_checkpoints L sc ro)) = 0" "ro_records ro > 0"
  shows "\<not> sc_missing sc" "sc_verifier sc = Some v"
proof -
  have "if sc_missing sc then sc_signature_checked sc else sc_verifier sc = Some v"
    using assms(1,2) by (auto simp: read_checkpoint_sidecar_def split: option.splits sum.splits)
  with assms(3,4) show "\<not> sc_missing sc" "sc_verifier sc = Some v"
    by (auto simp: eval_checkpoints_def split: if_splits)
qed

section \<open>Missing numbers\<close>

text \<open>The numbers missing between those of the records, in order.\<close>

definition missing_seqs :: "AuditRecord list \<Rightarrow> nat list" where
  "missing_seqs rs =
     filter (\<lambda>k. k \<notin> unat ` ar_seq ` set rs) [unat (ar_seq (hd rs))..<Suc (unat (ar_seq (last rs)))]"

lemma sample_gaps_eq:
  "map unat (sample_gaps s seq gaps) = map unat gaps @ take (MAX_VERIFY_GAPS - length gaps) [unat s..<unat seq]"
proof (induction s seq gaps rule: sample_gaps.induct)
  case (1 s seq gaps)
  show ?case
  proof (cases "s < seq \<and> length gaps < MAX_VERIFY_GAPS")
    case True
    then have "unat (s + 1) = Suc (unat s)" by (intro unat_add_one) auto
    moreover obtain k where "MAX_VERIFY_GAPS - length gaps = Suc k" using True by (cases "MAX_VERIFY_GAPS - length gaps") auto
    moreover from this have "MAX_VERIFY_GAPS - Suc (length gaps) = k" by simp
    moreover have "unat s < unat seq" using True by (simp add: word_less_nat_alt)
    ultimately show ?thesis using True 1 by (simp add: sample_gaps.simps[of s] upt_rec[of "unat s"])
  next
    case False
    then show ?thesis by (auto simp: sample_gaps.simps[of s] word_less_nat_alt)
  qed
qed

lemma upt_split:
  assumes "i \<le> j" "j \<le> k"
  shows "[i..<Suc k] = [i..<j] @ [j..<k] @ [k]"
  using upt_add_eq_append[OF assms(1), of "k - j"] assms by simp

lemma missing_seqs_snoc:
  assumes "sorted_wrt (<) (map ar_seq (rs @ [r]))" "rs \<noteq> []"
  shows "missing_seqs (rs @ [r]) = missing_seqs rs @ [Suc (unat (ar_seq (last rs)))..<unat (ar_seq r)]"
proof -
  have below: "\<forall>x \<in> set rs. unat (ar_seq x) < unat (ar_seq r) \<and> unat (ar_seq x) \<le> unat (ar_seq (last rs))"
    using assms by (cases rs rule: rev_cases) (auto simp: sorted_wrt_append word_less_nat_alt)
  have "hd rs \<in> set rs" "last rs \<in> set rs" using assms(2) by auto
  with below have le: "unat (ar_seq (hd rs)) \<le> Suc (unat (ar_seq (last rs)))" "Suc (unat (ar_seq (last rs))) \<le> unat (ar_seq r)"
    by auto
  let ?P = "\<lambda>k. k \<notin> unat ` ar_seq ` set (rs @ [r])"
  note upt_split[OF le]
  then have "missing_seqs (rs @ [r])
      = filter ?P [unat (ar_seq (hd rs))..<Suc (unat (ar_seq (last rs)))]
        @ filter ?P [Suc (unat (ar_seq (last rs)))..<unat (ar_seq r)]"
    using assms(2) by (simp add: missing_seqs_def)
  also have "filter ?P [unat (ar_seq (hd rs))..<Suc (unat (ar_seq (last rs)))] = missing_seqs rs"
    using below le(2) unfolding missing_seqs_def by (intro filter_cong) auto
  also have "filter ?P [Suc (unat (ar_seq (last rs)))..<unat (ar_seq r)] = [Suc (unat (ar_seq (last rs)))..<unat (ar_seq r)]"
    using below by (intro filter_True) (auto simp: not_less_eq_eq[symmetric])
  finally show ?thesis .
qed

lemma saturating_add_exact:
  "unat a + unat b < 2 ^ 64 \<Longrightarrow> unat (saturating_add a b) = unat a + unat b"
  by (simp add: saturating_add_def unat_word_ariths)

lemma unat_between:
  fixes p q :: u64
  assumes "p < q"
  shows "unat (q - p - 1) = unat q - Suc (unat p)"
proof -
  have "unat (q - p) = unat q - unat p" using assms by (simp add: unat_sub)
  moreover have "1 \<le> q - p" using assms calculation by (simp add: word_le_nat_alt word_less_nat_alt)
  ultimately show ?thesis by (simp add: unat_sub)
qed

lemma check_order_missing:
  assumes "p < q" "map unat (sr_gaps s) = take MAX_VERIFY_GAPS ms" "unat (sr_missing_total s) = length ms"
    and "length ms \<le> Suc (unat p)"
  shows "map unat (sr_gaps (check_order p q s)) = take MAX_VERIFY_GAPS (ms @ [Suc (unat p)..<unat q])
         \<and> unat (sr_missing_total (check_order p q s)) = length (ms @ [Suc (unat p)..<unat q])"
proof (cases "q - p - 1 = 0")
  case True
  with unat_between[OF assms(1)] have "unat q \<le> Suc (unat p)" by simp
  with True assms show ?thesis by (simp add: check_order_def)
next
  case False
  have "length (sr_gaps s) = min MAX_VERIFY_GAPS (length ms)"
    using arg_cong[OF assms(2), of length] by simp
  then have "MAX_VERIFY_GAPS - length (sr_gaps s) = MAX_VERIFY_GAPS - length ms" by simp
  moreover have "unat (p + 1) = Suc (unat p)" using assms(1) by (intro unat_add_one) auto
  ultimately have "map unat (sample_gaps (p + 1) q (sr_gaps s)) = take MAX_VERIFY_GAPS (ms @ [Suc (unat p)..<unat q])"
    by (simp add: sample_gaps_eq assms(2))
  moreover have "unat (saturating_add (sr_missing_total s) (q - p - 1)) = length ms + (unat q - Suc (unat p))"
    using saturating_add_exact[of "sr_missing_total s" "q - p - 1"] unat_between[OF assms(1)] assms unat_u64[of q]
    by (simp add: word_less_nat_alt)
  ultimately show ?thesis using False assms(1) by (auto simp: check_order_def word_gt_0)
qed

lemma replayed_missing:
  assumes "sorted_wrt (<) (map ar_seq rs)" "rs \<noteq> []"
  shows "map unat (sr_gaps (replayed L needed rs)) = take MAX_VERIFY_GAPS (missing_seqs rs)
         \<and> unat (sr_missing_total (replayed L needed rs)) = length (missing_seqs rs)"
  using assms
proof (induction rs rule: rev_induct)
  case (snoc r rs)
  show ?case
  proof (cases "rs = []")
    case True
    then show ?thesis
      using replayed_snoc[of L needed "[]" r]
      by (simp add: missing_seqs_def replay_push_missing replay_new_def)
  next
    case False
    have "length (missing_seqs rs) \<le> Suc (unat (ar_seq (last rs)))"
      unfolding missing_seqs_def by (rule order_trans[OF length_filter_le]) simp
    moreover have "ar_seq (last rs) < ar_seq r" using snoc.prems False by (auto simp: sorted_wrt_append)
    ultimately show ?thesis
      using check_order_missing[of "ar_seq (last rs)" "ar_seq r" "replayed L needed rs" "missing_seqs rs"]
        missing_seqs_snoc[OF snoc.prems(1) False] snoc False
      by (simp add: sorted_wrt_append replay_push_missing del: length_append)
  qed
qed simp

end
