(* ===== verification/Audit_Writer.thy ===== *)
theory Audit_Writer
  imports Audit_Chain
begin

text \<open>
  The audit sink of the daemon (\<^verbatim>\<open>crates/server/src/server/audit.rs\<close>): the queue in front of the writer,
  the writer with its rotation, pruning, checkpoints and anchor, and the recovery of the chain when the
  daemon starts.

  The state of the writer carries the directory it writes to and the outcomes of its coming I/O calls;
  a call finds its outcome at the head of that list, and an empty list means that every call succeeds.
  The times the writer reads from the clock and the value of the counter of dropped records are arguments.
\<close>

section \<open>Input and output\<close>

text \<open>A failed write may have written its first bytes.\<close>

datatype outcome = Completed | Failed nat

record WriterState =
  ws_chain :: ChainState
  ws_file :: string
  ws_file_bytes :: nat
  ws_signer :: "u8 list option"
  ws_rotate_max_bytes :: nat
  ws_rotate_keep_files :: nat
  ws_record_count :: u64
  ws_records_since_checkpoint :: u64
  ws_last_seen_dropped :: u64
  ws_files :: files
  ws_outcomes :: "outcome list"

type_synonym step = "WriterState \<Rightarrow> bool \<times> WriterState"

text \<open>A call with its effect when it succeeds and when it fails.\<close>

definition attempt :: "(WriterState \<Rightarrow> WriterState) \<Rightarrow> (nat \<Rightarrow> WriterState \<Rightarrow> WriterState) \<Rightarrow> step" where
  "attempt succeed fail w =
     (case ws_outcomes w of
        [] \<Rightarrow> (True, succeed w)
      | Completed # os \<Rightarrow> (True, succeed (w\<lparr>ws_outcomes := os\<rparr>))
      | Failed k # os \<Rightarrow> (False, fail k (w\<lparr>ws_outcomes := os\<rparr>)))"

text \<open>The operator \<^verbatim>\<open>?\<close>: go on after success, return the error otherwise.\<close>

definition then_try :: "step \<Rightarrow> step \<Rightarrow> step" where
  "then_try f g w = (case f w of (ok, w') \<Rightarrow> if ok then g w' else (False, w'))"

definition pure_step :: "(WriterState \<Rightarrow> WriterState) \<Rightarrow> step" where
  "pure_step f w = (True, f w)"

text \<open>Flushing a file or a directory to the disk, listing the directory, and asking for a file's size.\<close>

definition io_sync :: step where
  "io_sync = attempt id (\<lambda>_. id)"

definition io_read_dir :: step where
  "io_read_dir = attempt id (\<lambda>_. id)"

definition io_metadata :: step where
  "io_metadata = attempt id (\<lambda>_. id)"

text \<open>Opening a file for writing, which empties it, or for appending; a missing file is created.\<close>

definition io_create :: "string \<Rightarrow> step" where
  "io_create name = attempt (\<lambda>w. w\<lparr>ws_files := hput name [] (ws_files w)\<rparr>) (\<lambda>_. id)"

definition io_open_append :: "string \<Rightarrow> step" where
  "io_open_append name =
     attempt (\<lambda>w. if hget (ws_files w) name = None then w\<lparr>ws_files := hput name [] (ws_files w)\<rparr> else w) (\<lambda>_. id)"

text \<open>Writing bytes at the end of a file; the bytes of a file that has been removed are lost.\<close>

definition append_bytes :: "string \<Rightarrow> string \<Rightarrow> WriterState \<Rightarrow> WriterState" where
  "append_bytes name bytes w =
     (case hget (ws_files w) name of
        None \<Rightarrow> w
      | Some content \<Rightarrow> w\<lparr>ws_files := hput name (content @ bytes) (ws_files w)\<rparr>)"

definition io_write_all :: "string \<Rightarrow> string \<Rightarrow> step" where
  "io_write_all name bytes = attempt (append_bytes name bytes) (\<lambda>k. append_bytes name (take k bytes))"

text \<open>An open file keeps being written to under its new name.\<close>

definition rename_file :: "string \<Rightarrow> string \<Rightarrow> string \<Rightarrow> WriterState \<Rightarrow> WriterState" where
  "rename_file source target content w =
     w\<lparr>ws_files := hput target content (hdel source (ws_files w)),
       ws_file := (if ws_file w = source then target else ws_file w)\<rparr>"

definition io_rename :: "string \<Rightarrow> string \<Rightarrow> step" where
  "io_rename source target w =
     (case hget (ws_files w) source of
        None \<Rightarrow> (False, w)
      | Some content \<Rightarrow> attempt (rename_file source target content) (\<lambda>_. id) w)"

definition io_remove :: "string \<Rightarrow> step" where
  "io_remove name = attempt (\<lambda>w. w\<lparr>ws_files := hdel name (ws_files w)\<rparr>) (\<lambda>_. id)"

section \<open>The anchor and recovery\<close>

definition ANCHOR_TMP :: string where
  "ANCHOR_TMP = ''audit.anchor.json.tmp''"

definition write_anchor :: "AuditLibs \<Rightarrow> step" where
  "write_anchor L w =
     (let a = \<lparr>an_last_hash = cs_last_hash (ws_chain w), an_last_seq = cs_last_seq (ws_chain w),
               an_active_bytes = ws_file_bytes w\<rparr>
      in then_try (io_create ANCHOR_TMP)
           (then_try (io_write_all ANCHOR_TMP (lib_anchor_out L a))
             (then_try io_sync
               (then_try (io_rename ANCHOR_TMP ANCHOR) io_sync))) w)"

definition read_anchor_tail :: "AuditLibs \<Rightarrow> files \<Rightarrow> nat \<times> ChainState option" where
  "read_anchor_tail L files =
     (case hget files ANCHOR of
        None \<Rightarrow> (0, None)
      | Some text \<Rightarrow>
          (case lib_anchor_in L text of
             None \<Rightarrow> (0, None)
           | Some a \<Rightarrow> (an_active_bytes a, Some \<lparr>cs_last_hash = an_last_hash a, cs_last_seq = an_last_seq a\<rparr>)))"

text \<open>\<open>None\<close> is an error that keeps the daemon from starting.\<close>

definition load_chain_state :: "AuditLibs \<Rightarrow> files \<Rightarrow> ChainState option" where
  "load_chain_state L files =
     (case hget files ANCHOR of
        None \<Rightarrow> Some chain_genesis
      | Some text \<Rightarrow>
          map_option (\<lambda>a. \<lparr>cs_last_hash = an_last_hash a, cs_last_seq = an_last_seq a\<rparr>) (lib_anchor_in L text))"

text \<open>The bytes from an offset on, if they are text.\<close>

definition read_active_suffix :: "files \<Rightarrow> nat \<Rightarrow> string option" where
  "read_active_suffix files offset =
     (case hget files ACTIVE_LOG of
        None \<Rightarrow> Some []
      | Some content \<Rightarrow> if utf8 (drop offset content) then Some (drop offset content) else None)"

text \<open>The last line that is a record.\<close>

fun last_valid :: "AuditLibs \<Rightarrow> string list \<Rightarrow> AuditRecord option" where
  "last_valid L [] = None"
| "last_valid L (l # ls) =
     (case last_valid L ls of
        Some r \<Rightarrow> Some r
      | None \<Rightarrow> if trim l = [] then None else case from_jsonl L l of Inl e \<Rightarrow> None | Inr r \<Rightarrow> Some r)"

definition reconstruct_chain_state :: "AuditLibs \<Rightarrow> files \<Rightarrow> ChainState option" where
  "reconstruct_chain_state L files =
     (let (offset, anchored) = read_anchor_tail L files;
          offset = (case hget files ACTIVE_LOG of
                      Some content \<Rightarrow> if offset > length content then 0 else offset
                    | None \<Rightarrow> offset)
      in case read_active_suffix files offset of
           None \<Rightarrow> load_chain_state L files
         | Some text \<Rightarrow>
             (case last_valid L (lines_of text) of
                Some r \<Rightarrow> Some \<lparr>cs_last_hash = record_hash L (ar_prev_hash r) r, cs_last_seq = ar_seq r + 1\<rparr>
              | None \<Rightarrow> (case anchored of Some chain \<Rightarrow> Some chain | None \<Rightarrow> load_chain_state L files)))"

text \<open>The settings of the sink.\<close>

record AuditSettings =
  au_signer :: "u8 list option"
  au_rotate_max_bytes :: nat
  au_rotate_keep_files :: nat

definition writer_open :: "AuditLibs \<Rightarrow> AuditSettings \<Rightarrow> files \<Rightarrow> outcome list \<Rightarrow> WriterState option" where
  "writer_open L cfg files os =
     (case reconstruct_chain_state L files of
        None \<Rightarrow> None
      | Some chain \<Rightarrow>
          (let w = \<lparr>ws_chain = chain, ws_file = ACTIVE_LOG, ws_file_bytes = 0, ws_signer = au_signer cfg,
                    ws_rotate_max_bytes = au_rotate_max_bytes cfg,
                    ws_rotate_keep_files = au_rotate_keep_files cfg, ws_record_count = 0,
                    ws_records_since_checkpoint = 0, ws_last_seen_dropped = 0, ws_files = files, ws_outcomes = os\<rparr>
           in case then_try (io_open_append ACTIVE_LOG) io_metadata w of
                (ok, w') \<Rightarrow>
                  if ok then Some (w'\<lparr>ws_file_bytes := (case hget (ws_files w') ACTIVE_LOG of
                                                         None \<Rightarrow> 0 | Some content \<Rightarrow> length content)\<rparr>)
                  else None))"

section \<open>Rotation\<close>

definition parse_rotation_n :: "string \<Rightarrow> u64 option" where
  "parse_rotation_n name =
     (case rotation_digits name of
        None \<Rightarrow> None
      | Some digits \<Rightarrow> if digits = [] \<or> \<not> list_all is_ascii_digit digits then None else parse_u64 digits)"

definition find_max_rotation_n :: "files \<Rightarrow> u64" where
  "find_max_rotation_n files =
     fold (\<lambda>name max_n. case parse_rotation_n name of Some n \<Rightarrow> if n > max_n then n else max_n | None \<Rightarrow> max_n)
       (hkeys files) 0"

definition rotated_name :: "u64 \<Rightarrow> string" where
  "rotated_name n = ''audit.'' @ show_nat (unat n) @ ''.jsonl''"

definition rotated_files :: "files \<Rightarrow> (u64 \<times> string) list" where
  "rotated_files files =
     List.map_filter (\<lambda>name. map_option (\<lambda>n. (n, name)) (parse_rotation_n name)) (hkeys files)"

definition prune_rotated_files :: step where
  "prune_rotated_files w =
     (let keep = ws_rotate_keep_files w
      in if keep = 0 then (True, w)
         else then_try io_read_dir
           (\<lambda>w. let rotated = rotated_files (ws_files w)
                in if length rotated \<le> keep then (True, w)
                   else (True, fold (\<lambda>(n, name) w. snd (io_remove name w))
                                 (take (length rotated - keep) (sort_key fst rotated)) w)) w)"

definition rotate :: "AuditLibs \<Rightarrow> step" where
  "rotate L =
     then_try io_sync
       (then_try io_read_dir
         (\<lambda>w. then_try (io_rename ACTIVE_LOG (rotated_name (find_max_rotation_n (ws_files w) + 1)))
                (then_try io_sync
                  (then_try (io_create ACTIVE_LOG)
                    (then_try (pure_step (\<lambda>w. w\<lparr>ws_file := ACTIVE_LOG, ws_file_bytes := 0\<rparr>))
                      (then_try prune_rotated_files (write_anchor L))))) w))"

section \<open>Writing records\<close>

definition CHECKPOINT_INTERVAL :: u64 where
  "CHECKPOINT_INTERVAL = 100"

definition write_checkpoint_line :: "AuditLibs \<Rightarrow> u64 \<Rightarrow> u8 list \<Rightarrow> step" where
  "write_checkpoint_line L ts_unix_ms signer w =
     (let cp = \<lparr>cp_seq = saturating_sub (cs_last_seq (ws_chain w)) 1,
                cp_chain_head_hash = cs_last_hash (ws_chain w),
                cp_ts_unix_ms = ts_unix_ms, cp_record_count = ws_record_count w\<rparr>;
          line = lib_line_out L \<lparr>cl_checkpoint = cp, cl_signature = sign_checkpoint L signer cp\<rparr> @ [CHR 0x0A]
      in then_try (io_open_append CHECKPOINTS) (io_write_all CHECKPOINTS line) w)"

definition do_checkpoint :: "AuditLibs \<Rightarrow> u64 \<Rightarrow> step" where
  "do_checkpoint L now w =
     then_try (case ws_signer w of None \<Rightarrow> pure_step id | Some signer \<Rightarrow> write_checkpoint_line L now signer)
       (then_try (pure_step (\<lambda>w. w\<lparr>ws_records_since_checkpoint := 0\<rparr>)) (write_anchor L)) w"

definition count_record :: "nat \<Rightarrow> WriterState \<Rightarrow> WriterState" where
  "count_record line_bytes w =
     w\<lparr>ws_file_bytes := ws_file_bytes w + line_bytes,
       ws_record_count := ws_record_count w + 1,
       ws_records_since_checkpoint := ws_records_since_checkpoint w + 1\<rparr>"

definition write_record_raw :: "AuditLibs \<Rightarrow> u64 \<Rightarrow> AuditRecord \<Rightarrow> step" where
  "write_record_raw L now r w =
     (let (r', chain) = chain_append L r (ws_chain w);
          line = to_jsonl L r'
      in then_try (pure_step (\<lambda>w. w\<lparr>ws_chain := chain\<rparr>))
          (then_try (\<lambda>w. if ws_file_bytes w > 0 \<and> ws_file_bytes w + length line > ws_rotate_max_bytes w
                         then rotate L w else (True, w))
          (then_try (\<lambda>w. io_write_all (ws_file w) line w)
          (then_try (pure_step (count_record (length line)))
            (\<lambda>w. if ws_records_since_checkpoint w \<ge> CHECKPOINT_INTERVAL then do_checkpoint L now w
                 else (True, w))))) w)"

definition gap_sentinel :: "u64 \<Rightarrow> u64 \<Rightarrow> AuditRecord" where
  "gap_sentinel ts_unix_ms delta =
     \<lparr>ar_schema_version = AUDIT_SCHEMA_VERSION, ar_seq = 0, ar_ts_unix_ms = ts_unix_ms, ar_ts_monotonic_ns = 0,
      ar_prev_hash = [], ar_request_id = [], ar_identity = None, ar_method = ''__AUDIT_GAP__'',
      ar_class = ClassSystem, ar_slot = None, ar_session = None, ar_object_ref = None, ar_ck_rv = 0,
      ar_latency_us = 0, ar_dropped_count = Some delta\<rparr>"

text \<open>
  What the writer reads from outside while it serves one message: the counter of dropped records, the
  clock for a gap record, for a checkpoint after it, and for a checkpoint after the record itself.
\<close>

record Readings =
  rd_dropped :: u64
  rd_gap_ts :: u64
  rd_gap_now :: u64
  rd_now :: u64

definition maybe_write_gap_sentinel :: "AuditLibs \<Rightarrow> Readings \<Rightarrow> step" where
  "maybe_write_gap_sentinel L rd w =
     (if rd_dropped rd \<le> ws_last_seen_dropped w then (True, w)
      else write_record_raw L (rd_gap_now rd) (gap_sentinel (rd_gap_ts rd) (rd_dropped rd - ws_last_seen_dropped w))
             (w\<lparr>ws_last_seen_dropped := rd_dropped rd\<rparr>))"

definition write_record :: "AuditLibs \<Rightarrow> Readings \<Rightarrow> AuditRecord \<Rightarrow> step" where
  "write_record L rd r = then_try (maybe_write_gap_sentinel L rd) (write_record_raw L (rd_now rd) r)"

definition flush :: "AuditLibs \<Rightarrow> Readings \<Rightarrow> step" where
  "flush L rd =
     then_try (maybe_write_gap_sentinel L rd)
       (then_try io_sync
         (\<lambda>w. if ws_records_since_checkpoint w > 0 then do_checkpoint L (rd_now rd) w else write_anchor L w))"

section \<open>The writer task\<close>

datatype WriterMsg = MsgRecord AuditRecord | MsgFlush | MsgCheckpoint

text \<open>What a flush does with the messages it finds in the queue.\<close>

fun drain :: "AuditLibs \<Rightarrow> (WriterMsg \<times> Readings) list \<Rightarrow> WriterState \<Rightarrow> WriterState" where
  "drain L [] w = w"
| "drain L ((MsgRecord r, rd) # ms) w = drain L ms (snd (write_record L rd r w))"
| "drain L ((MsgFlush, rd) # ms) w = drain L ms w"
| "drain L ((MsgCheckpoint, rd) # ms) w = drain L ms w"

text \<open>One round of the loop; \<open>queued\<close> are the messages a flush drains.\<close>

type_synonym round = "WriterMsg \<times> Readings \<times> (WriterMsg \<times> Readings) list"

definition writer_round :: "AuditLibs \<Rightarrow> round \<Rightarrow> WriterState \<Rightarrow> WriterState" where
  "writer_round L rnd w =
     (case rnd of (msg, rd, queued) \<Rightarrow>
        (case msg of
           MsgRecord r \<Rightarrow> snd (write_record L rd r w)
         | MsgFlush \<Rightarrow> snd (flush L rd (drain L queued w))
         | MsgCheckpoint \<Rightarrow>
             if ws_records_since_checkpoint w > 0 \<and> ws_signer w \<noteq> None then snd (do_checkpoint L (rd_now rd) w)
             else w))"

text \<open>The rounds until the queue is closed, and the flush at the end.\<close>

definition writer_task :: "AuditLibs \<Rightarrow> round list \<Rightarrow> Readings \<Rightarrow> WriterState \<Rightarrow> WriterState" where
  "writer_task L rounds rd w = snd (flush L rd (fold (writer_round L) rounds w))"

section \<open>The queue\<close>

datatype EmitOutcome = Queued | DroppedFailOpen | RejectedFailClosed

record AuditSink =
  as_queue :: "WriterMsg list"
  as_capacity :: nat
  as_closed :: bool
  as_dropped :: u64
  as_fail_closed_reserve :: nat

definition try_send :: "WriterMsg \<Rightarrow> AuditSink \<Rightarrow> bool \<times> AuditSink" where
  "try_send m s =
     (if as_closed s \<or> as_capacity s \<le> length (as_queue s) then (False, s)
      else (True, s\<lparr>as_queue := as_queue s @ [m]\<rparr>))"

definition emit :: "AuditRecord \<Rightarrow> AuditSink \<Rightarrow> EmitOutcome \<times> AuditSink" where
  "emit r s =
     (if \<not> fail_closed (ar_class r) then
        (if as_capacity s - length (as_queue s) \<le> as_fail_closed_reserve s
         then (DroppedFailOpen, s\<lparr>as_dropped := as_dropped s + 1\<rparr>)
         else (case try_send (MsgRecord r) s of
                 (ok, s') \<Rightarrow> if ok then (Queued, s') else (DroppedFailOpen, s'\<lparr>as_dropped := as_dropped s' + 1\<rparr>)))
      else (case try_send (MsgRecord r) s of (ok, s') \<Rightarrow> (if ok then Queued else RejectedFailClosed, s')))"

section \<open>Calls that succeed\<close>

named_theorems io_simps

lemma attempt_quiet [io_simps]: "ws_outcomes w = [] \<Longrightarrow> attempt s f w = (True, s w)"
  by (simp add: attempt_def)

lemma then_try_True [io_simps]: "f w = (True, w') \<Longrightarrow> then_try f g w = g w'"
  by (simp add: then_try_def)

lemma append_bytes_outcomes [simp]:
  "ws_outcomes (append_bytes name bytes w) = ws_outcomes w"
  "ws_chain (append_bytes name bytes w) = ws_chain w"
  "ws_file_bytes (append_bytes name bytes w) = ws_file_bytes w"
  by (simp_all add: append_bytes_def split: option.split)

lemma append_bytes_present [io_simps]:
  "hget (ws_files w) name = Some content \<Longrightarrow>
   append_bytes name bytes w = w\<lparr>ws_files := hput name (content @ bytes) (ws_files w)\<rparr>"
  by (simp add: append_bytes_def)

text \<open>The effect of writing the anchor, as a change of the directory alone.\<close>

definition anchor_text :: "AuditLibs \<Rightarrow> WriterState \<Rightarrow> string" where
  "anchor_text L w =
     lib_anchor_out L \<lparr>an_last_hash = cs_last_hash (ws_chain w), an_last_seq = cs_last_seq (ws_chain w),
                       an_active_bytes = ws_file_bytes w\<rparr>"

definition anchor_put :: "string \<Rightarrow> files \<Rightarrow> files" where
  "anchor_put text fs = hput ANCHOR text (hdel ANCHOR_TMP (hput ANCHOR_TMP text (hput ANCHOR_TMP [] fs)))"

lemma write_anchor_quiet:
  assumes "ws_outcomes w = []" "ws_file w \<noteq> ANCHOR_TMP"
  shows "write_anchor L w = (True, w\<lparr>ws_files := anchor_put (anchor_text L w) (ws_files w)\<rparr>)"
  using assms
  by (simp add: write_anchor_def io_create_def io_write_all_def io_sync_def io_rename_def rename_file_def
      io_simps anchor_put_def anchor_text_def Let_def)

lemma names_differ [simp]:
  "ANCHOR \<noteq> ANCHOR_TMP" "ANCHOR_TMP \<noteq> ANCHOR" "ACTIVE_LOG \<noteq> ANCHOR_TMP" "ANCHOR_TMP \<noteq> ACTIVE_LOG"
  "CHECKPOINTS \<noteq> ANCHOR_TMP" "ANCHOR_TMP \<noteq> CHECKPOINTS" "ACTIVE_LOG \<noteq> ANCHOR" "ANCHOR \<noteq> ACTIVE_LOG"
  "CHECKPOINTS \<noteq> ANCHOR" "ANCHOR \<noteq> CHECKPOINTS" "ACTIVE_LOG \<noteq> CHECKPOINTS" "CHECKPOINTS \<noteq> ACTIVE_LOG"
  by (simp_all add: ANCHOR_def ANCHOR_TMP_def ACTIVE_LOG_def CHECKPOINTS_def)

lemma hget_anchor_put [simp]:
  "hget (anchor_put text fs) = (hget fs)(ANCHOR_TMP := None, ANCHOR \<mapsto> text)"
  by (auto simp: anchor_put_def fun_eq_iff)

lemma hwf_anchor_put [simp]: "hwf fs \<Longrightarrow> hwf (anchor_put text fs)"
  by (simp add: anchor_put_def)

text \<open>Writing a checkpoint.\<close>

definition checkpoint_now :: "u64 \<Rightarrow> WriterState \<Rightarrow> Checkpoint" where
  "checkpoint_now now w =
     \<lparr>cp_seq = saturating_sub (cs_last_seq (ws_chain w)) 1, cp_chain_head_hash = cs_last_hash (ws_chain w),
      cp_ts_unix_ms = now, cp_record_count = ws_record_count w\<rparr>"

definition checkpoint_text :: "AuditLibs \<Rightarrow> u64 \<Rightarrow> u8 list \<Rightarrow> WriterState \<Rightarrow> string" where
  "checkpoint_text L now key w =
     lib_line_out L \<lparr>cl_checkpoint = checkpoint_now now w,
                     cl_signature = sign_checkpoint L key (checkpoint_now now w)\<rparr> @ [CHR 0x0A]"

definition checkpoint_put :: "string \<Rightarrow> files \<Rightarrow> files" where
  "checkpoint_put line fs =
     (let content = (case hget fs CHECKPOINTS of None \<Rightarrow> [] | Some c \<Rightarrow> c) in
      hput CHECKPOINTS (content @ line) (if hget fs CHECKPOINTS = None then hput CHECKPOINTS [] fs else fs))"

lemma hget_checkpoint_put [simp]:
  "hget (checkpoint_put line fs) =
     (hget fs)(CHECKPOINTS \<mapsto> (case hget fs CHECKPOINTS of None \<Rightarrow> [] | Some c \<Rightarrow> c) @ line)"
  by (auto simp: checkpoint_put_def Let_def fun_eq_iff)

lemma hwf_checkpoint_put [simp]: "hwf fs \<Longrightarrow> hwf (checkpoint_put text fs)"
  by (simp add: checkpoint_put_def Let_def)

lemma write_checkpoint_line_quiet:
  assumes "ws_outcomes w = []"
  shows "write_checkpoint_line L now key w =
    (True, w\<lparr>ws_files := checkpoint_put (checkpoint_text L now key w) (ws_files w)\<rparr>)"
  using assms
  by (cases "hget (ws_files w) CHECKPOINTS")
    (simp_all add: write_checkpoint_line_def io_open_append_def io_write_all_def io_simps Let_def
      checkpoint_put_def checkpoint_text_def checkpoint_now_def)

definition sealed_files :: "AuditLibs \<Rightarrow> u64 \<Rightarrow> WriterState \<Rightarrow> files" where
  "sealed_files L now w =
     anchor_put (anchor_text L w)
       (case ws_signer w of None \<Rightarrow> ws_files w
        | Some key \<Rightarrow> checkpoint_put (checkpoint_text L now key w) (ws_files w))"

lemma do_checkpoint_quiet:
  assumes "ws_outcomes w = []" "ws_file w \<noteq> ANCHOR_TMP"
  shows "do_checkpoint L now w = (True, w\<lparr>ws_records_since_checkpoint := 0, ws_files := sealed_files L now w\<rparr>)"
  using assms
  by (cases "ws_signer w")
    (simp_all add: do_checkpoint_def pure_step_def io_simps write_checkpoint_line_quiet write_anchor_quiet
      sealed_files_def anchor_text_def)

end
