(* ===== verification/Audit_Names.thy ===== *)
theory Audit_Names
  imports Audit_Writer
begin

text \<open>
  The names of the log files: the names the writer gives to rotated files are recognised, read back to
  their number, and ordered by it, by the writer and by the verifier.
\<close>

definition log_name :: "nat \<Rightarrow> string" where
  "log_name n = ''audit.'' @ show_nat n @ ''.jsonl''"

lemma rotated_name_eq: "rotated_name n = log_name (unat n)"
  by (simp add: rotated_name_def log_name_def)

lemma rotation_digits_log_name [simp]: "rotation_digits (log_name n) = Some (show_nat n)"
proof -
  have "strip_suffix ''.jsonl'' (show_nat n @ ''.jsonl'') = Some (show_nat n)"
    by (simp add: strip_suffix_def strip_prefix_def)
  moreover have "strip_prefix ''audit.'' (''audit.'' @ show_nat n @ ''.jsonl'') = Some (show_nat n @ ''.jsonl'')"
    by (rule strip_prefix_append)
  ultimately show ?thesis unfolding rotation_digits_def log_name_def by simp
qed

lemma show_nat_digits: "list_all is_ascii_digit (show_nat n)"
proof (induction n rule: show_nat.induct)
  case (1 n)
  have "is_ascii_digit (digit_char d)" if "d < 10" for d
    using that by (auto simp: is_ascii_digit_def less_eq_char_def)
  with 1 show ?case by (auto simp: show_nat.simps[of n])
qed

lemma show_nat_not_Nil [simp]: "show_nat n \<noteq> []"
  using show_nat_hd[of n] by auto

lemma fixed_names [simp]:
  "rotation_digits ACTIVE_LOG = None" "rotation_digits ANCHOR = None" "rotation_digits ANCHOR_TMP = None"
  "rotation_digits CHECKPOINTS = Some ''checkpoints''"
  by (simp_all add: rotation_digits_def ACTIVE_LOG_def ANCHOR_def ANCHOR_TMP_def CHECKPOINTS_def
      strip_prefix_def strip_suffix_def)

lemma log_name_fixed [simp]:
  "log_name n \<noteq> ACTIVE_LOG" "log_name n \<noteq> ANCHOR" "log_name n \<noteq> ANCHOR_TMP" "log_name n \<noteq> CHECKPOINTS"
  "ACTIVE_LOG \<noteq> log_name n" "ANCHOR \<noteq> log_name n" "ANCHOR_TMP \<noteq> log_name n" "CHECKPOINTS \<noteq> log_name n"
proof -
  have "log_name n \<noteq> ACTIVE_LOG \<and> log_name n \<noteq> ANCHOR \<and> log_name n \<noteq> ANCHOR_TMP"
    using rotation_digits_log_name[of n] by fastforce
  moreover have "show_nat n \<noteq> ''checkpoints''"
    using show_nat_digits[of n] by (auto simp: is_ascii_digit_def less_eq_char_def)
  then have "log_name n \<noteq> CHECKPOINTS" using rotation_digits_log_name[of n] by fastforce
  ultimately show "log_name n \<noteq> ACTIVE_LOG" "log_name n \<noteq> ANCHOR" "log_name n \<noteq> ANCHOR_TMP" "log_name n \<noteq> CHECKPOINTS"
    "ACTIVE_LOG \<noteq> log_name n" "ANCHOR \<noteq> log_name n" "ANCHOR_TMP \<noteq> log_name n" "CHECKPOINTS \<noteq> log_name n"
    by metis+
qed

lemma is_audit_log_names [simp]:
  "is_audit_log ACTIVE_LOG" "is_audit_log (log_name n)" "\<not> is_audit_log ANCHOR" "\<not> is_audit_log ANCHOR_TMP"
  "\<not> is_audit_log CHECKPOINTS"
  by (simp_all add: is_audit_log_def show_nat_digits) (simp add: is_ascii_digit_def less_eq_char_def)

lemma parse_rotation_n_names [simp]:
  "parse_rotation_n ACTIVE_LOG = None" "parse_rotation_n ANCHOR = None" "parse_rotation_n ANCHOR_TMP = None"
  "parse_rotation_n CHECKPOINTS = None"
  "parse_rotation_n (log_name (unat u)) = Some u"
  by (simp_all add: parse_rotation_n_def show_nat_digits) (simp add: is_ascii_digit_def less_eq_char_def)

text \<open>Decimal numerals of one length are ordered like their numbers, and longer ones are greater.\<close>

lemma show_nat_mono:
  assumes "m < n"
  shows "(length (show_nat m), show_nat m) < (length (show_nat n), show_nat n)"
  using assms
proof (induction n arbitrary: m rule: less_induct)
  case (less n)
  have digit: "digit_char c < digit_char d" if "c < d" "d < 10" for c d
    using that by (simp add: less_char_def)
  have snoc: "xs @ [c] < ys @ [d]" if "xs < ys" "length xs = length ys" for xs ys :: string and c d
    using that by (induction xs ys rule: list_induct2') auto
  show ?case
  proof (cases "m < 10")
    case True
    show ?thesis
    proof (cases "n < 10")
      case True
      with less.prems digit show ?thesis by (simp add: show_nat.simps[of m] show_nat.simps[of n] \<open>m < 10\<close>)
    next
      case False
      have "length (show_nat (n div 10)) > 0" by simp
      with False \<open>m < 10\<close> show ?thesis by (simp add: show_nat.simps[of m] show_nat.simps[of n] del: length_greater_0_conv)
    qed
  next
    case False
    with less.prems have n: "\<not> n < 10" by simp
    consider "m div 10 < n div 10" | "m div 10 = n div 10" "m mod 10 < n mod 10"
      using less.prems by (metis div_le_mono div_mod_decomp le_neq_implies_less less_imp_le_nat nat_add_left_cancel_less)
    then show ?thesis
    proof cases
      case 1
      with less.IH[of "n div 10" "m div 10"] n snoc show ?thesis
        by (auto simp: show_nat.simps[of m] show_nat.simps[of n] False)
    next
      case 2
      have "xs @ [c] < xs @ [d]" if "c < d" for xs :: string and c d using that by (induction xs) auto
      with 2 n digit show ?thesis by (simp add: show_nat.simps[of m] show_nat.simps[of n] False)
    qed
  qed
qed

lemma log_file_order_key_log_name: "log_file_order_key (log_name n) = (0, length (show_nat n), show_nat n)"
  by (simp add: log_file_order_key_def Let_def)

lemma log_name_order: "m < n \<Longrightarrow> log_file_order_key (log_name m) < log_file_order_key (log_name n)"
  using show_nat_mono[of m n] by (simp add: log_file_order_key_log_name)

lemma log_name_before_active: "log_file_order_key (log_name n) < log_file_order_key ACTIVE_LOG"
  by (simp add: log_file_order_key_log_name) (simp add: log_file_order_key_def)

lemma log_name_inj [simp]: "log_name m = log_name n \<longleftrightarrow> m = n"
  using log_name_order[of m n] log_name_order[of n m] by (cases m n rule: linorder_cases) auto

end
