(* ===== verification/Audit_Text.thy ===== *)
theory Audit_Text
  imports Audit_Names
begin

text \<open>
  The text of the audit files: what is documented of the libraries that write and read it, and that the
  lines of a file are read back to the values they were written from.
\<close>

section \<open>The libraries\<close>

text \<open>
  What is documented of the libraries: JSON text is read back to the value it was written from, is
  UTF-8 without control characters and starts with a brace; a signature verifies under the public key of
  its key, and has its documented length.
\<close>

definition json_text :: "string \<Rightarrow> bool" where
  "json_text s \<longleftrightarrow> s \<noteq> [] \<and> hd s = CHR 0x7B \<and> utf8 s \<and> (\<forall>c \<in> set s. of_char c \<ge> (32 :: nat))"

definition lib_laws :: "AuditLibs \<Rightarrow> bool" where
  "lib_laws L \<longleftrightarrow>
     (\<forall>r. json_text (lib_record_out L r) \<and> lib_record_in L (lib_record_out L r) = Some r)
     \<and> (\<forall>cl. json_text (lib_line_out L cl) \<and> lib_line_in L (lib_line_out L cl) = Some cl)
     \<and> (\<forall>a. lib_anchor_in L (lib_anchor_out L a) = Some a)
     \<and> (\<forall>k. length k = 32 \<longrightarrow> length (lib_ed_public L k) = 32 \<and> lib_ed_point L (lib_ed_public L k))
     \<and> (\<forall>k m. length k = 32 \<longrightarrow> length (lib_ed_sign L k m) = 64 \<and> lib_ed_verify L (lib_ed_public L k) m (lib_ed_sign L k m))"

lemma lib_lawsD:
  assumes "lib_laws L"
  shows "json_text (lib_record_out L r)" "lib_record_in L (lib_record_out L r) = Some r"
    and "json_text (lib_line_out L cl)" "lib_line_in L (lib_line_out L cl) = Some cl"
    and "lib_anchor_in L (lib_anchor_out L a) = Some a"
    and "length k = 32 \<Longrightarrow> length (lib_ed_public L k) = 32" "length k = 32 \<Longrightarrow> lib_ed_point L (lib_ed_public L k)"
    and "length k = 32 \<Longrightarrow> length (lib_ed_sign L k m) = 64"
    and "length k = 32 \<Longrightarrow> lib_ed_verify L (lib_ed_public L k) m (lib_ed_sign L k m)"
  using assms by (simp_all add: lib_laws_def)

lemma verify_own_signature:
  "lib_laws L \<Longrightarrow> length k = 32 \<Longrightarrow> verify_checkpoint L (lib_ed_public L k) cp (sign_checkpoint L k cp)"
  by (simp add: verify_checkpoint_def sign_checkpoint_def lib_lawsD)

lemma verifier_own_key:
  "lib_laws L \<Longrightarrow> length k = 32 \<Longrightarrow> verifier_from_public_hex L (public_hex L k) = Inr (lib_ed_public L k)"
  by (simp add: verifier_from_public_hex_def public_hex_def lib_lawsD)

section \<open>Lines\<close>

definition as_lines :: "('a \<Rightarrow> string) \<Rightarrow> 'a list \<Rightarrow> string" where
  "as_lines out xs = concat (map (\<lambda>x. out x @ [CHR 0x0A]) xs)"

lemma as_lines_simps [simp]:
  "as_lines out [] = []" "as_lines out (x # xs) = out x @ CHR 0x0A # as_lines out xs"
  "as_lines out (xs @ ys) = as_lines out xs @ as_lines out ys"
  by (simp_all add: as_lines_def)

lemma as_lines_Nil_iff [simp]: "as_lines out xs = [] \<longleftrightarrow> xs = []"
  by (cases xs) simp_all

lemma lines_from_line:
  "CHR 0x0A \<notin> set l \<Longrightarrow> lines_from acc (l @ CHR 0x0A # s)
     = rev (let a = rev l @ acc in if a \<noteq> [] \<and> hd a = CHR 0x0D then tl a else a) # lines_of s"
  by (induction l arbitrary: acc) (auto simp: lines_of_def Let_def)

lemma json_text_line:
  assumes "json_text l"
  shows "CHR 0x0A \<notin> set l" "last l \<noteq> CHR 0x0D" "l \<noteq> []" "utf8 l" "hd l = CHR 0x7B"
proof -
  have all: "\<And>c. c \<in> set l \<Longrightarrow> of_char c \<ge> (32 :: nat)" and l: "l \<noteq> []" "utf8 l" "hd l = CHR 0x7B"
    using assms by (auto simp: json_text_def)
  from l show "l \<noteq> []" "utf8 l" "hd l = CHR 0x7B" by auto
  from all[of "CHR 0x0A"] all[of "CHR 0x0D"] last_in_set[OF l(1)]
  show "CHR 0x0A \<notin> set l" "last l \<noteq> CHR 0x0D" by auto
qed

lemma lines_of_as_lines: "(\<And>x. json_text (out x)) \<Longrightarrow> lines_of (as_lines out xs) = map out xs"
proof (induction xs)
  case (Cons x xs)
  note line = json_text_line[OF Cons.prems[of x]]
  from line(2,3) have "hd (rev (out x)) \<noteq> CHR 0x0D" by (simp add: hd_rev)
  with Cons line(1) show ?case
    using lines_from_line[OF line(1), of "[]" "as_lines out xs"] by (simp add: lines_of_def)
qed (simp add: lines_of_def)

lemma stream_values_map:
  "(\<And>x. json_text (out x)) \<Longrightarrow> (\<And>x. x \<in> set xs \<Longrightarrow> parse (out x) = Inr x)
   \<Longrightarrow> stream_values parse (map out xs) = Inr xs"
  by (induction xs) (simp_all add: json_text_line)

lemma trim_end_newline: "json_text l \<Longrightarrow> trim_end_matches [CHR 0x0A] l = l"
  using json_text_line[of l] by (cases l rule: rev_cases) (auto simp: trim_end_matches_def)

lemma from_jsonl_out: "lib_laws L \<Longrightarrow> from_jsonl L (lib_record_out L r) = Inr r"
  by (simp add: from_jsonl_def trim_end_newline lib_lawsD)

abbreviation log_text :: "AuditLibs \<Rightarrow> AuditRecord list \<Rightarrow> string" where
  "log_text L \<equiv> as_lines (lib_record_out L)"

lemma stream_file_records_log:
  assumes "lib_laws L" "\<forall>r \<in> set rs. ar_schema_version r = AUDIT_SCHEMA_VERSION"
  shows "stream_file_records L (log_text L rs) = Inr rs"
  unfolding stream_file_records_def
  using assms
  by (simp add: lines_of_as_lines lib_lawsD stream_values_map parse_checked_def from_jsonl_out check_schema_version_def)

lemma stream_lines_checkpoints:
  assumes "lib_laws L"
  shows "stream_values (parse_line L) (lines_of (as_lines (lib_line_out L) cls)) = Inr cls"
  using assms by (simp add: lines_of_as_lines lib_lawsD stream_values_map parse_line_def)

lemma utf8_char_append: "utf8_char s = Some n \<Longrightarrow> utf8_char (s @ t) = Some n"
  using take_append[of "utf8_len (hd s)" s t]
  by (cases s) (auto simp: utf8_char_def Let_def split: if_splits)

lemma utf8_append: "utf8 s \<Longrightarrow> utf8 t \<Longrightarrow> utf8 (s @ t)"
proof (induction s rule: utf8.induct)
  case (1 s)
  show ?case
  proof (cases "s = []")
    case False
    with 1 obtain n where n: "utf8_char s = Some n" "utf8 (drop n s)" by (auto simp: utf8.simps[of s] split: option.splits)
    with 1 have "utf8 (drop n s @ t)" by simp
    with n utf8_char_bounds[OF n(1)] show ?thesis
      by (simp add: utf8.simps[of "s @ t"] utf8_char_append[OF n(1)])
  qed (use 1 in simp)
qed

lemma utf8_newline: "utf8 [CHR 0x0A]"
  by (simp add: utf8.simps utf8_char_def utf8_len_def byte_in_def)

lemma utf8_as_lines: "(\<And>x. json_text (out x)) \<Longrightarrow> utf8 (as_lines out xs)"
  by (induction xs) (simp add: utf8.simps, metis utf8_append utf8_newline json_text_line(4) append_Cons append_Nil as_lines_simps(2))

text \<open>A line that starts with a brace is not blank.\<close>

lemma strip_all_keeps:
  "c \<in> set s \<Longrightarrow> (\<And>w. w \<in> set ws \<Longrightarrow> c \<notin> set w) \<Longrightarrow> c \<in> set (strip_all ws s)"
proof (induction ws s rule: strip_all.induct)
  case (1 ws s)
  show ?case
  proof (cases "List.find (\<lambda>w. w \<noteq> [] \<and> starts_with w s) ws")
    case None
    with 1 show ?thesis by (simp add: strip_all.simps)
  next
    case (Some w)
    then have w: "w \<in> set ws" "starts_with w s" by (auto simp: find_Some_iff)
    then obtain t where "s = w @ t" by (auto simp: starts_with_iff)
    with 1 w(1) have "c \<in> set (drop (length w) s)" by auto
    with 1 Some show ?thesis by (simp add: strip_all.simps[of ws s])
  qed
qed

lemma json_text_not_blank: "json_text l \<Longrightarrow> trim l \<noteq> []"
proof -
  assume l: "json_text l"
  have "\<forall>w \<in> set white_space. (of_char (CHR 0x7B) :: nat) \<notin> of_char ` set w"
    by (simp add: white_space_def bytes_of_def upt_rec)
  then have ws: "CHR 0x7B \<notin> set w" if "w \<in> set white_space" for w
    using that by blast
  from l have "CHR 0x7B \<in> set l" by (metis json_text_line(3,5) hd_in_set)
  then have "CHR 0x7B \<in> set (trim_start l)" unfolding trim_start_def by (intro strip_all_keeps ws)
  then have "CHR 0x7B \<in> set (trim l)"
    unfolding trim_def trim_end_def set_rev using ws by (intro strip_all_keeps) auto
  then show ?thesis by auto
qed

lemma last_valid_log:
  "lib_laws L \<Longrightarrow> last_valid L (map (lib_record_out L) rs) = (if rs = [] then None else Some (last rs))"
  by (induction rs) (auto simp: json_text_not_blank lib_lawsD from_jsonl_out)

end
