(* ===== verification/Audit_Layout.thy ===== *)
theory Audit_Layout
  imports Audit_Text "HOL-Library.Multiset"
begin

text \<open>
  The records of an audit directory by file, how the verifier reads them back, how the daemon finds the
  end of the chain in them when it starts, and what a rotation does to them.
\<close>

section \<open>What a directory holds\<close>

text \<open>
  The records of a directory by file: those that have been pruned, those of each rotated file with the
  number of the first, and those of the active file.
\<close>

record Trail =
  tr_pruned :: "AuditRecord list"
  tr_first :: nat
  tr_rotated :: "AuditRecord list list"
  tr_active :: "AuditRecord list"

definition trail_records :: "Trail \<Rightarrow> AuditRecord list" where
  "trail_records tr = tr_pruned tr @ concat (tr_rotated tr) @ tr_active tr"

definition trail_numbers :: "Trail \<Rightarrow> nat set" where
  "trail_numbers tr = {tr_first tr..<tr_first tr + length (tr_rotated tr)}"

definition holds_trail :: "AuditLibs \<Rightarrow> files \<Rightarrow> Trail \<Rightarrow> bool" where
  "holds_trail L fs tr \<longleftrightarrow>
     hwf fs
     \<and> hget fs ACTIVE_LOG = Some (log_text L (tr_active tr))
     \<and> (\<forall>i < length (tr_rotated tr). hget fs (log_name (tr_first tr + i)) = Some (log_text L (tr_rotated tr ! i)))
     \<and> (\<forall>name. hget fs name \<noteq> None
          \<longrightarrow> name \<in> {ACTIVE_LOG, CHECKPOINTS, ANCHOR, ANCHOR_TMP} \<union> log_name ` trail_numbers tr)"

text \<open>Rotated files hold records, and are numbered from one in the order of rotation.\<close>

definition trail_ok :: "Trail \<Rightarrow> bool" where
  "trail_ok tr \<longleftrightarrow>
     1 \<le> tr_first tr \<and> (tr_rotated tr = [] \<longrightarrow> tr_first tr = 1 \<and> tr_pruned tr = [])
     \<and> (\<forall>rs \<in> set (tr_rotated tr). rs \<noteq> [])
     \<and> tr_first tr \<le> Suc (length (tr_pruned tr))"

lemma length_concat_ge: "(\<forall>xs \<in> set xss. xs \<noteq> []) \<Longrightarrow> length xss \<le> length (concat xss)"
proof (induction xss)
  case (Cons xs xss)
  then have "1 \<le> length xs" by (cases xs) auto
  with Cons show ?case by simp
qed simp

lemma trail_ok_bound:
  assumes "trail_ok tr" "n \<in> trail_numbers tr"
  shows "1 \<le> n" "n \<le> length (tr_pruned tr) + length (concat (tr_rotated tr))"
  using assms length_concat_ge[of "tr_rotated tr"] by (auto simp: trail_ok_def trail_numbers_def)

lemma sort_key_eqI:
  assumes "distinct xs" "set xs = set ys" "sorted_wrt (\<lambda>a b. f a < f b) ys"
  shows "sort_key f xs = ys"
proof -
  from assms(3) have "sorted_wrt (<) (map f ys)" by (simp add: sorted_wrt_map)
  then have ys: "distinct ys" "sorted (map f ys)" "inj_on f (set ys)"
    by (auto simp: strict_sorted_iff distinct_map)
  then have "mset xs = mset ys" using assms by (simp add: set_eq_iff_mset_eq_distinct)
  with ys assms(2) show ?thesis by (intro sort_key_inj_key_eq) auto
qed

lemma distinct_hkeys: "hwf fs \<Longrightarrow> distinct (hkeys fs)"
  by (simp add: hwf_def hkeys_def)

lemma holds_trail_names:
  assumes "holds_trail L fs tr"
  shows "hget fs (log_name n) \<noteq> None \<longleftrightarrow> n \<in> trail_numbers tr"
proof
  assume "hget fs (log_name n) \<noteq> None"
  with assms have "log_name n \<in> {ACTIVE_LOG, CHECKPOINTS, ANCHOR, ANCHOR_TMP} \<union> log_name ` trail_numbers tr"
    unfolding holds_trail_def by blast
  then show "n \<in> trail_numbers tr" by auto
next
  assume "n \<in> trail_numbers tr"
  then have "n = tr_first tr + (n - tr_first tr)" "n - tr_first tr < length (tr_rotated tr)"
    by (auto simp: trail_numbers_def)
  with assms show "hget fs (log_name n) \<noteq> None" unfolding holds_trail_def by (metis option.distinct(1))
qed

lemma sorted_log_names: "sorted_wrt (\<lambda>a b. log_file_order_key a < log_file_order_key b) (map log_name [m..<n])"
  by (simp add: sorted_wrt_map) (rule sorted_wrt_mono_rel[OF _ sorted_wrt_upt], rule log_name_order)

lemma collect_log_files_trail:
  assumes "holds_trail L fs tr"
  shows "collect_log_files fs = map log_name [tr_first tr..<tr_first tr + length (tr_rotated tr)] @ [ACTIVE_LOG]"
  unfolding collect_log_files_def
proof (rule sort_key_eqI)
  show "distinct (filter is_audit_log (hkeys fs))"
    using assms by (simp add: holds_trail_def distinct_hkeys)
  show "sorted_wrt (\<lambda>a b. log_file_order_key a < log_file_order_key b)
      (map log_name [tr_first tr..<tr_first tr + length (tr_rotated tr)] @ [ACTIVE_LOG])"
    by (simp add: sorted_wrt_append sorted_log_names log_name_before_active)
  have "name \<in> log_name ` trail_numbers tr \<or> name = ACTIVE_LOG" if "hget fs name \<noteq> None" "is_audit_log name" for name
    using assms that by (auto simp: holds_trail_def)
  with holds_trail_names[OF assms] assms
  show "set (filter is_audit_log (hkeys fs))
      = set (map log_name [tr_first tr..<tr_first tr + length (tr_rotated tr)] @ [ACTIVE_LOG])"
    by (auto simp: set_hkeys trail_numbers_def holds_trail_def)
qed

lemma stream_files_append:
  "stream_files L fs xs = Inr rs \<Longrightarrow> stream_files L fs ys = Inr rs' \<Longrightarrow> stream_files L fs (xs @ ys) = Inr (rs @ rs')"
  by (induction xs arbitrary: rs) (auto split: option.splits sum.splits)

lemma stream_files_names:
  assumes "lib_laws L" "\<forall>i < length pss. hget fs (log_name (m + i)) = Some (log_text L (pss ! i))"
    and "\<forall>r \<in> set (concat pss). ar_schema_version r = AUDIT_SCHEMA_VERSION"
  shows "stream_files L fs (map log_name [m..<m + length pss]) = Inr (concat pss)"
  using assms(2,3)
proof (induction pss rule: rev_induct)
  case (snoc ps pss)
  have "stream_files L fs (map log_name [m..<m + length pss]) = Inr (concat pss)"
    using snoc by (auto simp: nth_append)
  moreover have "stream_files L fs [log_name (m + length pss)] = Inr ps"
    using snoc.prems assms(1) by (auto simp: stream_file_records_log nth_append)
  ultimately show ?case using stream_files_append[of L fs] by fastforce
qed simp

text \<open>The verifier reads back the records that have not been pruned.\<close>

lemma stream_files_trail:
  assumes "lib_laws L" "holds_trail L fs tr"
    and "\<forall>r \<in> set (trail_records tr). ar_schema_version r = AUDIT_SCHEMA_VERSION"
  shows "stream_files L fs (collect_log_files fs) = Inr (concat (tr_rotated tr) @ tr_active tr)"
proof -
  have "stream_files L fs (map log_name [tr_first tr..<tr_first tr + length (tr_rotated tr)]) = Inr (concat (tr_rotated tr))"
    using assms by (intro stream_files_names) (auto simp: holds_trail_def trail_records_def)
  moreover have "stream_files L fs [ACTIVE_LOG] = Inr (tr_active tr)"
    using assms by (simp add: holds_trail_def trail_records_def stream_file_records_log)
  ultimately show ?thesis
    unfolding collect_log_files_trail[OF assms(2)] by (rule stream_files_append)
qed

section \<open>Recovery\<close>

definition tip :: "AuditLibs \<Rightarrow> AuditRecord list \<Rightarrow> ChainState" where
  "tip L gs = \<lparr>cs_last_hash = head_after L GENESIS_HASH gs, cs_last_seq = of_nat (length gs)\<rparr>"

text \<open>
  An anchor covers a beginning of the active file; if that is the whole file, it has the end of the chain.
  Without an anchor nothing has been rotated.
\<close>

definition anchored :: "AuditLibs \<Rightarrow> files \<Rightarrow> Trail \<Rightarrow> bool" where
  "anchored L fs tr \<longleftrightarrow>
     (case hget fs ANCHOR of
        None \<Rightarrow> tr_pruned tr = [] \<and> tr_rotated tr = []
      | Some text \<Rightarrow>
          (\<exists>a k. lib_anchor_in L text = Some a \<and> k \<le> length (tr_active tr)
             \<and> an_active_bytes a = length (log_text L (take k (tr_active tr)))
             \<and> (k = length (tr_active tr) \<longrightarrow>
                  an_last_hash a = cs_last_hash (tip L (trail_records tr))
                  \<and> an_last_seq a = cs_last_seq (tip L (trail_records tr)))))"

lemma tip_snoc:
  assumes "linked L GENESIS_HASH 0 (gs @ [r])"
  shows "\<lparr>cs_last_hash = record_hash L (ar_prev_hash r) r, cs_last_seq = ar_seq r + 1\<rparr> = tip L (gs @ [r])"
  using assms by (simp add: tip_def linked_snoc add.commute)

lemma drop_as_lines: "drop (length (as_lines out (take k xs))) (as_lines out xs) = as_lines out (drop k xs)"
proof -
  have "as_lines out xs = as_lines out (take k xs) @ as_lines out (drop k xs)"
    by (metis append_take_drop_id as_lines_simps(3))
  then show ?thesis by simp
qed

lemma length_as_lines_take: "length (as_lines out (take k xs)) \<le> length (as_lines out xs)"
proof -
  have "as_lines out xs = as_lines out (take k xs) @ as_lines out (drop k xs)"
    by (metis append_take_drop_id as_lines_simps(3))
  then show ?thesis by simp
qed

text \<open>The daemon resumes the chain where it ended, however it stopped between two messages.\<close>

lemma reconstruct_trail:
  assumes "lib_laws L" "holds_trail L fs tr" "anchored L fs tr" "linked L GENESIS_HASH 0 (trail_records tr)"
  shows "reconstruct_chain_state L fs = Some (tip L (trail_records tr))"
proof -
  have active: "hget fs ACTIVE_LOG = Some (log_text L (tr_active tr))" using assms(2) by (simp add: holds_trail_def)
  have scan: "last_valid L (lines_of (log_text L rs)) = (if rs = [] then None else Some (last rs))"
      "utf8 (log_text L rs)" for rs
    using assms(1) by (simp_all add: lines_of_as_lines lib_lawsD last_valid_log utf8_as_lines)
  have resume: "\<lparr>cs_last_hash = record_hash L (ar_prev_hash (last rs)) (last rs), cs_last_seq = ar_seq (last rs) + 1\<rparr>
      = tip L (trail_records tr)" if "rs = drop k (tr_active tr)" "rs \<noteq> []" for rs k
  proof -
    have "trail_records tr = (tr_pruned tr @ concat (tr_rotated tr) @ take k (tr_active tr) @ butlast rs) @ [last rs]"
      unfolding trail_records_def by (metis that append.assoc append_butlast_last_id append_take_drop_id)
    with tip_snoc assms(4) show ?thesis by metis
  qed
  show ?thesis
  proof (cases "hget fs ANCHOR")
    case None
    with assms(3) have none: "trail_records tr = tr_active tr" by (simp add: anchored_def trail_records_def)
    show ?thesis
      using resume[of "tr_active tr" 0] scan[of "[]"] none None
      by (cases "tr_active tr = []")
        (simp_all add: reconstruct_chain_state_def read_anchor_tail_def read_active_suffix_def active scan
          load_chain_state_def chain_genesis_def tip_def)
  next
    case (Some t)
    with assms(3) obtain a k where a: "lib_anchor_in L t = Some a" "k \<le> length (tr_active tr)"
        "an_active_bytes a = length (log_text L (take k (tr_active tr)))"
        "k = length (tr_active tr) \<Longrightarrow>
           \<lparr>cs_last_hash = an_last_hash a, cs_last_seq = an_last_seq a\<rparr> = tip L (trail_records tr)"
      by (auto simp: anchored_def)
    have "drop (an_active_bytes a) (log_text L (tr_active tr)) = log_text L (drop k (tr_active tr))"
      unfolding a(3) by (rule drop_as_lines)
    moreover have "\<not> length (log_text L (tr_active tr)) < an_active_bytes a"
      unfolding a(3) using length_as_lines_take[of "lib_record_out L" k "tr_active tr"] by simp
    ultimately show ?thesis
      using Some a(1,2,4) resume[of "drop k (tr_active tr)" k] scan[of "[]"]
      by (cases "drop k (tr_active tr) = []")
        (simp_all add: reconstruct_chain_state_def read_anchor_tail_def read_active_suffix_def active scan)
  qed
qed

section \<open>Rotation and pruning\<close>

definition trail_rotate :: "nat \<Rightarrow> Trail \<Rightarrow> Trail" where
  "trail_rotate keep tr =
     (let pss = tr_rotated tr @ [tr_active tr]; d = (if keep = 0 then 0 else length pss - keep)
      in \<lparr>tr_pruned = tr_pruned tr @ concat (take d pss), tr_first = tr_first tr + d,
          tr_rotated = drop d pss, tr_active = []\<rparr>)"

lemma trail_records_rotate [simp]: "trail_records (trail_rotate keep tr) = trail_records tr"
proof -
  have "concat (take d xss) @ concat (drop d xss) = concat xss" for d and xss :: "AuditRecord list list"
    by (metis append_take_drop_id concat_append)
  then show ?thesis
    by (simp add: trail_records_def trail_rotate_def Let_def del: take_append drop_append)
qed

lemma trail_ok_rotate:
  assumes "trail_ok tr" "tr_active tr \<noteq> []"
  shows "trail_ok (trail_rotate keep tr)"
proof -
  define pss where "pss = tr_rotated tr @ [tr_active tr]"
  define d where "d = (if keep = 0 then 0 else length pss - keep)"
  have pss: "\<forall>rs \<in> set pss. rs \<noteq> []" using assms by (auto simp: trail_ok_def pss_def)
  have "d < length pss" by (auto simp: d_def pss_def)
  moreover have "length (take d pss) \<le> length (concat (take d pss))"
    using pss by (intro length_concat_ge) (auto dest: in_set_takeD)
  ultimately show ?thesis
    using assms(1) pss by (auto simp: trail_ok_def trail_rotate_def Let_def pss_def[symmetric] d_def[symmetric]
        dest: in_set_dropD)
qed

lemma find_max_rotation_nI:
  assumes "\<And>name n. hget fs name \<noteq> None \<Longrightarrow> parse_rotation_n name = Some n \<Longrightarrow> n \<le> m"
    and "m = 0 \<or> (\<exists>name. hget fs name \<noteq> None \<and> parse_rotation_n name = Some m)"
  shows "find_max_rotation_n fs = m"
proof -
  let ?f = "\<lambda>name max_n. case parse_rotation_n name of Some n \<Rightarrow> if n > max_n then n else max_n | None \<Rightarrow> max_n"
  have "fold ?f names acc = m"
    if "acc \<le> m" "\<forall>name \<in> set names. \<forall>n. parse_rotation_n name = Some n \<longrightarrow> n \<le> m"
      "acc = m \<or> (\<exists>name \<in> set names. parse_rotation_n name = Some m)" for names acc
    using that by (induction names arbitrary: acc) (auto split: option.splits)
  moreover have "0 = m \<or> (\<exists>name \<in> set (hkeys fs). parse_rotation_n name = Some m)"
    using assms(2) unfolding Bex_def set_hkeys by auto
  moreover have "\<forall>name \<in> set (hkeys fs). \<forall>n. parse_rotation_n name = Some n \<longrightarrow> n \<le> m"
    using assms(1) unfolding Ball_def set_hkeys by blast
  ultimately show ?thesis by (simp add: find_max_rotation_n_def)
qed

lemma of_nat_u64:
  assumes "n < 2 ^ 64"
  shows "unat (of_nat n :: u64) = n"
  using assms by (simp add: unat_of_nat)

lemma find_max_trail:
  assumes "holds_trail L fs tr" "trail_ok tr" "length (trail_records tr) < 2 ^ 64"
  shows "find_max_rotation_n fs = of_nat (tr_first tr + length (tr_rotated tr) - 1)"
proof (rule find_max_rotation_nI)
  have le: "k \<le> tr_first tr + length (tr_rotated tr) - 1 \<and> k < 2 ^ 64" if "k \<in> trail_numbers tr" for k
    using trail_ok_bound[OF assms(2) that] that assms(3) by (auto simp: trail_numbers_def trail_records_def)
  have "tr_first tr \<le> Suc (length (tr_pruned tr))" "length (tr_rotated tr) \<le> length (concat (tr_rotated tr))"
    using length_concat_ge[of "tr_rotated tr"] assms(2) by (simp_all add: trail_ok_def del: length_concat)
  with assms(3) have last: "tr_first tr + length (tr_rotated tr) - 1 < 2 ^ 64"
    by (simp add: trail_records_def del: length_concat)
  fix name n assume "hget fs name \<noteq> None" "parse_rotation_n name = Some n"
  with assms(1) obtain k where k: "k \<in> trail_numbers tr" "name = log_name k"
    by (auto simp: holds_trail_def)
  with le of_nat_u64 have "name = log_name (unat (of_nat k :: u64))" by simp
  with \<open>parse_rotation_n name = Some n\<close> have "n = of_nat k" by simp
  with le[OF k(1)] last show "n \<le> of_nat (tr_first tr + length (tr_rotated tr) - 1)"
    by (simp add: word_le_nat_alt of_nat_u64)
next
  let ?m = "tr_first tr + length (tr_rotated tr) - 1"
  show "(of_nat ?m :: u64) = 0 \<or> (\<exists>name. hget fs name \<noteq> None \<and> parse_rotation_n name = Some (of_nat ?m))"
  proof (cases "tr_rotated tr = []")
    case True
    with assms(2) show ?thesis by (simp add: trail_ok_def)
  next
    case False
    with assms(2) have m: "?m \<in> trail_numbers tr" by (cases "tr_rotated tr") (auto simp: trail_numbers_def trail_ok_def)
    with trail_ok_bound[OF assms(2) m] assms(3) have "unat (of_nat ?m :: u64) = ?m"
      by (intro of_nat_u64) (simp add: trail_records_def)
    with parse_rotation_n_names(5)[of "of_nat ?m"] holds_trail_names[OF assms(1), of ?m] m show ?thesis by metis
  qed
qed

lemma rotated_files_trail:
  assumes "holds_trail L fs tr" "trail_ok tr" "length (trail_records tr) < 2 ^ 64"
  shows "sort_key fst (rotated_files fs)
    = map (\<lambda>n. (of_nat n, log_name n)) [tr_first tr..<tr_first tr + length (tr_rotated tr)]"
proof (rule sort_key_eqI)
  have parse: "parse_rotation_n (log_name n) = Some (of_nat n)" "unat (of_nat n :: u64) = n" if "n \<in> trail_numbers tr" for n
  proof -
    show "unat (of_nat n :: u64) = n"
      using trail_ok_bound[OF assms(2) that] assms(3) by (intro of_nat_u64) (simp add: trail_records_def)
    then show "parse_rotation_n (log_name n) = Some (of_nat n)" by (metis parse_rotation_n_names(5))
  qed
  have "map snd (List.map_filter (\<lambda>name. map_option (\<lambda>n. (n, name)) (parse_rotation_n name)) xs)
      = filter (\<lambda>name. parse_rotation_n name \<noteq> None) xs" for xs
    by (induction xs) (auto simp: List.map_filter_simps split: option.split)
  then have "distinct (map snd (rotated_files fs))"
    using assms(1) by (simp add: rotated_files_def holds_trail_def distinct_hkeys)
  then show "distinct (rotated_files fs)" by (simp add: distinct_map)
  have listed: "(u, name) \<in> set (rotated_files fs) \<longleftrightarrow> hget fs name \<noteq> None \<and> parse_rotation_n name = Some u" for u name
    by (auto simp: rotated_files_def List.map_filter_def set_hkeys intro!: image_eqI[where x = name])
  have "(u, name) \<in> set (rotated_files fs) \<longleftrightarrow> (\<exists>n \<in> trail_numbers tr. u = of_nat n \<and> name = log_name n)" for u name
  proof
    assume "(u, name) \<in> set (rotated_files fs)"
    then have "hget fs name \<noteq> None" "parse_rotation_n name = Some u" by (simp_all add: listed)
    moreover from this(1) assms(1)
    have "name \<in> {ACTIVE_LOG, CHECKPOINTS, ANCHOR, ANCHOR_TMP} \<union> log_name ` trail_numbers tr"
      unfolding holds_trail_def by blast
    ultimately show "\<exists>n \<in> trail_numbers tr. u = of_nat n \<and> name = log_name n"
      using parse(1) by auto
  next
    assume "\<exists>n \<in> trail_numbers tr. u = of_nat n \<and> name = log_name n"
    then show "(u, name) \<in> set (rotated_files fs)"
      using parse(1) holds_trail_names[OF assms(1)] by (auto simp: listed)
  qed
  then show "set (rotated_files fs)
      = set (map (\<lambda>n. (of_nat n, log_name n)) [tr_first tr..<tr_first tr + length (tr_rotated tr)])"
    by (auto simp: trail_numbers_def)
  have "sorted_wrt (\<lambda>m n. (of_nat m :: u64) < of_nat n) [tr_first tr..<tr_first tr + length (tr_rotated tr)]"
    using parse(2) by (intro sorted_wrt_mono_rel[OF _ sorted_wrt_upt])
      (auto simp: word_less_nat_alt trail_numbers_def)
  then show "sorted_wrt (\<lambda>a b. fst a < fst b)
     (map (\<lambda>n. (of_nat n :: u64, log_name n)) [tr_first tr..<tr_first tr + length (tr_rotated tr)])"
    by (simp add: sorted_wrt_map)
qed

definition remove_all :: "string list \<Rightarrow> files \<Rightarrow> files" where
  "remove_all names fs = fold hdel names fs"

lemma hget_remove_all [simp]: "hget (remove_all names fs) k = (if k \<in> set names then None else hget fs k)"
  unfolding remove_all_def by (induction names arbitrary: fs) auto

lemma hwf_remove_all [simp]: "hwf fs \<Longrightarrow> hwf (remove_all names fs)"
  unfolding remove_all_def by (induction names arbitrary: fs) auto

lemma fold_io_remove:
  "ws_outcomes w = [] \<Longrightarrow>
   fold (\<lambda>(n, name) w. snd (io_remove name w)) xs w = w\<lparr>ws_files := remove_all (map snd xs) (ws_files w)\<rparr>"
  unfolding remove_all_def
  by (induction xs arbitrary: w) (auto simp: io_remove_def io_simps)

definition trail_prune :: "nat \<Rightarrow> Trail \<Rightarrow> Trail" where
  "trail_prune d tr =
     tr\<lparr>tr_pruned := tr_pruned tr @ concat (take d (tr_rotated tr)), tr_first := tr_first tr + d,
        tr_rotated := drop d (tr_rotated tr)\<rparr>"

lemma holds_trail_prune:
  assumes "holds_trail L fs tr" "d \<le> length (tr_rotated tr)"
  shows "holds_trail L (remove_all (map log_name [tr_first tr..<tr_first tr + d]) fs) (trail_prune d tr)"
proof -
  have "trail_numbers tr = {tr_first tr..<tr_first tr + d} \<union> trail_numbers (trail_prune d tr)"
    using assms(2) by (auto simp: trail_numbers_def trail_prune_def)
  moreover have "hget fs (log_name (tr_first tr + d + i)) = Some (log_text L (tr_rotated tr ! (d + i)))"
    if "i < length (tr_rotated tr) - d" for i
    using assms that by (simp add: holds_trail_def add.assoc)
  ultimately show ?thesis
    using assms unfolding holds_trail_def by (auto simp: trail_prune_def add.assoc)
qed

lemma prune_quiet:
  assumes "holds_trail L (ws_files w) tr" "trail_ok tr" "length (trail_records tr) < 2 ^ 64" "ws_outcomes w = []"
  defines "d \<equiv> if ws_rotate_keep_files w = 0 then 0 else length (tr_rotated tr) - ws_rotate_keep_files w"
  shows "prune_rotated_files w
    = (True, w\<lparr>ws_files := remove_all (map log_name [tr_first tr..<tr_first tr + d]) (ws_files w)\<rparr>)"
proof -
  note listing = rotated_files_trail[OF assms(1-3)]
  have "length (rotated_files (ws_files w)) = length (sort_key fst (rotated_files (ws_files w)))" by simp
  then have len: "length (rotated_files (ws_files w)) = length (tr_rotated tr)" unfolding listing by simp
  have "map snd (take d (sort_key fst (rotated_files (ws_files w)))) = map log_name [tr_first tr..<tr_first tr + d]"
    unfolding listing by (simp add: take_map d_def)
  then show ?thesis
    using assms(4)
    by (auto simp: prune_rotated_files_def io_read_dir_def io_simps len fold_io_remove d_def remove_all_def Let_def)
qed

lemma trail_rotate_prune:
  "trail_rotate keep tr = trail_prune (if keep = 0 then 0 else Suc (length (tr_rotated tr)) - keep) (trail_rotate 0 tr)"
  by (simp add: trail_rotate_def trail_prune_def Let_def)

lemma holds_trail_move:
  assumes "holds_trail L fs tr"
  shows "holds_trail L
    (hput ACTIVE_LOG [] (hput (log_name (tr_first tr + length (tr_rotated tr))) (log_text L (tr_active tr)) (hdel ACTIVE_LOG fs)))
    (trail_rotate 0 tr)"
proof -
  have "trail_numbers (trail_rotate 0 tr) = insert (tr_first tr + length (tr_rotated tr)) (trail_numbers tr)"
    by (auto simp: trail_numbers_def trail_rotate_def)
  then show ?thesis
    using assms unfolding holds_trail_def by (auto simp: trail_rotate_def nth_append less_Suc_eq)
qed

text \<open>Rotation moves the active file behind the rotated ones, prunes, and seals the chain as it then is.\<close>

lemma rotate_quiet:
  assumes "holds_trail L (ws_files w) tr" "trail_ok tr" "tr_active tr \<noteq> []" "length (trail_records tr) < 2 ^ 64"
    and "ws_outcomes w = []" "ws_file w = ACTIVE_LOG"
  shows "\<exists>fs. rotate L w
      = (True, w\<lparr>ws_file_bytes := 0, ws_files := anchor_put (anchor_text L (w\<lparr>ws_file_bytes := 0\<rparr>)) fs\<rparr>)
    \<and> holds_trail L fs (trail_rotate (ws_rotate_keep_files w) tr)
    \<and> hget fs CHECKPOINTS = hget (ws_files w) CHECKPOINTS"
proof -
  let ?N = "tr_first tr + length (tr_rotated tr)" and ?tr = "trail_rotate 0 tr"
  define fs1 where
    "fs1 = hput ACTIVE_LOG [] (hput (log_name ?N) (log_text L (tr_active tr)) (hdel ACTIVE_LOG (ws_files w)))"
  define w1 where "w1 = w\<lparr>ws_file_bytes := 0, ws_files := fs1\<rparr>"
  define d where "d = (if ws_rotate_keep_files w = 0 then 0 else length (tr_rotated ?tr) - ws_rotate_keep_files w)"
  define fs2 where "fs2 = remove_all (map log_name [tr_first ?tr..<tr_first ?tr + d]) fs1"
  have active: "hget (ws_files w) ACTIVE_LOG = Some (log_text L (tr_active tr))"
    using assms(1) by (simp add: holds_trail_def)
  have "1 \<le> length (tr_active tr)" using assms(3) by (cases "tr_active tr") auto
  then have "?N \<le> length (trail_records tr)"
    using assms(2) length_concat_ge[of "tr_rotated tr"] by (auto simp: trail_ok_def trail_records_def)
  then have N: "unat (of_nat ?N :: u64) = ?N" using assms(4) by (intro of_nat_u64) simp
  have "1 \<le> ?N" using assms(2) by (simp add: trail_ok_def)
  then have "(of_nat (?N - 1) :: u64) + 1 = of_nat ?N"
    by (metis of_nat_1 of_nat_add le_add_diff_inverse2)
  then have name: "rotated_name (find_max_rotation_n (ws_files w) + 1) = log_name ?N"
    unfolding rotated_name_eq find_max_trail[OF assms(1,2,4)] using N by simp
  have tr: "holds_trail L fs1 ?tr" "trail_ok ?tr" "length (trail_records ?tr) < 2 ^ 64"
    unfolding fs1_def using assms by (simp_all add: holds_trail_move trail_ok_rotate)
  have prune: "prune_rotated_files w1 = (True, w1\<lparr>ws_files := fs2\<rparr>)"
    using prune_quiet[of L w1 ?tr] tr assms(5) by (simp add: w1_def fs2_def d_def)
  have anchor: "write_anchor L (w1\<lparr>ws_files := fs2\<rparr>)
      = (True, w1\<lparr>ws_files := anchor_put (anchor_text L (w\<lparr>ws_file_bytes := 0\<rparr>)) fs2\<rparr>)"
    using assms(5,6) by (simp add: write_anchor_quiet w1_def anchor_text_def)
  have "w\<lparr>ws_files := fs1, ws_file := ACTIVE_LOG, ws_file_bytes := 0\<rparr> = w1"
    using assms(6) by (cases w) (simp add: w1_def)
  then have "rotate L w = (True, w1\<lparr>ws_files := anchor_put (anchor_text L (w\<lparr>ws_file_bytes := 0\<rparr>)) fs2\<rparr>)"
    using assms(5,6) name active prune anchor
    by (simp add: rotate_def io_sync_def io_read_dir_def io_rename_def io_create_def rename_file_def pure_step_def
        io_simps fs1_def[symmetric] w1_def[symmetric])
  moreover have "holds_trail L fs2 (trail_rotate (ws_rotate_keep_files w) tr)"
  proof -
    have "length (tr_rotated ?tr) = Suc (length (tr_rotated tr))" by (simp add: trail_rotate_def)
    then have "trail_rotate (ws_rotate_keep_files w) tr = trail_prune d ?tr" "d \<le> length (tr_rotated ?tr)"
      using trail_rotate_prune[of "ws_rotate_keep_files w" tr] by (simp_all add: d_def)
    with holds_trail_prune[OF tr(1)] show ?thesis by (simp add: fs2_def)
  qed
  moreover have "hget fs2 CHECKPOINTS = hget (ws_files w) CHECKPOINTS"
    by (auto simp: fs2_def fs1_def)
  ultimately show ?thesis by (auto simp: w1_def)
qed

end
