(* ===== verification/Audit_Trail.thy ===== *)
theory Audit_Trail
  imports Audit_Layout
begin

text \<open>
  What the writer leaves in the directory, the verifier accepts: over restarts, rotations, pruning and
  checkpoints, as long as every I/O call succeeds and the clock does not run backwards.
\<close>

section \<open>The writer between two messages\<close>

text \<open>The checkpoint lines of a directory, and what is true of those the daemon wrote with its key.\<close>

definition holds_lines :: "AuditLibs \<Rightarrow> files \<Rightarrow> CheckpointLine list \<Rightarrow> bool" where
  "holds_lines L fs cls \<longleftrightarrow>
     (case hget fs CHECKPOINTS of None \<Rightarrow> cls = [] | Some content \<Rightarrow> content = as_lines (lib_line_out L) cls)"

definition line_ok :: "AuditLibs \<Rightarrow> u8 list \<Rightarrow> AuditRecord list \<Rightarrow> CheckpointLine \<Rightarrow> bool" where
  "line_ok L key gs cl \<longleftrightarrow>
     checkpoint_of L gs (cl_checkpoint cl)
     \<and> saturating_sub (cp_record_count (cl_checkpoint cl)) 1 \<le> cp_seq (cl_checkpoint cl)
     \<and> ar_ts_unix_ms (gs ! unat (cp_seq (cl_checkpoint cl))) \<le> cp_ts_unix_ms (cl_checkpoint cl)
     \<and> cl_signature cl = sign_checkpoint L key (cl_checkpoint cl)"

text \<open>The directory after the daemon has served a message.\<close>

definition dir_ok :: "AuditLibs \<Rightarrow> u8 list \<Rightarrow> files \<Rightarrow> Trail \<Rightarrow> CheckpointLine list \<Rightarrow> bool" where
  "dir_ok L key fs tr cls \<longleftrightarrow>
     holds_trail L fs tr \<and> trail_ok tr \<and> anchored L fs tr \<and> holds_lines L fs cls
     \<and> linked L GENESIS_HASH 0 (trail_records tr) \<and> length (trail_records tr) < 2 ^ 64
     \<and> (\<forall>r \<in> set (trail_records tr). ar_schema_version r = AUDIT_SCHEMA_VERSION)
     \<and> (\<forall>cl \<in> set cls. line_ok L key (trail_records tr) cl)"

definition written_by :: "u64 \<Rightarrow> AuditRecord list \<Rightarrow> bool" where
  "written_by t gs \<longleftrightarrow> gs = [] \<or> ar_ts_unix_ms (last gs) \<le> t"

definition writer_core :: "AuditLibs \<Rightarrow> u8 list \<Rightarrow> WriterState \<Rightarrow> Trail \<Rightarrow> CheckpointLine list \<Rightarrow> bool" where
  "writer_core L key w tr cls \<longleftrightarrow>
     dir_ok L key (ws_files w) tr cls
     \<and> ws_outcomes w = [] \<and> ws_file w = ACTIVE_LOG
     \<and> ws_chain w = tip L (trail_records tr) \<and> ws_file_bytes w = length (log_text L (tr_active tr))
     \<and> ws_signer w \<in> {None, Some key}
     \<and> unat (ws_record_count w) \<le> length (trail_records tr)
     \<and> ws_records_since_checkpoint w \<le> ws_record_count w"

text \<open>Few records have not been covered by a checkpoint; if none, the last one is.\<close>

definition writer_ok :: "AuditLibs \<Rightarrow> u8 list \<Rightarrow> WriterState \<Rightarrow> Trail \<Rightarrow> CheckpointLine list \<Rightarrow> bool" where
  "writer_ok L key w tr cls \<longleftrightarrow>
     writer_core L key w tr cls \<and> ws_records_since_checkpoint w < CHECKPOINT_INTERVAL
     \<and> (ws_signer w = Some key \<and> ws_record_count w \<noteq> 0 \<and> ws_records_since_checkpoint w = 0
          \<longrightarrow> (\<exists>cl \<in> set cls. Suc (unat (cp_seq (cl_checkpoint cl))) = length (trail_records tr)))"

lemma holds_trail_anchor_put: "holds_trail L fs tr \<Longrightarrow> holds_trail L (anchor_put t fs) tr"
  by (auto simp: holds_trail_def)

lemma holds_lines_anchor_put [simp]: "holds_lines L (anchor_put t fs) cls \<longleftrightarrow> holds_lines L fs cls"
  by (simp add: holds_lines_def)

lemma holds_trail_checkpoint_put: "holds_trail L fs tr \<Longrightarrow> holds_trail L (checkpoint_put t fs) tr"
  by (auto simp: holds_trail_def)

lemma holds_lines_checkpoint_put:
  "holds_lines L fs cls \<Longrightarrow> holds_lines L (checkpoint_put (lib_line_out L cl @ [CHR 0x0A]) fs) (cls @ [cl])"
  by (auto simp: holds_lines_def split: option.splits)

lemma holds_trail_append:
  "holds_trail L fs tr \<Longrightarrow>
   holds_trail L (hput ACTIVE_LOG (log_text L (tr_active tr @ rs)) fs) (tr\<lparr>tr_active := tr_active tr @ rs\<rparr>)"
  by (auto simp: holds_trail_def trail_numbers_def)

lemma trail_records_append [simp]:
  "trail_records (tr\<lparr>tr_active := tr_active tr @ rs\<rparr>) = trail_records tr @ rs"
  by (simp add: trail_records_def)

lemma line_ok_append: "line_ok L key gs cl \<Longrightarrow> line_ok L key (gs @ rs) cl" if "linked L GENESIS_HASH 0 (gs @ rs)"
proof -
  assume ok: "line_ok L key gs cl"
  let ?q = "cp_seq (cl_checkpoint cl)"
  from ok have q: "unat ?q < length gs" by (simp add: line_ok_def checkpoint_of_def)
  have "records_upto ?q (gs @ rs) = records_upto ?q gs"
    using linked_upto[OF that, of ?q] linked_upto[OF linked_appendD1[OF that], of ?q] q by simp
  with ok q show ?thesis by (simp add: line_ok_def checkpoint_of_def nth_append)
qed

text \<open>The record as it enters the chain.\<close>

definition chained :: "AuditLibs \<Rightarrow> AuditRecord list \<Rightarrow> AuditRecord \<Rightarrow> AuditRecord" where
  "chained L gs r = r\<lparr>ar_seq := of_nat (length gs), ar_prev_hash := head_after L GENESIS_HASH gs\<rparr>"

lemma chain_append_tip: "chain_append L r (tip L gs) = (chained L gs r, tip L (gs @ [chained L gs r]))"
  by (simp add: chain_append_def tip_def chained_def Let_def add.commute)

lemma linked_chained:
  assumes "linked L GENESIS_HASH 0 gs" "length gs < 2 ^ 64"
  shows "linked L GENESIS_HASH 0 (gs @ [chained L gs r])"
proof -
  have "ar_seq (last gs) \<noteq> - 1" if "gs \<noteq> []"
  proof
    assume "ar_seq (last gs) = - 1"
    with linked_length[OF assms(1) that] have "unat (- 1 :: u64) = length gs - 1" by simp
    then show False using assms(2) that unfolding u64_max_eq by (cases gs) auto
  qed
  with assms(1) show ?thesis by (simp add: linked_snoc chained_def)
qed

lemma line_ok_now:
  assumes "writer_core L key w tr cls" "trail_records tr \<noteq> []" "written_by now (trail_records tr)"
  defines "cp \<equiv> checkpoint_now now w"
  shows "line_ok L key (trail_records tr) \<lparr>cl_checkpoint = cp, cl_signature = sign_checkpoint L key cp\<rparr>"
    and "Suc (unat (cp_seq cp)) = length (trail_records tr)"
proof -
  let ?gs = "trail_records tr"
  have core: "ws_chain w = tip L ?gs" "length ?gs < 2 ^ 64" "linked L GENESIS_HASH 0 ?gs"
      "unat (ws_record_count w) \<le> length ?gs"
    using assms(1) by (simp_all add: writer_core_def dir_ok_def)
  have n: "1 \<le> length ?gs" using assms(2) by (cases ?gs) auto
  have "(1 :: u64) \<le> of_nat (length ?gs)" using n core(2) by (simp add: word_le_nat_alt of_nat_u64)
  then have "unat (saturating_sub (of_nat (length ?gs) :: u64) 1) = length ?gs - 1"
    using core(2) by (simp add: saturating_sub_def unat_sub of_nat_u64)
  then have seq: "unat (cp_seq cp) = length ?gs - 1" by (simp add: cp_def checkpoint_now_def core(1) tip_def)
  then show "Suc (unat (cp_seq cp)) = length ?gs" using n by simp
  have "saturating_sub (ws_record_count w) 1 \<le> cp_seq cp"
  proof (cases "1 \<le> ws_record_count w")
    case True
    then show ?thesis using seq core(4) by (simp add: saturating_sub_def word_le_nat_alt unat_sub)
  qed (simp add: saturating_sub_def)
  moreover have "records_upto (cp_seq cp) ?gs = ?gs"
    using linked_upto[OF core(3)] seq n by simp
  moreover have "?gs ! (length ?gs - 1) = last ?gs" using assms(2) by (simp add: last_conv_nth)
  ultimately show "line_ok L key ?gs \<lparr>cl_checkpoint = cp, cl_signature = sign_checkpoint L key cp\<rparr>"
    using seq n assms(2,3) core(1)
    by (simp add: line_ok_def checkpoint_of_def written_by_def) (simp add: cp_def checkpoint_now_def tip_def)
qed

lemma anchored_now:
  assumes "lib_laws L" "ws_chain w = tip L (trail_records tr)" "ws_file_bytes w = length (log_text L (tr_active tr))"
  shows "anchored L (anchor_put (anchor_text L w) fs) tr"
  using assms unfolding anchored_def
  by (auto simp: anchor_text_def lib_lawsD intro!: exI[of _ "length (tr_active tr)"])

text \<open>The anchor has the end of the chain, which is what the verifier asks for.\<close>

definition sealed :: "AuditLibs \<Rightarrow> files \<Rightarrow> AuditRecord list \<Rightarrow> bool" where
  "sealed L fs gs \<longleftrightarrow>
     (case hget fs ANCHOR of
        None \<Rightarrow> False
      | Some t \<Rightarrow> (case lib_anchor_in L t of
                     None \<Rightarrow> False
                   | Some a \<Rightarrow> an_last_hash a = cs_last_hash (tip L gs) \<and> an_last_seq a = cs_last_seq (tip L gs)))"

lemma sealed_now:
  assumes "lib_laws L" "ws_chain w = tip L gs"
  shows "sealed L (anchor_put (anchor_text L w) fs) gs"
  using assms by (simp add: sealed_def anchor_text_def lib_lawsD)

lemma write_anchor_ok:
  assumes "lib_laws L" "writer_ok L key w tr cls"
  shows "\<exists>w'. write_anchor L w = (True, w') \<and> writer_ok L key w' tr cls \<and> sealed L (ws_files w') (trail_records tr)
    \<and> ws_record_count w' = ws_record_count w"
proof -
  have "ws_outcomes w = []" "ws_file w \<noteq> ANCHOR_TMP" "ws_chain w = tip L (trail_records tr)"
      "ws_file_bytes w = length (log_text L (tr_active tr))"
    using assms(2) by (simp_all add: writer_ok_def writer_core_def)
  with assms show ?thesis
    by (auto simp: write_anchor_quiet sealed_now writer_ok_def writer_core_def dir_ok_def holds_trail_anchor_put anchored_now)
qed

lemma do_checkpoint_ok:
  assumes "lib_laws L" "writer_core L key w tr cls" "trail_records tr \<noteq> []" "written_by now (trail_records tr)"
  shows "\<exists>w' cls'. do_checkpoint L now w = (True, w') \<and> writer_ok L key w' tr cls'
    \<and> sealed L (ws_files w') (trail_records tr) \<and> ws_record_count w' = ws_record_count w \<and> ws_signer w' = ws_signer w"
proof -
  define cl where "cl = \<lparr>cl_checkpoint = checkpoint_now now w, cl_signature = sign_checkpoint L key (checkpoint_now now w)\<rparr>"
  have core: "ws_outcomes w = []" "ws_file w \<noteq> ANCHOR_TMP" "ws_chain w = tip L (trail_records tr)"
      "ws_file_bytes w = length (log_text L (tr_active tr))"
    using assms(2) by (simp_all add: writer_core_def)
  have ok: "line_ok L key (trail_records tr) cl" "Suc (unat (cp_seq (cl_checkpoint cl))) = length (trail_records tr)"
    using line_ok_now[OF assms(2-4)] by (simp_all add: cl_def)
  define w' where "w' = w\<lparr>ws_records_since_checkpoint := 0, ws_files := sealed_files L now w\<rparr>"
  have "do_checkpoint L now w = (True, w')" using core by (simp add: do_checkpoint_quiet w'_def)
  moreover have "sealed L (ws_files w') (trail_records tr)"
    using assms(1) core by (simp add: w'_def sealed_files_def sealed_now)
  moreover have "writer_ok L key w' tr (if ws_signer w = None then cls else cls @ [cl])"
  proof (cases "ws_signer w")
    case None
    with assms(1,2) core show ?thesis
      by (auto simp: writer_ok_def writer_core_def dir_ok_def w'_def sealed_files_def holds_trail_anchor_put
          anchored_now CHECKPOINT_INTERVAL_def)
  next
    case (Some k)
    with assms(2) have "k = key" by (simp add: writer_core_def)
    with Some assms(1,2) core ok holds_lines_checkpoint_put[of L "ws_files w" cls cl] show ?thesis
      by (auto simp: writer_ok_def writer_core_def dir_ok_def w'_def sealed_files_def holds_trail_anchor_put
          anchored_now CHECKPOINT_INTERVAL_def holds_trail_checkpoint_put checkpoint_text_def cl_def)
  qed
  moreover have "ws_record_count w' = ws_record_count w" "ws_signer w' = ws_signer w" by (simp_all add: w'_def)
  ultimately show ?thesis by blast
qed

text \<open>A record enters the chain and the active file, after a rotation if it does not fit.\<close>

lemma dir_ok_append:
  assumes "dir_ok L key fs tr cls" "r' = chained L (trail_records tr) r" "ar_schema_version r = AUDIT_SCHEMA_VERSION"
    and "Suc (length (trail_records tr)) < 2 ^ 64"
    and "holds_trail L fs' tr'" "trail_ok tr'" "anchored L fs' tr'" "trail_records tr' = trail_records tr @ [r']"
    and "hget fs' CHECKPOINTS = hget fs CHECKPOINTS"
  shows "dir_ok L key fs' tr' cls"
proof -
  have "linked L GENESIS_HASH 0 (trail_records tr @ [r'])"
    unfolding assms(2) using assms(1,4) by (intro linked_chained) (simp_all add: dir_ok_def)
  moreover have "ar_schema_version r' = AUDIT_SCHEMA_VERSION" using assms(2,3) by (simp add: chained_def)
  ultimately show ?thesis
    using assms by (auto simp: dir_ok_def holds_lines_def line_ok_append)
qed

lemma anchored_append:
  assumes "anchored L fs tr" "hget fs' ANCHOR = hget fs ANCHOR"
  shows "anchored L fs' (tr\<lparr>tr_active := tr_active tr @ [r]\<rparr>)"
proof (cases "hget fs ANCHOR")
  case None
  with assms show ?thesis by (simp add: anchored_def)
next
  case (Some t)
  with assms(1) obtain a k where "lib_anchor_in L t = Some a" "k \<le> length (tr_active tr)"
      "an_active_bytes a = length (log_text L (take k (tr_active tr)))"
    by (auto simp: anchored_def)
  with Some assms(2) show ?thesis
    by (auto simp: anchored_def intro!: exI[of _ k])
qed

lemma anchored_fresh:
  assumes "lib_laws L" "tr_active tr \<noteq> []" "ws_file_bytes w = 0"
  shows "hget fs ANCHOR = Some (anchor_text L w) \<Longrightarrow> anchored L fs tr"
  using assms unfolding anchored_def by (auto simp: anchor_text_def lib_lawsD intro!: exI[of _ 0])

definition make_room :: "AuditLibs \<Rightarrow> nat \<Rightarrow> step" where
  "make_room L n w =
     (if ws_file_bytes w > 0 \<and> ws_file_bytes w + n > ws_rotate_max_bytes w then rotate L w else (True, w))"

lemma make_room_ok:
  assumes "lib_laws L" "holds_trail L (ws_files w) tr" "trail_ok tr" "anchored L (ws_files w) tr"
    and "length (trail_records tr) < 2 ^ 64" "ws_outcomes w = []" "ws_file w = ACTIVE_LOG"
    and "ws_file_bytes w = length (log_text L (tr_active tr))"
  shows "\<exists>fs tr'. make_room L n w = (True, w\<lparr>ws_file_bytes := length (log_text L (tr_active tr')), ws_files := fs\<rparr>)
    \<and> holds_trail L fs tr' \<and> trail_ok tr' \<and> trail_records tr' = trail_records tr
    \<and> hget fs CHECKPOINTS = hget (ws_files w) CHECKPOINTS
    \<and> (\<forall>r t. anchored L (hput ACTIVE_LOG t fs) (tr'\<lparr>tr_active := tr_active tr' @ [r]\<rparr>))"
proof (cases "ws_file_bytes w > 0 \<and> ws_file_bytes w + n > ws_rotate_max_bytes w")
  case True
  then have "tr_active tr \<noteq> []" using assms(8) by auto
  let ?tr = "trail_rotate (ws_rotate_keep_files w) tr" and ?text = "anchor_text L (w\<lparr>ws_file_bytes := 0\<rparr>)"
  obtain fs where fs: "rotate L w = (True, w\<lparr>ws_file_bytes := 0, ws_files := anchor_put ?text fs\<rparr>)"
      "holds_trail L fs ?tr" "hget fs CHECKPOINTS = hget (ws_files w) CHECKPOINTS"
    using rotate_quiet[OF assms(2,3) \<open>tr_active tr \<noteq> []\<close> assms(5-7)] by auto
  have active: "tr_active ?tr = []" by (simp add: trail_rotate_def Let_def)
  have "anchored L (hput ACTIVE_LOG t (anchor_put ?text fs)) (?tr\<lparr>tr_active := tr_active ?tr @ [r]\<rparr>)" for r t
    by (rule anchored_fresh[OF assms(1), of _ "w\<lparr>ws_file_bytes := 0\<rparr>"]) simp_all
  with fs True active trail_ok_rotate[OF assms(3) \<open>tr_active tr \<noteq> []\<close>] show ?thesis
    by (intro exI[of _ "anchor_put ?text fs"] exI[of _ ?tr]) (simp add: make_room_def holds_trail_anchor_put)
next
  case False
  have "w = w\<lparr>ws_file_bytes := length (log_text L (tr_active tr)), ws_files := ws_files w\<rparr>"
    using assms(8) by (cases w) simp
  with False assms show ?thesis
    by (intro exI[of _ "ws_files w"] exI[of _ tr]) (auto simp: make_room_def intro: anchored_append)
qed

lemma write_record_raw_stages:
  "write_record_raw L now r w =
     (case chain_append L r (ws_chain w) of (r', chain) \<Rightarrow>
        then_try (make_room L (length (to_jsonl L r')))
          (then_try (\<lambda>w. io_write_all (ws_file w) (to_jsonl L r') w)
          (then_try (pure_step (count_record (length (to_jsonl L r'))))
            (\<lambda>w. if ws_records_since_checkpoint w \<ge> CHECKPOINT_INTERVAL then do_checkpoint L now w
                 else (True, w)))) (w\<lparr>ws_chain := chain\<rparr>))"
  by (simp add: write_record_raw_def make_room_def pure_step_def then_try_def Let_def split: prod.split)

lemma enter_ok:
  assumes "lib_laws L" "writer_ok L key w tr cls" "ar_schema_version r = AUDIT_SCHEMA_VERSION"
    and "Suc (length (trail_records tr)) < 2 ^ 64"
  defines "r' \<equiv> chained L (trail_records tr) r"
  shows "\<exists>w' tr'. write_record_raw L now r w
      = (if ws_records_since_checkpoint w' \<ge> CHECKPOINT_INTERVAL then do_checkpoint L now w' else (True, w'))
    \<and> writer_core L key w' tr' cls \<and> trail_records tr' = trail_records tr @ [r']
    \<and> ws_records_since_checkpoint w' = ws_records_since_checkpoint w + 1 \<and> ws_record_count w' = ws_record_count w + 1
    \<and> ws_signer w' = ws_signer w"
proof -
  let ?gs = "trail_records tr"
  have core: "ws_outcomes w = []" "ws_file w = ACTIVE_LOG" "ws_chain w = tip L ?gs"
      "ws_file_bytes w = length (log_text L (tr_active tr))" "dir_ok L key (ws_files w) tr cls"
      "ws_signer w \<in> {None, Some key}" "unat (ws_record_count w) \<le> length ?gs"
      "ws_records_since_checkpoint w \<le> ws_record_count w"
    using assms(2) by (simp_all add: writer_ok_def writer_core_def)
  have dir: "holds_trail L (ws_files w) tr" "trail_ok tr" "anchored L (ws_files w) tr" "length ?gs < 2 ^ 64"
    using core(5) by (simp_all add: dir_ok_def)
  define w0 where "w0 = w\<lparr>ws_chain := tip L (?gs @ [r'])\<rparr>"
  obtain fs1 tr1 where room: "make_room L (length (to_jsonl L r')) w0
        = (True, w0\<lparr>ws_file_bytes := length (log_text L (tr_active tr1)), ws_files := fs1\<rparr>)"
      and tr1: "holds_trail L fs1 tr1" "trail_ok tr1" "trail_records tr1 = ?gs"
        "hget fs1 CHECKPOINTS = hget (ws_files w) CHECKPOINTS"
      and anchor: "\<And>t. anchored L (hput ACTIVE_LOG t fs1) (tr1\<lparr>tr_active := tr_active tr1 @ [r']\<rparr>)"
    using make_room_ok[OF assms(1), of w0 tr "length (to_jsonl L r')"] dir core by (auto simp: w0_def)
  have active: "hget fs1 ACTIVE_LOG = Some (log_text L (tr_active tr1))" using tr1(1) by (simp add: holds_trail_def)
  define fs2 where "fs2 = hput ACTIVE_LOG (log_text L (tr_active tr1 @ [r'])) fs1"
  define tr2 where "tr2 = tr1\<lparr>tr_active := tr_active tr1 @ [r']\<rparr>"
  define w2 where "w2 = w0\<lparr>ws_files := fs2, ws_file_bytes := length (log_text L (tr_active tr2)),
      ws_record_count := ws_record_count w + 1, ws_records_since_checkpoint := ws_records_since_checkpoint w + 1\<rparr>"
  have append: "chain_append L r (ws_chain w) = (r', tip L (?gs @ [r']))"
    unfolding core(3) chain_append_tip r'_def ..
  have "write_record_raw L now r w
      = (if ws_records_since_checkpoint w2 \<ge> CHECKPOINT_INTERVAL then do_checkpoint L now w2 else (True, w2))"
    unfolding write_record_raw_stages append prod.case w0_def[symmetric]
      then_try_True[of "make_room L (length (to_jsonl L r'))", OF room]
    using core(1,2) active
    by (simp add: io_write_all_def pure_step_def count_record_def io_simps to_jsonl_def w0_def w2_def fs2_def tr2_def)
  moreover have "writer_core L key w2 tr2 cls"
  proof -
    have count: "unat (ws_record_count w + 1) = Suc (unat (ws_record_count w))"
      using core(7) dir(4) assms(4) by (intro unat_add_one u64_room) simp
    moreover have "dir_ok L key fs2 tr2 cls"
      using dir_ok_append[OF core(5) r'_def[THEN meta_eq_to_obj_eq] assms(3,4), of fs2 tr2] tr1 anchor
      by (simp add: tr2_def fs2_def holds_trail_append trail_ok_def del: as_lines_simps)
    moreover have "ws_records_since_checkpoint w + 1 \<le> ws_record_count w + 1"
      using core(8) count by (auto simp: word_le_nat_alt unat_word_ariths)
    ultimately show ?thesis
      using core tr1(3) by (simp add: writer_core_def w2_def w0_def tr2_def)
  qed
  ultimately show ?thesis
    using tr1(3) by (intro exI[of _ w2] exI[of _ tr2]) (simp add: tr2_def w2_def w0_def)
qed

lemma write_record_raw_ok:
  assumes "lib_laws L" "writer_ok L key w tr cls" "ar_schema_version r = AUDIT_SCHEMA_VERSION"
    and "Suc (length (trail_records tr)) < 2 ^ 64" "ar_ts_unix_ms r \<le> now"
  shows "\<exists>w' tr' cls'. write_record_raw L now r w = (True, w') \<and> writer_ok L key w' tr' cls'
    \<and> trail_records tr' = trail_records tr @ [chained L (trail_records tr) r] \<and> ws_record_count w' = ws_record_count w + 1
    \<and> ws_signer w' = ws_signer w"
proof -
  obtain w1 tr1 where enter: "write_record_raw L now r w
        = (if ws_records_since_checkpoint w1 \<ge> CHECKPOINT_INTERVAL then do_checkpoint L now w1 else (True, w1))"
      and core: "writer_core L key w1 tr1 cls" "trail_records tr1 = trail_records tr @ [chained L (trail_records tr) r]"
        "ws_records_since_checkpoint w1 = ws_records_since_checkpoint w + 1" "ws_record_count w1 = ws_record_count w + 1"
        "ws_signer w1 = ws_signer w"
    using enter_ok[OF assms(1-4), of now] by blast
  show ?thesis
  proof (cases "ws_records_since_checkpoint w1 \<ge> CHECKPOINT_INTERVAL")
    case True
    have "written_by now (trail_records tr1)" using core(2) assms(5) by (simp add: written_by_def chained_def)
    with do_checkpoint_ok[OF assms(1) core(1)] core(2,4,5) enter True show ?thesis by fastforce
  next
    case False
    have "ws_records_since_checkpoint w \<noteq> - 1"
      using assms(2) by (auto simp: writer_ok_def CHECKPOINT_INTERVAL_def)
    then have "ws_records_since_checkpoint w1 \<noteq> 0" using core(3) word_add_one_pos by (metis less_irrefl)
    with False core enter show ?thesis by (fastforce simp: writer_ok_def)
  qed
qed

text \<open>
  A message is timely after \<open>t\<close> when its record is not dated after the clock readings of the writer, and
  these readings do not run backwards.
\<close>

definition readings_after :: "u64 \<Rightarrow> Readings \<Rightarrow> bool" where
  "readings_after t rd \<longleftrightarrow> t \<le> rd_gap_ts rd \<and> rd_gap_ts rd \<le> rd_gap_now rd \<and> rd_gap_now rd \<le> rd_now rd"

definition record_valid :: "Readings \<Rightarrow> AuditRecord \<Rightarrow> bool" where
  "record_valid rd r \<longleftrightarrow> ar_schema_version r = AUDIT_SCHEMA_VERSION \<and> ar_ts_unix_ms r \<le> rd_now rd"

text \<open>
  The writer is in order after time \<open>t\<close>, with the signing key \<open>sg\<close> and room for \<open>n\<close> more records in the chain;
  if \<open>b\<close> holds, it has written a record since it was opened.
\<close>

definition in_order :: "AuditLibs \<Rightarrow> u8 list \<Rightarrow> u8 list option \<Rightarrow> nat \<Rightarrow> u64 \<Rightarrow> bool \<Rightarrow> WriterState \<Rightarrow> bool" where
  "in_order L key sg n t b w \<longleftrightarrow>
     (\<exists>tr cls. writer_ok L key w tr cls \<and> length (trail_records tr) + n < 2 ^ 64 \<and> written_by t (trail_records tr))
     \<and> (b \<longrightarrow> ws_record_count w \<noteq> 0) \<and> ws_signer w = sg"

lemma in_order_mono:
  "in_order L key sg n t b w \<Longrightarrow> n' \<le> n \<Longrightarrow> t \<le> t' \<Longrightarrow> (b' \<Longrightarrow> b) \<Longrightarrow> in_order L key sg n' t' b' w"
  by (auto simp: in_order_def written_by_def)

lemma in_order_raw:
  assumes "lib_laws L" "in_order L key sg (Suc n) t b w" "ar_schema_version r = AUDIT_SCHEMA_VERSION" "ar_ts_unix_ms r \<le> now"
  shows "\<exists>w'. write_record_raw L now r w = (True, w') \<and> in_order L key sg n now True w'"
proof -
  obtain tr cls where ok: "writer_ok L key w tr cls" "length (trail_records tr) + Suc n < 2 ^ 64"
    using assms(2) by (auto simp: in_order_def)
  obtain w' tr' cls' where w': "write_record_raw L now r w = (True, w')" "writer_ok L key w' tr' cls'"
      "trail_records tr' = trail_records tr @ [chained L (trail_records tr) r]" "ws_record_count w' = ws_record_count w + 1"
      "ws_signer w' = ws_signer w"
    using write_record_raw_ok[OF assms(1) ok(1) assms(3) _ assms(4)] ok(2) by auto
  have "unat (ws_record_count w) \<le> length (trail_records tr)"
    using ok(1) by (simp add: writer_ok_def writer_core_def)
  with ok(2) have "ws_record_count w \<noteq> - 1" by (intro u64_room) simp
  from word_add_one_pos[OF this] have "ws_record_count w' \<noteq> 0" by (simp add: w'(4) word_gt_0)
  moreover have "written_by now (trail_records tr')" "length (trail_records tr') + n < 2 ^ 64"
    using w'(3) ok(2) assms(4) by (simp_all add: written_by_def chained_def)
  moreover have "ws_signer w' = sg" using w'(5) assms(2) by (simp add: in_order_def)
  ultimately have "in_order L key sg n now True w'"
    unfolding in_order_def using w'(2) by (intro conjI impI exI[of _ tr'] exI[of _ cls'])
  with w'(1) show ?thesis by simp
qed

lemma in_order_gap:
  assumes "lib_laws L" "in_order L key sg (Suc n) t b w" "readings_after t rd"
  shows "\<exists>w'. maybe_write_gap_sentinel L rd w = (True, w') \<and> in_order L key sg n (rd_gap_now rd) b w'"
proof (cases "rd_dropped rd \<le> ws_last_seen_dropped w")
  case True
  have "t \<le> rd_gap_now rd" using assms(3) by (auto simp: readings_after_def)
  with True in_order_mono[OF assms(2), of n "rd_gap_now rd" b] show ?thesis
    by (simp add: maybe_write_gap_sentinel_def)
next
  case False
  have "writer_ok L key (w\<lparr>ws_last_seen_dropped := rd_dropped rd\<rparr>) tr cls = writer_ok L key w tr cls" for tr cls
    by (simp add: writer_ok_def writer_core_def)
  with assms(2) have "in_order L key sg (Suc n) t b (w\<lparr>ws_last_seen_dropped := rd_dropped rd\<rparr>)"
    by (simp add: in_order_def)
  from in_order_raw[OF assms(1) this, of "gap_sentinel (rd_gap_ts rd) (rd_dropped rd - ws_last_seen_dropped w)" "rd_gap_now rd"]
    assms(3) obtain w' where "write_record_raw L (rd_gap_now rd)
        (gap_sentinel (rd_gap_ts rd) (rd_dropped rd - ws_last_seen_dropped w)) (w\<lparr>ws_last_seen_dropped := rd_dropped rd\<rparr>)
        = (True, w')" "in_order L key sg n (rd_gap_now rd) True w'"
    by (auto simp: gap_sentinel_def readings_after_def)
  with False in_order_mono[OF this(2), of n "rd_gap_now rd" b] show ?thesis
    by (simp add: maybe_write_gap_sentinel_def)
qed

lemma in_order_record:
  assumes "lib_laws L" "in_order L key sg (n + 2) t b w" "readings_after t rd" "record_valid rd r"
  shows "in_order L key sg n (rd_now rd) True (snd (write_record L rd r w))"
proof -
  obtain w1 where w1: "maybe_write_gap_sentinel L rd w = (True, w1)" "in_order L key sg (Suc n) (rd_gap_now rd) b w1"
    using in_order_gap[OF assms(1) _ assms(3), of key sg "Suc n"] assms(2) by auto
  obtain w2 where "write_record_raw L (rd_now rd) r w1 = (True, w2)" "in_order L key sg n (rd_now rd) True w2"
    using in_order_raw[OF assms(1) w1(2)] assms(4) by (auto simp: record_valid_def)
  with w1 show ?thesis by (simp add: write_record_def then_try_def)
qed

text \<open>A directory that has been sealed, with the last record under a checkpoint if \<open>b\<close> holds.\<close>

definition closed_ok :: "AuditLibs \<Rightarrow> u8 list \<Rightarrow> bool \<Rightarrow> files \<Rightarrow> bool" where
  "closed_ok L key b fs \<longleftrightarrow>
     (\<exists>tr cls. dir_ok L key fs tr cls \<and> sealed L fs (trail_records tr)
        \<and> (b \<longrightarrow> trail_records tr \<noteq> []
             \<and> (\<exists>cl \<in> set cls. Suc (unat (cp_seq (cl_checkpoint cl))) = length (trail_records tr))))"

lemma in_order_checkpoint:
  assumes "lib_laws L" "in_order L key sg n t b w" "t \<le> now" "ws_records_since_checkpoint w > 0"
  shows "\<exists>w'. do_checkpoint L now w = (True, w') \<and> in_order L key sg n now b w'
    \<and> closed_ok L key (b \<and> sg = Some key) (ws_files w')"
proof -
  obtain tr cls where ok: "writer_ok L key w tr cls" "length (trail_records tr) + n < 2 ^ 64"
      "written_by t (trail_records tr)" "b \<Longrightarrow> ws_record_count w \<noteq> 0" "ws_signer w = sg"
    using assms(2) by (auto simp: in_order_def)
  have "0 < ws_record_count w" using ok(1) assms(4) by (auto simp: writer_ok_def writer_core_def)
  then have "0 < unat (ws_record_count w)" by (simp add: unat_gt_0 word_gt_0)
  moreover have "unat (ws_record_count w) \<le> length (trail_records tr)"
    using ok(1) by (simp add: writer_ok_def writer_core_def)
  ultimately have ne: "trail_records tr \<noteq> []" by auto
  have "written_by now (trail_records tr)" using ok(3) assms(3) by (auto simp: written_by_def)
  with do_checkpoint_ok[OF assms(1) _ ne] ok(1) obtain w' cls' where
    w': "do_checkpoint L now w = (True, w')" "writer_ok L key w' tr cls'" "sealed L (ws_files w') (trail_records tr)"
      "ws_record_count w' = ws_record_count w"
    unfolding writer_ok_def by blast
  have "ws_outcomes w = []" "ws_file w \<noteq> ANCHOR_TMP"
    using ok(1) by (auto simp: writer_ok_def writer_core_def)
  with w'(1) have "ws_signer w' = ws_signer w" "ws_records_since_checkpoint w' = 0"
    by (auto simp: do_checkpoint_quiet)
  with w' ok ne \<open>written_by now (trail_records tr)\<close> show ?thesis
    by (fastforce simp: in_order_def closed_ok_def writer_ok_def writer_core_def)
qed

lemma in_order_anchor:
  assumes "lib_laws L" "in_order L key sg n t b w" "ws_records_since_checkpoint w = 0"
  shows "\<exists>w'. write_anchor L w = (True, w') \<and> in_order L key sg n t b w'
    \<and> closed_ok L key (b \<and> sg = Some key) (ws_files w')"
proof -
  obtain tr cls where ok: "writer_ok L key w tr cls" "length (trail_records tr) + n < 2 ^ 64"
      "written_by t (trail_records tr)" "b \<Longrightarrow> ws_record_count w \<noteq> 0" "ws_signer w = sg"
    using assms(2) by (auto simp: in_order_def)
  obtain w' where w': "write_anchor L w = (True, w')" "writer_ok L key w' tr cls" "sealed L (ws_files w') (trail_records tr)"
      "ws_record_count w' = ws_record_count w"
    using write_anchor_ok[OF assms(1) ok(1)] by blast
  have "ws_outcomes w = []" "ws_file w \<noteq> ANCHOR_TMP"
    using ok(1) by (auto simp: writer_ok_def writer_core_def)
  with w'(1) have same: "ws_signer w' = ws_signer w" "ws_records_since_checkpoint w' = 0"
    using assms(3) by (auto simp: write_anchor_quiet)
  have "\<exists>cl \<in> set cls. Suc (unat (cp_seq (cl_checkpoint cl))) = length (trail_records tr)"
    if "b \<and> sg = Some key"
    using that w'(2,4) same ok(4,5) by (auto simp: writer_ok_def)
  with w' same ok show ?thesis
    by (fastforce simp: in_order_def closed_ok_def writer_ok_def writer_core_def)
qed

lemma in_order_flush:
  assumes "lib_laws L" "in_order L key sg (Suc n) t b w" "readings_after t rd"
  shows "in_order L key sg n (rd_now rd) b (snd (flush L rd w))
    \<and> closed_ok L key (b \<and> sg = Some key) (ws_files (snd (flush L rd w)))"
proof -
  obtain w1 where w1: "maybe_write_gap_sentinel L rd w = (True, w1)" "in_order L key sg n (rd_gap_now rd) b w1"
    using in_order_gap[OF assms] by blast
  have quiet: "ws_outcomes w1 = []" using w1(2) by (auto simp: in_order_def writer_ok_def writer_core_def)
  have later: "rd_gap_now rd \<le> rd_now rd" using assms(3) by (simp add: readings_after_def)
  have flush: "flush L rd w
      = (if ws_records_since_checkpoint w1 > 0 then do_checkpoint L (rd_now rd) w1 else write_anchor L w1)"
    using w1(1) quiet by (simp add: flush_def io_sync_def io_simps)
  show ?thesis
  proof (cases "ws_records_since_checkpoint w1 > 0")
    case True
    with in_order_checkpoint[OF assms(1) w1(2) later True] flush show ?thesis by auto
  next
    case False
    then have "ws_records_since_checkpoint w1 = 0" by (simp add: word_gt_0)
    from in_order_anchor[OF assms(1) w1(2) this] obtain w2 where
      w2: "write_anchor L w1 = (True, w2)" "in_order L key sg n (rd_gap_now rd) b w2"
        "closed_ok L key (b \<and> sg = Some key) (ws_files w2)"
      by blast
    with flush False in_order_mono[OF w2(2) order_refl later, of b] show ?thesis by auto
  qed
qed

section \<open>Histories\<close>

text \<open>The messages of a round in the order in which they are served, and the records they can add.\<close>

definition served :: "round \<Rightarrow> (WriterMsg \<times> Readings) list" where
  "served rnd = (case rnd of (msg, rd, queued) \<Rightarrow> if msg = MsgFlush then queued @ [(msg, rd)] else [(msg, rd)])"

definition msg_records :: "WriterMsg \<Rightarrow> nat" where
  "msg_records msg = (case msg of MsgRecord r \<Rightarrow> 2 | MsgFlush \<Rightarrow> 1 | MsgCheckpoint \<Rightarrow> 0)"

definition added_records :: "(WriterMsg \<times> Readings) list \<Rightarrow> nat" where
  "added_records ms = (\<Sum>(msg, rd) \<leftarrow> ms. msg_records msg)"

definition has_record :: "(WriterMsg \<times> Readings) list \<Rightarrow> bool" where
  "has_record ms \<longleftrightarrow> list_ex (\<lambda>(msg, rd). msg_records msg = 2) ms"

fun timely :: "u64 \<Rightarrow> (WriterMsg \<times> Readings) list \<Rightarrow> bool" where
  "timely t [] = True"
| "timely t ((msg, rd) # ms) \<longleftrightarrow>
     readings_after t rd \<and> (case msg of MsgRecord r \<Rightarrow> record_valid rd r | _ \<Rightarrow> True) \<and> timely (rd_now rd) ms"

fun time_after :: "u64 \<Rightarrow> (WriterMsg \<times> Readings) list \<Rightarrow> u64" where
  "time_after t [] = t"
| "time_after t ((msg, rd) # ms) = time_after (rd_now rd) ms"

lemma timely_append: "timely t (xs @ ys) \<longleftrightarrow> timely t xs \<and> timely (time_after t xs) ys"
  by (induction xs arbitrary: t) auto

lemma time_after_append [simp]: "time_after t (xs @ ys) = time_after (time_after t xs) ys"
  by (induction xs arbitrary: t) auto

lemma added_records_simps [simp]:
  "added_records [] = 0" "added_records ((msg, rd) # ms) = msg_records msg + added_records ms"
  "added_records (xs @ ys) = added_records xs + added_records ys"
  by (simp_all add: added_records_def)

lemma has_record_simps [simp]:
  "\<not> has_record []" "has_record ((msg, rd) # ms) \<longleftrightarrow> msg_records msg = 2 \<or> has_record ms"
  "has_record (xs @ ys) \<longleftrightarrow> has_record xs \<or> has_record ys"
  by (simp_all add: has_record_def)

lemma readings_after_le: "readings_after t rd \<Longrightarrow> t \<le> rd_now rd"
  by (auto simp: readings_after_def)

lemma in_order_drain:
  assumes "lib_laws L" "in_order L key sg (n + added_records ms) t b w" "timely t ms"
  shows "in_order L key sg n (time_after t ms) (b \<or> has_record ms) (drain L ms w)"
  using assms(2,3)
proof (induction ms arbitrary: t b w)
  case (Cons m ms)
  obtain msg rd where m: "m = (msg, rd)" by (cases m)
  with Cons.prems(2) have rd: "readings_after t rd" "timely (rd_now rd) ms" by auto
  note le = readings_after_le[OF rd(1)]
  show ?case
  proof (cases msg)
    case (MsgRecord r)
    with m Cons.prems have "record_valid rd r" "in_order L key sg (n + added_records ms + 2) t b w"
      by (simp_all add: msg_records_def add.assoc)
    from in_order_record[OF assms(1) this(2) rd(1) this(1)] have "in_order L key sg (n + added_records ms) (rd_now rd) True (snd (write_record L rd r w))" .
    from Cons.IH[OF this rd(2)] show ?thesis by (simp add: m MsgRecord msg_records_def)
  next
    case MsgFlush
    have "in_order L key sg (n + added_records ms) (rd_now rd) b w"
      by (rule in_order_mono[OF Cons.prems(1)]) (use le in \<open>simp_all add: m\<close>)
    from Cons.IH[OF this rd(2)] show ?thesis by (simp add: m MsgFlush msg_records_def)
  next
    case MsgCheckpoint
    have "in_order L key sg (n + added_records ms) (rd_now rd) b w"
      by (rule in_order_mono[OF Cons.prems(1)]) (use le in \<open>simp_all add: m\<close>)
    from Cons.IH[OF this rd(2)] show ?thesis by (simp add: m MsgCheckpoint msg_records_def)
  qed
qed simp

lemma in_order_round:
  assumes "lib_laws L" "in_order L key sg (n + added_records (served rnd)) t b w" "timely t (served rnd)"
  shows "in_order L key sg n (time_after t (served rnd)) (b \<or> has_record (served rnd)) (writer_round L rnd w)"
proof -
  obtain msg rd queued where rnd: "rnd = (msg, rd, queued)" by (metis prod_cases3)
  show ?thesis
  proof (cases msg)
    case (MsgRecord r)
    with rnd assms have "record_valid rd r" "readings_after t rd" "in_order L key sg (n + 2) t b w"
      by (simp_all add: served_def msg_records_def)
    from in_order_record[OF assms(1) this(3,2,1)] show ?thesis
      by (simp add: rnd MsgRecord served_def writer_round_def msg_records_def)
  next
    case MsgFlush
    with rnd assms have "in_order L key sg (Suc n + added_records queued) t b w" "timely t queued"
        and rd: "readings_after (time_after t queued) rd"
      by (simp_all add: served_def msg_records_def timely_append add.commute)
    from in_order_drain[OF assms(1) this(1,2)] in_order_flush[OF assms(1) _ rd] show ?thesis
      by (simp add: rnd MsgFlush served_def writer_round_def msg_records_def)
  next
    case MsgCheckpoint
    with rnd assms have rd: "readings_after t rd" and w: "in_order L key sg n t b w"
      by (simp_all add: served_def msg_records_def)
    note le = readings_after_le[OF rd]
    have "in_order L key sg n (rd_now rd) b (writer_round L rnd w)"
    proof (cases "ws_records_since_checkpoint w > 0 \<and> ws_signer w \<noteq> None")
      case True
      with in_order_checkpoint[OF assms(1) w le] show ?thesis by (auto simp: rnd MsgCheckpoint writer_round_def)
    next
      case False
      then have "writer_round L rnd w = w" by (auto simp: rnd MsgCheckpoint writer_round_def)
      with in_order_mono[OF w order_refl le] show ?thesis by simp
    qed
    then show ?thesis by (simp add: rnd MsgCheckpoint served_def msg_records_def)
  qed
qed

lemma in_order_rounds:
  assumes "lib_laws L" "in_order L key sg (n + added_records (concat (map served rounds))) t b w"
    and "timely t (concat (map served rounds))"
  shows "in_order L key sg n (time_after t (concat (map served rounds))) (b \<or> has_record (concat (map served rounds)))
    (fold (writer_round L) rounds w)"
  using assms(2,3)
proof (induction rounds arbitrary: t b w)
  case (Cons rnd rounds)
  have "in_order L key sg (n + added_records (concat (map served rounds))) (time_after t (served rnd)) (b \<or> has_record (served rnd))
      (writer_round L rnd w)"
    using Cons.prems by (intro in_order_round[OF assms(1)]) (simp_all add: timely_append ac_simps)
  from Cons.IH[OF this] Cons.prems(2) show ?case by (simp add: timely_append disj_assoc)
qed simp

text \<open>
  One life of the daemon: its settings, the rounds it serves, and the flush at the end, which is missing
  when the daemon is killed.
\<close>

record Incarnation =
  ic_settings :: AuditSettings
  ic_rounds :: "round list"
  ic_close :: "Readings option"

definition incarnate :: "AuditLibs \<Rightarrow> Incarnation \<Rightarrow> files \<Rightarrow> files" where
  "incarnate L ic fs =
     (case writer_open L (ic_settings ic) fs [] of
        None \<Rightarrow> fs
      | Some w \<Rightarrow>
          ws_files (case ic_close ic of
                      None \<Rightarrow> fold (writer_round L) (ic_rounds ic) w
                    | Some rd \<Rightarrow> writer_task L (ic_rounds ic) rd w))"

definition life :: "Incarnation \<Rightarrow> (WriterMsg \<times> Readings) list" where
  "life ic = concat (map served (ic_rounds ic)) @ (case ic_close ic of None \<Rightarrow> [] | Some rd \<Rightarrow> [(MsgFlush, rd)])"

text \<open>A directory between two lives.\<close>

definition dir_in_order :: "AuditLibs \<Rightarrow> u8 list \<Rightarrow> nat \<Rightarrow> u64 \<Rightarrow> files \<Rightarrow> bool" where
  "dir_in_order L key n t fs \<longleftrightarrow>
     fs = [] \<and> n < 2 ^ 64
     \<or> (\<exists>tr cls. dir_ok L key fs tr cls \<and> length (trail_records tr) + n < 2 ^ 64 \<and> written_by t (trail_records tr))"

lemma in_order_dir: "in_order L key sg n t b w \<Longrightarrow> dir_in_order L key n t (ws_files w)"
  by (auto simp: in_order_def dir_in_order_def writer_ok_def writer_core_def)

text \<open>The daemon opens the directory it left.\<close>

lemma open_empty:
  assumes "lib_laws L" "n < 2 ^ 64" "au_signer cfg \<in> {None, Some key}"
  shows "\<exists>w. writer_open L cfg [] [] = Some w \<and> in_order L key (au_signer cfg) n t False w"
proof -
  let ?tr = "\<lparr>tr_pruned = [], tr_first = 1, tr_rotated = [], tr_active = []\<rparr>"
  have "lines_of [] = []" "utf8 []" by (simp_all add: lines_of_def utf8.simps)
  then have "reconstruct_chain_state L [] = Some chain_genesis"
    by (simp add: reconstruct_chain_state_def read_anchor_tail_def read_active_suffix_def load_chain_state_def)
  then have "\<exists>w. writer_open L cfg [] [] = Some w \<and> writer_ok L key w ?tr [] \<and> ws_signer w = au_signer cfg"
    using assms(3)
    by (auto simp: writer_open_def io_open_append_def io_metadata_def io_simps writer_ok_def writer_core_def dir_ok_def
        holds_trail_def trail_ok_def trail_records_def anchored_def holds_lines_def chain_genesis_def tip_def
        CHECKPOINT_INTERVAL_def Let_def hwf_def)
  with assms(2) show ?thesis
    by (fastforce simp: in_order_def trail_records_def written_by_def)
qed

lemma open_trail:
  assumes "lib_laws L" "dir_ok L key fs tr cls" "au_signer cfg \<in> {None, Some key}"
    and "length (trail_records tr) + n < 2 ^ 64" "written_by t (trail_records tr)"
  shows "\<exists>w. writer_open L cfg fs [] = Some w \<and> in_order L key (au_signer cfg) n t False w"
proof -
  have "reconstruct_chain_state L fs = Some (tip L (trail_records tr))" "hget fs ACTIVE_LOG = Some (log_text L (tr_active tr))"
    using assms(1,2) reconstruct_trail[of L fs tr] by (simp_all add: dir_ok_def holds_trail_def)
  with assms(2,3) have "\<exists>w. writer_open L cfg fs [] = Some w \<and> writer_ok L key w tr cls \<and> ws_signer w = au_signer cfg"
    by (auto simp: writer_open_def io_open_append_def io_metadata_def io_simps writer_ok_def writer_core_def
        CHECKPOINT_INTERVAL_def Let_def)
  with assms(4,5) show ?thesis by (auto simp: in_order_def)
qed

lemma in_order_open:
  assumes "lib_laws L" "dir_in_order L key n t fs" "au_signer cfg \<in> {None, Some key}"
  shows "\<exists>w. writer_open L cfg fs [] = Some w \<and> in_order L key (au_signer cfg) n t False w"
  using assms(2) open_empty[OF assms(1) _ assms(3)] open_trail[OF assms(1) _ assms(3)]
  unfolding dir_in_order_def by blast

lemma incarnate_ok:
  assumes "lib_laws L" "dir_in_order L key (n + added_records (life ic)) t fs" "timely t (life ic)"
    and "au_signer (ic_settings ic) \<in> {None, Some key}"
  shows "dir_in_order L key n (time_after t (life ic)) (incarnate L ic fs)
    \<and> (ic_close ic \<noteq> None \<longrightarrow>
         closed_ok L key (has_record (concat (map served (ic_rounds ic))) \<and> au_signer (ic_settings ic) = Some key)
           (incarnate L ic fs))"
proof -
  let ?ms = "concat (map served (ic_rounds ic))" and ?sg = "au_signer (ic_settings ic)"
  obtain w where w: "writer_open L (ic_settings ic) fs [] = Some w"
      "in_order L key ?sg (n + added_records (life ic)) t False w"
    using in_order_open[OF assms(1,2,4)] by blast
  show ?thesis
  proof (cases "ic_close ic")
    case None
    then have "life ic = ?ms" by (simp add: life_def)
    with in_order_rounds[OF assms(1), of key ?sg n "ic_rounds ic" t False w] w assms(3) None show ?thesis
      by (auto simp: incarnate_def intro: in_order_dir)
  next
    case (Some rd)
    then have life: "life ic = ?ms @ [(MsgFlush, rd)]" by (simp add: life_def)
    with assms(3) have timely: "timely t ?ms" "readings_after (time_after t ?ms) rd" by (simp_all add: timely_append)
    have "in_order L key ?sg (Suc n + added_records ?ms) t False w" using w(2) life by (simp add: msg_records_def)
    from in_order_rounds[OF assms(1) this timely(1)]
    have "in_order L key ?sg (Suc n) (time_after t ?ms) (has_record ?ms) (fold (writer_round L) (ic_rounds ic) w)" by simp
    from in_order_flush[OF assms(1) this timely(2)] w(1) Some life show ?thesis
      by (auto simp: incarnate_def writer_task_def intro: in_order_dir)
  qed
qed

lemma incarnations_ok:
  assumes "lib_laws L" "dir_in_order L key (n + added_records (concat (map life ics))) t fs"
    and "timely t (concat (map life ics))" "\<forall>ic \<in> set ics. au_signer (ic_settings ic) \<in> {None, Some key}"
  shows "dir_in_order L key n (time_after t (concat (map life ics))) (fold (incarnate L) ics fs)"
  using assms(2-4)
proof (induction ics arbitrary: t fs)
  case (Cons ic ics)
  have "dir_in_order L key (n + added_records (concat (map life ics))) (time_after t (life ic)) (incarnate L ic fs)"
    using incarnate_ok[OF assms(1), of key "n + added_records (concat (map life ics))" ic t fs] Cons.prems
    by (simp add: timely_append ac_simps)
  from Cons.IH[OF this] Cons.prems show ?case by (simp add: timely_append)
qed simp

section \<open>What the verifier says\<close>

lemma trail_kept_linked:
  assumes "dir_ok L key fs tr cls"
  defines "rs \<equiv> concat (tr_rotated tr) @ tr_active tr"
  shows "linked L (ar_prev_hash (hd rs)) (ar_seq (hd rs)) rs"
    and "rs \<noteq> [] \<Longrightarrow> head_after L (ar_prev_hash (hd rs)) xs = head_after L GENESIS_HASH (tr_pruned tr @ xs)"
    and "rs = [] \<Longrightarrow> trail_records tr = []"
proof -
  have gs: "trail_records tr = tr_pruned tr @ rs" by (simp add: trail_records_def rs_def)
  have "linked L GENESIS_HASH 0 (tr_pruned tr @ rs)" using assms(1) gs by (simp add: dir_ok_def)
  from linked_appendD2[OF this]
  have link: "linked L (head_after L GENESIS_HASH (tr_pruned tr)) (0 + of_nat (length (tr_pruned tr))) rs" .
  then show "linked L (ar_prev_hash (hd rs)) (ar_seq (hd rs)) rs" by (cases rs) auto
  show "head_after L (ar_prev_hash (hd rs)) xs = head_after L GENESIS_HASH (tr_pruned tr @ xs)" if "rs \<noteq> []"
    using link that by (cases rs) auto
  show "trail_records tr = []" if "rs = []"
  proof -
    from that have "concat (tr_rotated tr) = []" by (simp add: rs_def)
    moreover have "\<forall>xs \<in> set (tr_rotated tr). xs \<noteq> []" using assms(1) by (simp add: dir_ok_def trail_ok_def)
    ultimately have "tr_rotated tr = []" by (cases "tr_rotated tr") auto
    with assms(1) gs that show ?thesis by (simp add: dir_ok_def trail_ok_def)
  qed
qed

text \<open>Every checkpoint of the daemon that lies in the range of the kept records binds to them.\<close>

lemma own_checkpoint_binds:
  assumes "lib_laws L" "length key = 32" "dir_ok L key fs tr cls" "cl \<in> set cls" "verifier \<in> {None, Some (lib_ed_public L key)}"
    and "cp_seq (cl_checkpoint cl) \<in> needed"
  defines "rs \<equiv> concat (tr_rotated tr) @ tr_active tr"
  assumes "in_range (replay L needed rs) (cl_checkpoint cl)"
  shows "checkpoint_binds L verifier (replay L needed rs) cl"
proof -
  let ?gs = "trail_records tr" and ?q = "cp_seq (cl_checkpoint cl)"
  have gs: "?gs = tr_pruned tr @ rs" by (simp add: trail_records_def rs_def)
  have link: "linked L GENESIS_HASH 0 ?gs" and ok: "line_ok L key ?gs cl"
    using assms(3,4) by (simp_all add: dir_ok_def)
  have ne: "rs \<noteq> []" using assms(8) by (auto simp: in_range_def)
  then have range: "ar_seq (hd rs) \<le> ?q" "?q \<le> ar_seq (last rs)" using assms(8) by (simp_all add: in_range_def)
  note kept = trail_kept_linked[OF assms(3), folded rs_def]
  obtain xs r ys where rs: "rs = xs @ r # ys" "ar_seq r = ?q" and new: "ar_seq r \<notin> ar_seq ` set ys"
    using linked_split[OF kept(1) ne range] by metis
  have pos: "unat ?q = length (tr_pruned tr) + length xs"
    using linked_seq_nth[OF link, of "length (tr_pruned tr) + length xs"] gs rs by (simp add: nth_append)
  then have r: "?gs ! unat ?q = r" using gs rs(1) by (simp add: nth_append)
  have "records_upto ?q ?gs = tr_pruned tr @ xs @ [r]"
    using linked_upto[OF link, of ?q] pos gs rs(1) by simp
  then have hash: "cp_chain_head_hash (cl_checkpoint cl) = head_after L GENESIS_HASH (tr_pruned tr @ xs @ [r])"
    using ok by (simp add: line_ok_def checkpoint_of_def)
  have "hd (xs @ [r]) = hd rs" using rs(1) by (cases xs) auto
  with replayed_bound[OF new, of needed L xs] assms(6) rs kept(2)[OF ne, of "xs @ [r]"] hash
  have "hget (ro_seq_to_hash (replay L needed rs)) ?q = Some (cp_chain_head_hash (cl_checkpoint cl))"
    "hget (ro_seq_to_ts (replay L needed rs)) ?q = Some (ar_ts_unix_ms r)"
    by simp_all
  then show ?thesis
    using ok r assms(5) verify_own_signature[OF assms(1,2)]
    by (auto simp: checkpoint_binds_def Let_def line_ok_def)
qed

lemma own_anchor_matches:
  assumes "dir_ok L key fs tr cls" "sealed L fs (trail_records tr)"
  defines "rs \<equiv> concat (tr_rotated tr) @ tr_active tr"
  shows "check_anchor L fs (replay L needed rs) = Inr True"
proof -
  let ?gs = "trail_records tr"
  obtain t a where a: "hget fs ANCHOR = Some t" "lib_anchor_in L t = Some a"
      "an_last_hash a = head_after L GENESIS_HASH ?gs" "an_last_seq a = of_nat (length ?gs)"
    using assms(2) by (auto simp: sealed_def tip_def split: option.splits)
  have gs: "?gs = tr_pruned tr @ rs" by (simp add: trail_records_def rs_def)
  note kept = trail_kept_linked[OF assms(1), folded rs_def]
  show ?thesis
  proof (cases "rs = []")
    case True
    with kept(3) a show ?thesis by (simp add: check_anchor_def)
  next
    case False
    then have last: "last ?gs = last rs" "?gs \<noteq> []" by (simp_all add: gs)
    have link: "linked L GENESIS_HASH 0 ?gs" "length ?gs < 2 ^ 64" using assms(1) by (simp_all add: dir_ok_def)
    have n: "1 \<le> length ?gs" using last(2) by (simp add: Suc_le_eq)
    have "unat (ar_seq (last ?gs)) = length ?gs - 1" using linked_length[OF link(1) last(2)] by simp
    with link(2) n have "ar_seq (last ?gs) \<noteq> - 1" by (intro u64_room) simp
    moreover have "of_nat (length ?gs) = ar_seq (last ?gs) + 1"
      using linked_last_seq[OF link(1) last(2)] n
      by (metis add.left_neutral le_add_diff_inverse2 of_nat_1 of_nat_add)
    moreover have "head_after L (ar_prev_hash (hd rs)) rs = head_after L GENESIS_HASH ?gs"
      using kept(2)[OF False, of rs] by (simp add: gs)
    ultimately show ?thesis using a False last(1) by (simp add: check_anchor_def)
  qed
qed

lemma closed_verifies:
  assumes "lib_laws L" "length key = 32" "closed_ok L key b fs"
    and "pub = None \<or> b \<and> pub = Some (public_hex L key)"
  shows "\<exists>rep. verify_dir L fs pub = Inr rep \<and> vr_chain_ok rep"
proof -
  obtain tr cls where dir: "dir_ok L key fs tr cls" "sealed L fs (trail_records tr)"
      and covered: "b \<Longrightarrow> trail_records tr \<noteq> []"
        "b \<Longrightarrow> \<exists>cl \<in> set cls. Suc (unat (cp_seq (cl_checkpoint cl))) = length (trail_records tr)"
    using assms(3) by (auto simp: closed_ok_def)
  define rs where "rs = concat (tr_rotated tr) @ tr_active tr"
  define v where "v = (if pub = None then None else Some (lib_ed_public L key))"
  define sc where "sc = \<lparr>sc_lines = cls, sc_verifier = (if hget fs CHECKPOINTS = None then None else v),
      sc_signature_checked = (pub \<noteq> None), sc_missing = (hget fs CHECKPOINTS = None)\<rparr>"
  define ro where "ro = replay L (needed_seqs sc) rs"
  note kept = trail_kept_linked[OF dir(1), folded rs_def]
  have lines: "holds_lines L fs cls" using dir(1) by (simp add: dir_ok_def)
  have "stream_files L fs (collect_log_files fs) = Inr rs"
    using stream_files_trail[OF assms(1), of fs tr] dir(1) by (simp add: dir_ok_def rs_def)
  moreover have "check_anchor L fs ro = Inr True"
    using own_anchor_matches[OF dir] by (simp add: ro_def rs_def)
  moreover have "read_checkpoint_sidecar L fs pub = Inr sc"
    using lines assms(4) stream_lines_checkpoints[OF assms(1), of cls] verifier_own_key[OF assms(1,2)]
    by (auto simp: read_checkpoint_sidecar_def holds_lines_def sc_def v_def split: option.splits)
  moreover have "fst (snd (eval_checkpoints L sc ro)) = 0"
  proof -
    have binds: "checkpoint_binds L (sc_verifier sc) ro cl" if "cl \<in> set cls" "in_range ro (cl_checkpoint cl)" for cl
      using own_checkpoint_binds[OF assms(1,2) dir(1) that(1), of "sc_verifier sc" "needed_seqs sc"] that
      by (simp add: sc_def v_def ro_def rs_def needed_seqs_def)
    have "\<exists>cl \<in> set cls. in_range ro (cl_checkpoint cl)" if b: b
    proof -
      from covered(2)[OF b] obtain cl where cl: "cl \<in> set cls" "Suc (unat (cp_seq (cl_checkpoint cl))) = length (trail_records tr)"
        by blast
      have ne: "rs \<noteq> []" using covered(1)[OF b] kept(3) by auto
      then have "last (trail_records tr) = last rs" by (simp add: trail_records_def rs_def)
      moreover have "linked L GENESIS_HASH 0 (trail_records tr)" using dir(1) by (simp add: dir_ok_def)
      ultimately have "cp_seq (cl_checkpoint cl) = ar_seq (last rs)"
        using linked_length[OF _ covered(1)[OF b]] cl(2) by (metis Suc_diff_1 add_0 diff_Suc_1 unat_0 word_unat_eq_iff)
      moreover have "unat (ar_seq (hd rs)) \<le> unat (ar_seq (last rs))" using linked_length[OF kept(1) ne] by simp
      ultimately show ?thesis using cl(1) ne by (intro bexI[of _ cl]) (auto simp: in_range_def ro_def word_le_nat_alt)
    qed
    moreover have "cls = []" if "hget fs CHECKPOINTS = None" using lines that by (simp add: holds_lines_def)
    ultimately show ?thesis
      using binds assms(4)
      by (cases "hget fs CHECKPOINTS") (auto simp: eval_checkpoints_def sc_def v_def Let_def filter_empty_conv)
  qed
  ultimately show ?thesis
    using kept(1) unfolding verify_dir_ok_iff ro_def by blast
qed

end
