(* ===== verification/Audit_Sample.thy ===== *)
theory Audit_Sample
  imports Audit_Trail
begin

text \<open>
  Concrete libraries that satisfy what is assumed of the real ones: a text format with a field per value,
  each ended by a semicolon, and a signature that has the length of the signed text.
\<close>

section \<open>Plain text\<close>

definition plain :: "string \<Rightarrow> bool" where
  "plain s \<longleftrightarrow> (\<forall>c \<in> set s. (32 :: nat) \<le> of_char c \<and> (of_char c :: nat) < 128 \<and> c \<noteq> CHR '';'')"

lemma ascii_utf8: "(\<forall>c \<in> set s. (of_char c :: nat) < 128) \<Longrightarrow> utf8 s"
proof (induction s)
  case (Cons c s)
  then have "utf8_len c = 1" by (simp add: utf8_len_def byte_in_def)
  with Cons show ?case by (simp add: utf8.simps[of "c # s"] utf8_char_def)
qed (simp add: utf8.simps)

lemma plain_digit: "d < 16 \<Longrightarrow> plain [digit_char d]"
  using digit_char_not_semicolon[of d] by (auto simp: plain_def)

lemma plain_append [simp]: "plain (a @ b) \<longleftrightarrow> plain a \<and> plain b"
  by (auto simp: plain_def)

lemma plain_Nil [simp]: "plain []"
  by (simp add: plain_def)

lemma plain_Cons: "plain (c # s) \<longleftrightarrow> plain [c] \<and> plain s"
  by (auto simp: plain_def)

lemma plain_show_nat [simp]: "plain (show_nat n)"
proof (induction n rule: show_nat.induct)
  case (1 n)
  then show ?case by (auto simp: show_nat.simps[of n] plain_digit)
qed

lemma plain_hex_encode [simp]: "plain (hex_encode bs)"
proof (induction bs)
  case (Cons b bs)
  have "unat b div 16 < 16" "unat b mod 16 < 16" using unat_u8[of b] by simp_all
  then have "plain ([digit_char (unat b div 16)] @ [digit_char (unat b mod 16)])"
    unfolding plain_append using plain_digit by blast
  moreover have "hex_encode (b # bs) = ([digit_char (unat b div 16)] @ [digit_char (unat b mod 16)]) @ hex_encode bs"
    by (simp add: hex_encode_def)
  ultimately show ?case using Cons by (simp only: plain_append)
qed (simp add: hex_encode_def)

section \<open>Fields\<close>

definition join_fields :: "string list \<Rightarrow> string" where
  "join_fields fs = CHR 0x7B # concat (map (\<lambda>f. f @ [CHR '';'']) fs)"

fun split_fields :: "string \<Rightarrow> string \<Rightarrow> string list" where
  "split_fields acc [] = []"
| "split_fields acc (c # cs) = (if c = CHR '';'' then rev acc # split_fields [] cs else split_fields (c # acc) cs)"

lemma split_fields_field:
  "CHR '';'' \<notin> set f \<Longrightarrow> split_fields acc (f @ CHR '';'' # s) = (rev acc @ f) # split_fields [] s"
  by (induction f arbitrary: acc) auto

lemma split_join: "list_all plain fs \<Longrightarrow> split_fields [] (tl (join_fields fs)) = fs"
proof (induction fs)
  case (Cons f fs)
  then have "CHR '';'' \<notin> set f" by (auto simp: plain_def)
  with split_fields_field[of f "[]"] Cons show ?case by (simp add: join_fields_def)
qed (simp add: join_fields_def)

lemma json_text_join: "list_all plain fs \<Longrightarrow> json_text (join_fields fs)"
  unfolding json_text_def join_fields_def by (intro conjI ascii_utf8) (auto simp: list_all_iff plain_def)

section \<open>Values\<close>

definition string_bytes :: "string \<Rightarrow> u8 list" where
  "string_bytes s = map (\<lambda>c. of_nat (of_char c)) s"

definition string_out :: "string \<Rightarrow> string" where
  "string_out s = hex_encode (string_bytes s)"

definition string_in :: "string \<Rightarrow> string option" where
  "string_in f = map_option (map (\<lambda>b. char_of (unat b))) (hex_decode f)"

lemma string_in_out [simp]: "string_in (string_out s) = Some s"
proof -
  have "char_of (unat (of_nat (of_char c) :: u8)) = c" for c
  proof -
    have "(of_char c :: nat) mod 256 = of_char c" by simp
    then have "unat (of_nat (of_char c) :: u8) = of_char c" by (simp add: unat_of_nat)
    then show ?thesis by simp
  qed
  then show ?thesis by (simp add: string_in_def string_out_def string_bytes_def comp_def)
qed

lemma plain_string_out [simp]: "plain (string_out s)"
  by (simp add: string_out_def)

definition num_out :: "'a::len word \<Rightarrow> string" where
  "num_out n = show_nat (unat n)"

lemma plain_num_out [simp]: "plain (num_out n)"
  by (simp add: num_out_def)

lemma parse_num_out [simp]: "parse_u32 (num_out n) = Some n" "parse_u64 (num_out m) = Some m"
  by (simp_all add: num_out_def)

definition opt_out :: "('a \<Rightarrow> string) \<Rightarrow> 'a option \<Rightarrow> string" where
  "opt_out out v = (case v of None \<Rightarrow> ''-'' | Some x \<Rightarrow> CHR ''+'' # out x)"

definition opt_in :: "(string \<Rightarrow> 'a option) \<Rightarrow> string \<Rightarrow> 'a option option" where
  "opt_in inp f = (if f = ''-'' then Some None else map_option Some (inp (tl f)))"

lemma opt_in_out [simp]: "(\<And>x. inp (out x) = Some x) \<Longrightarrow> opt_in inp (opt_out out v) = Some v"
  by (auto simp: opt_in_def opt_out_def split: option.split)

lemma plain_opt_out [simp]: "(\<And>x. plain (out x)) \<Longrightarrow> plain (opt_out out v)"
proof -
  assume out: "\<And>x. plain (out x)"
  have "plain ''-''" "plain ''+''" by (simp_all add: plain_def)
  with out plain_Cons[of "CHR ''+''"] show ?thesis by (auto simp: opt_out_def split: option.split)
qed

definition class_out :: "EventClass \<Rightarrow> string" where
  "class_out c =
     (case c of ClassAuth \<Rightarrow> ''a'' | ClassKeyMgmt \<Rightarrow> ''k'' | ClassAdmin \<Rightarrow> ''m'' | ClassDataPlane \<Rightarrow> ''p''
      | ClassSystem \<Rightarrow> ''s'' | ClassDeny \<Rightarrow> ''d'')"

definition class_in :: "string \<Rightarrow> EventClass option" where
  "class_in f =
     map_of [(''a'', ClassAuth), (''k'', ClassKeyMgmt), (''m'', ClassAdmin), (''p'', ClassDataPlane),
             (''s'', ClassSystem), (''d'', ClassDeny)] f"

lemma class_in_out [simp]: "class_in (class_out c) = Some c"
  by (cases c) (simp_all add: class_in_def class_out_def)

lemma plain_class_out [simp]: "plain (class_out c)"
  by (cases c) (simp_all add: plain_def class_out_def)

section \<open>The libraries\<close>

definition record_fields :: "AuditRecord \<Rightarrow> string list" where
  "record_fields r =
     [num_out (ar_schema_version r), num_out (ar_seq r), num_out (ar_ts_unix_ms r), num_out (ar_ts_monotonic_ns r),
      string_out (ar_prev_hash r), string_out (ar_request_id r), opt_out string_out (ar_identity r),
      string_out (ar_method r), class_out (ar_class r), opt_out num_out (ar_slot r), opt_out num_out (ar_session r),
      opt_out string_out (ar_object_ref r), num_out (ar_ck_rv r), num_out (ar_latency_us r),
      opt_out num_out (ar_dropped_count r)]"

definition record_of_fields :: "string list \<Rightarrow> AuditRecord option" where
  "record_of_fields fs =
     (if length fs \<noteq> 15 then None
      else Option.bind (parse_u32 (fs ! 0)) (\<lambda>f0. Option.bind (parse_u64 (fs ! 1)) (\<lambda>f1.
           Option.bind (parse_u64 (fs ! 2)) (\<lambda>f2. Option.bind (parse_u64 (fs ! 3)) (\<lambda>f3.
           Option.bind (string_in (fs ! 4)) (\<lambda>f4. Option.bind (string_in (fs ! 5)) (\<lambda>f5.
           Option.bind (opt_in string_in (fs ! 6)) (\<lambda>f6. Option.bind (string_in (fs ! 7)) (\<lambda>f7.
           Option.bind (class_in (fs ! 8)) (\<lambda>f8. Option.bind (opt_in parse_u64 (fs ! 9)) (\<lambda>f9.
           Option.bind (opt_in parse_u64 (fs ! 10)) (\<lambda>f10. Option.bind (opt_in string_in (fs ! 11)) (\<lambda>f11.
           Option.bind (parse_u64 (fs ! 12)) (\<lambda>f12. Option.bind (parse_u64 (fs ! 13)) (\<lambda>f13.
           Option.bind (opt_in parse_u64 (fs ! 14)) (\<lambda>f14.
             Some \<lparr>ar_schema_version = f0, ar_seq = f1, ar_ts_unix_ms = f2, ar_ts_monotonic_ns = f3, ar_prev_hash = f4,
                   ar_request_id = f5, ar_identity = f6, ar_method = f7, ar_class = f8, ar_slot = f9, ar_session = f10,
                   ar_object_ref = f11, ar_ck_rv = f12, ar_latency_us = f13, ar_dropped_count = f14\<rparr>))))))))))))))))"

definition line_fields :: "CheckpointLine \<Rightarrow> string list" where
  "line_fields cl =
     [num_out (cp_seq (cl_checkpoint cl)), string_out (cp_chain_head_hash (cl_checkpoint cl)),
      num_out (cp_ts_unix_ms (cl_checkpoint cl)), num_out (cp_record_count (cl_checkpoint cl)), string_out (cl_signature cl)]"

definition line_of_fields :: "string list \<Rightarrow> CheckpointLine option" where
  "line_of_fields fs =
     (if length fs \<noteq> 5 then None
      else Option.bind (parse_u64 (fs ! 0)) (\<lambda>f0. Option.bind (string_in (fs ! 1)) (\<lambda>f1.
           Option.bind (parse_u64 (fs ! 2)) (\<lambda>f2. Option.bind (parse_u64 (fs ! 3)) (\<lambda>f3.
           Option.bind (string_in (fs ! 4)) (\<lambda>f4.
             Some \<lparr>cl_checkpoint = \<lparr>cp_seq = f0, cp_chain_head_hash = f1, cp_ts_unix_ms = f2, cp_record_count = f3\<rparr>,
                   cl_signature = f4\<rparr>))))))"

definition anchor_fields :: "AnchorFile \<Rightarrow> string list" where
  "anchor_fields a = [string_out (an_last_hash a), num_out (an_last_seq a), replicate (an_active_bytes a) (CHR ''i'')]"

definition anchor_of_fields :: "string list \<Rightarrow> AnchorFile option" where
  "anchor_of_fields fs =
     (if length fs \<noteq> 3 then None
      else Option.bind (string_in (fs ! 0)) (\<lambda>f0. Option.bind (parse_u64 (fs ! 1)) (\<lambda>f1.
             Some \<lparr>an_last_hash = f0, an_last_seq = f1, an_active_bytes = length (fs ! 2)\<rparr>)))"

lemma record_fields_back: "record_of_fields (record_fields r) = Some r" "list_all plain (record_fields r)"
  by (simp_all add: record_of_fields_def record_fields_def)

lemma line_fields_back: "line_of_fields (line_fields cl) = Some cl" "list_all plain (line_fields cl)"
  by (simp_all add: line_of_fields_def line_fields_def)

lemma plain_replicate: "plain (replicate n (CHR ''i''))"
  by (simp add: plain_def)

lemma anchor_fields_back: "anchor_of_fields (anchor_fields a) = Some a" "list_all plain (anchor_fields a)"
  by (simp_all add: anchor_of_fields_def anchor_fields_def plain_replicate)

definition seal :: "string \<Rightarrow> u8 list" where
  "seal m = replicate 64 (of_nat (length m))"

definition sample_libs :: AuditLibs where
  "sample_libs =
     \<lparr>lib_sha256 = (\<lambda>s. replicate 32 (of_nat (length s))),
      lib_record_out = (\<lambda>r. join_fields (record_fields r)),
      lib_record_in = (\<lambda>s. record_of_fields (split_fields [] (tl s))),
      lib_checkpoint_out = (\<lambda>cp. join_fields (line_fields \<lparr>cl_checkpoint = cp, cl_signature = []\<rparr>)),
      lib_line_out = (\<lambda>cl. join_fields (line_fields cl)),
      lib_line_in = (\<lambda>s. line_of_fields (split_fields [] (tl s))),
      lib_anchor_out = (\<lambda>a. join_fields (anchor_fields a)),
      lib_anchor_in = (\<lambda>s. anchor_of_fields (split_fields [] (tl s))),
      lib_ed_public = (\<lambda>k. k), lib_ed_point = (\<lambda>k. True), lib_ed_sign = (\<lambda>k m. seal m),
      lib_ed_verify = (\<lambda>k m sig. sig = seal m)\<rparr>"

lemma sample_laws: "lib_laws sample_libs"
  by (simp add: lib_laws_def sample_libs_def json_text_join split_join record_fields_back line_fields_back
      anchor_fields_back seal_def)

end
