(* ===== verification/Audit_Claims.thy ===== *)
theory Audit_Claims
  imports Audit_Sample
begin

text \<open>
  The properties of the audit trail: what an accepted directory proves, what an honest daemon leaves
  behind is accepted, and what an ill-timed failure during a rotation does.
\<close>

section \<open>A directory with one record\<close>

definition sample_record :: AuditRecord where
  "sample_record =
     \<lparr>ar_schema_version = AUDIT_SCHEMA_VERSION, ar_seq = 0, ar_ts_unix_ms = 5, ar_ts_monotonic_ns = 0, ar_prev_hash = [],
      ar_request_id = ''r'', ar_identity = None, ar_method = ''C_Login'', ar_class = ClassAuth, ar_slot = None,
      ar_session = None, ar_object_ref = None, ar_ck_rv = 0, ar_latency_us = 0, ar_dropped_count = None\<rparr>"

definition sample_key :: "u8 list" where
  "sample_key = replicate 32 7"

definition sample_readings :: "u64 \<Rightarrow> Readings" where
  "sample_readings t = \<lparr>rd_dropped = 0, rd_gap_ts = t, rd_gap_now = t, rd_now = t\<rparr>"

definition sample_life :: Incarnation where
  "sample_life =
     \<lparr>ic_settings = \<lparr>au_signer = Some sample_key, au_rotate_max_bytes = 100, au_rotate_keep_files = 2\<rparr>,
      ic_rounds = [(MsgRecord sample_record, sample_readings 6, [])], ic_close = Some (sample_readings 7)\<rparr>"

definition sample_log :: "AuditRecord list" where
  "sample_log = [chained sample_libs [] sample_record]"

definition sample_line :: CheckpointLine where
  "sample_line =
     (let cp = \<lparr>cp_seq = 0, cp_chain_head_hash = head_after sample_libs GENESIS_HASH sample_log, cp_ts_unix_ms = 6,
                cp_record_count = 1\<rparr>
      in \<lparr>cl_checkpoint = cp, cl_signature = sign_checkpoint sample_libs sample_key cp\<rparr>)"

definition sample_anchor :: AnchorFile where
  "sample_anchor = \<lparr>an_last_hash = head_after sample_libs GENESIS_HASH sample_log, an_last_seq = 1,
     an_active_bytes = length (log_text sample_libs sample_log)\<rparr>"

definition sample_dir :: files where
  "sample_dir =
     [(ACTIVE_LOG, log_text sample_libs sample_log), (CHECKPOINTS, as_lines (lib_line_out sample_libs) [sample_line]),
      (ANCHOR, lib_anchor_out sample_libs sample_anchor)]"

definition sample_trail :: Trail where
  "sample_trail = \<lparr>tr_pruned = [], tr_first = 1, tr_rotated = [], tr_active = sample_log\<rparr>"

lemma sample_records [simp]: "trail_records sample_trail = sample_log" "tr_active sample_trail = sample_log"
  by (simp_all add: trail_records_def sample_trail_def)

lemma sample_linked: "linked sample_libs GENESIS_HASH 0 sample_log" "length sample_log = 1"
  using linked_chained[of sample_libs "[]" sample_record] by (simp_all add: sample_log_def)

lemma sample_lookups [simp]:
  "hget sample_dir ACTIVE_LOG = Some (log_text sample_libs sample_log)"
  "hget sample_dir CHECKPOINTS = Some (as_lines (lib_line_out sample_libs) [sample_line])"
  "hget sample_dir ANCHOR = Some (lib_anchor_out sample_libs sample_anchor)"
  by (simp_all add: sample_dir_def)

lemma sample_dir_ok: "dir_ok sample_libs sample_key sample_dir sample_trail [sample_line]"
proof -
  have "holds_trail sample_libs sample_dir sample_trail"
    by (auto simp: holds_trail_def sample_dir_def sample_trail_def hwf_def)
  moreover have "trail_ok sample_trail" by (simp add: trail_ok_def sample_trail_def)
  moreover have "anchored sample_libs sample_dir sample_trail"
    unfolding anchored_def
    by (auto simp: lib_lawsD[OF sample_laws] sample_anchor_def tip_def sample_linked intro!: exI[of _ "length sample_log"])
  moreover have "line_ok sample_libs sample_key sample_log sample_line"
    using linked_upto[OF sample_linked(1), of 0] sample_linked(2)
    by (simp add: line_ok_def checkpoint_of_def sample_line_def Let_def saturating_sub_def)
      (simp add: sample_log_def chained_def sample_record_def)
  ultimately show ?thesis
    by (simp add: dir_ok_def holds_lines_def sample_linked) (simp add: sample_log_def chained_def sample_record_def)
qed

lemma sample_closed: "closed_ok sample_libs sample_key True sample_dir"
  unfolding closed_ok_def using sample_dir_ok
  by (intro exI[of _ sample_trail] exI[of _ "[sample_line]"])
    (simp add: sealed_def lib_lawsD[OF sample_laws] tip_def sample_linked, auto simp: sample_anchor_def sample_line_def Let_def sample_log_def)

lemma sample_stream: "stream_files sample_libs sample_dir (collect_log_files sample_dir) = Inr sample_log"
  using stream_files_trail[OF sample_laws, of sample_dir sample_trail] sample_dir_ok
  by (simp add: dir_ok_def sample_trail_def)

lemma sample_key_length: "length sample_key = 32"
  by (simp add: sample_key_def)

section \<open>What an accepted directory proves\<close>

text \<open>
  C31. The anchor seals the log.  Whoever changes, drops, inserts or reorders records of a directory, but
  not its anchor, is found out: if the verifier accepts the directory and the anchor is the one the
  daemon wrote after the records \<open>gs\<close>, then the records the directory holds are exactly the latest
  records of \<open>gs\<close>, or two different records with the same digest have been found.
\<close>

theorem anchor_seals_log:
  assumes "linked L GENESIS_HASH 0 gs" "length gs < 2 ^ 64"
    and "hget files ANCHOR = Some text" "lib_anchor_in L text = Some a"
    and "an_last_hash a = head_after L GENESIS_HASH gs" "an_last_seq a = of_nat (length gs)"
    and "verify_dir L files key = Inr rep" "vr_chain_ok rep"
    and "stream_files L files (collect_log_files files) = Inr rs"
  shows "collision L rs gs \<or> suffix rs gs \<and> (gs \<noteq> [] \<longrightarrow> rs \<noteq> [])"
proof -
  from assms(7-9) obtain sc where link: "linked L (ar_prev_hash (hd rs)) (ar_seq (hd rs)) rs"
      and anchor: "check_anchor L files (replay L (needed_seqs sc) rs) = Inr True"
    using verify_dir_ok_iff[of L files key] by auto
  have n: "unat (of_nat (length gs) :: u64) = length gs"
    using assms(2) by (simp add: unat_of_nat)
  show ?thesis
  proof (cases "rs = []")
    case True
    with anchor assms(3-6) have "(of_nat (length gs) :: u64) = 0"
      by (simp add: check_anchor_def)
    with n have "gs = []" by simp
    with True show ?thesis by simp
  next
    case False
    with anchor assms(3-6)
    have "ar_seq (last rs) \<noteq> - 1" "(of_nat (length gs) :: u64) = ar_seq (last rs) + 1"
      and head: "head_after L (ar_prev_hash (hd rs)) rs = head_after L GENESIS_HASH gs"
      by (auto simp: check_anchor_def split: if_splits)
    with n have "length gs = Suc (unat (ar_seq (last rs)))" by (metis unat_add_one)
    with linked_length[OF link False] False have "length rs \<le> length gs" by simp
    from linked_agree[OF link assms(1) this head] False show ?thesis by auto
  qed
qed

text \<open>The directory with one record.\<close>

theorem anchor_seals_log_witness:
  "\<exists>rep. verify_dir sample_libs sample_dir None = Inr rep \<and> vr_chain_ok rep
     \<and> (collision sample_libs sample_log sample_log \<or> suffix sample_log sample_log \<and> (sample_log \<noteq> [] \<longrightarrow> sample_log \<noteq> []))"
proof -
  obtain rep where rep: "verify_dir sample_libs sample_dir None = Inr rep" "vr_chain_ok rep"
    using closed_verifies[OF sample_laws sample_key_length sample_closed, of None] by auto
  have "collision sample_libs sample_log sample_log \<or> suffix sample_log sample_log \<and> (sample_log \<noteq> [] \<longrightarrow> sample_log \<noteq> [])"
    by (rule anchor_seals_log[OF sample_linked(1) _ sample_lookups(3) lib_lawsD(5)[OF sample_laws] _ _ rep sample_stream])
      (simp_all add: sample_linked(2) sample_anchor_def)
  with rep show ?thesis by blast
qed

text \<open>
  C32. A signature seals the log up to it.  If signatures are checked with a key under which only the
  daemon's own checkpoints verify, then whatever has been done to the directory, its anchor included, an
  accepted directory that holds records has a checkpoint in their range, and up to every such checkpoint
  its records are exactly the daemon's latest records before it, or two different records with the same
  digest have been found.
\<close>

theorem signature_seals_log:
  assumes "linked L GENESIS_HASH 0 gs"
    and "read_checkpoint_sidecar L files (Some pub) = Inr sc" "verifier_from_public_hex L pub = Inr v"
    and "\<forall>cl \<in> set (sc_lines sc). verify_checkpoint L v (cl_checkpoint cl) (cl_signature cl)
            \<longrightarrow> checkpoint_of L gs (cl_checkpoint cl)"
    and "verify_dir L files (Some pub) = Inr rep" "vr_chain_ok rep"
    and "stream_files L files (collect_log_files files) = Inr rs" "rs \<noteq> []"
  shows "(\<exists>q. q \<in> needed_seqs sc \<and> ar_seq (hd rs) \<le> q \<and> q \<le> ar_seq (last rs))
    \<and> (\<forall>q. q \<in> needed_seqs sc \<and> ar_seq (hd rs) \<le> q \<and> q \<le> ar_seq (last rs)
           \<longrightarrow> collision L rs gs \<or> suffix (records_upto q rs) (records_upto q gs))"
proof -
  define ro where "ro = replay L (needed_seqs sc) rs"
  from assms(2,5-8) have link: "linked L (ar_prev_hash (hd rs)) (ar_seq (hd rs)) rs"
      and ok: "fst (snd (eval_checkpoints L sc ro)) = 0"
    using verify_dir_ok_iff[of L files "Some pub"] by (auto simp: ro_def)
  have ne: "ro_records ro > 0" using assms(8) by (simp add: ro_def)
  note sc = sidecar_with_key[OF assms(2,3) ok ne]
  note evaluated = eval_checkpoints_ok[OF ok sc(2,1) ne]
  have range: "in_range ro cp \<longleftrightarrow> ar_seq (hd rs) \<le> cp_seq cp \<and> cp_seq cp \<le> ar_seq (last rs)" for cp
    using assms(8) by (simp add: in_range_def ro_def)
  have "collision L rs gs \<or> suffix (records_upto q rs) (records_upto q gs)"
    if q: "q \<in> needed_seqs sc" "ar_seq (hd rs) \<le> q" "q \<le> ar_seq (last rs)" for q
  proof -
    from q(1) obtain cl where cl: "cl \<in> set (sc_lines sc)" "cp_seq (cl_checkpoint cl) = q"
      by (auto simp: needed_seqs_def)
    with q evaluated(2) range have "checkpoint_binds L (Some v) ro cl" by simp
    then have "verify_checkpoint L v (cl_checkpoint cl) (cl_signature cl)"
        and "hget (ro_seq_to_hash ro) q = Some (cp_chain_head_hash (cl_checkpoint cl))"
      using cl by (auto simp: checkpoint_binds_def Let_def)
    with assms(4) cl q bound_upto[OF link assms(8,1), of "cl_checkpoint cl" "needed_seqs sc"] show ?thesis
      by (auto simp: ro_def)
  qed
  moreover have "\<exists>q. q \<in> needed_seqs sc \<and> ar_seq (hd rs) \<le> q \<and> q \<le> ar_seq (last rs)"
    using evaluated(1) by (auto simp: range needed_seqs_def)
  ultimately show ?thesis by blast
qed

text \<open>The directory with one record, checked with the key of its daemon.\<close>

theorem signature_seals_log_witness:
  "\<exists>sc rep. read_checkpoint_sidecar sample_libs sample_dir (Some (public_hex sample_libs sample_key)) = Inr sc
     \<and> verify_dir sample_libs sample_dir (Some (public_hex sample_libs sample_key)) = Inr rep \<and> vr_chain_ok rep
     \<and> (\<exists>q. q \<in> needed_seqs sc \<and> ar_seq (hd sample_log) \<le> q \<and> q \<le> ar_seq (last sample_log))"
proof -
  obtain rep where rep: "verify_dir sample_libs sample_dir (Some (public_hex sample_libs sample_key)) = Inr rep" "vr_chain_ok rep"
    using closed_verifies[OF sample_laws sample_key_length sample_closed] by auto
  define sc where "sc = \<lparr>sc_lines = [sample_line], sc_verifier = Some (lib_ed_public sample_libs sample_key),
      sc_signature_checked = True, sc_missing = False\<rparr>"
  have sc: "read_checkpoint_sidecar sample_libs sample_dir (Some (public_hex sample_libs sample_key)) = Inr sc"
    using stream_lines_checkpoints[OF sample_laws, of "[sample_line]"] verifier_own_key[OF sample_laws sample_key_length]
    by (simp add: read_checkpoint_sidecar_def sc_def)
  have own: "\<forall>cl \<in> set (sc_lines sc).
      verify_checkpoint sample_libs (lib_ed_public sample_libs sample_key) (cl_checkpoint cl) (cl_signature cl)
      \<longrightarrow> checkpoint_of sample_libs sample_log (cl_checkpoint cl)"
    using sample_dir_ok by (simp add: sc_def dir_ok_def line_ok_def)
  have "sample_log \<noteq> []" by (simp add: sample_log_def)
  from signature_seals_log[OF sample_linked(1) sc verifier_own_key[OF sample_laws sample_key_length] own rep sample_stream this]
  show ?thesis using sc rep by blast
qed


definition gappy_log :: "AuditRecord list" where
  "gappy_log = [sample_record, sample_record\<lparr>ar_seq := 2\<rparr>]"

definition gappy_dir :: files where
  "gappy_dir = [(ACTIVE_LOG, log_text sample_libs gappy_log)]"


section \<open>What an honest daemon leaves behind\<close>

text \<open>
  C34. What an honest daemon writes is accepted.  However often the daemon is restarted or killed between
  two messages, and however it rotates and prunes its files on the way: after it has been shut down in
  order, the directory verifies; and it verifies with the daemon's public key if the daemon wrote a
  record in its last life and signs its checkpoints.  Every I/O call is taken to succeed, no record is
  dated after the clock that seals it, the clock does not run backwards, and the chain has room.
\<close>

theorem audit_trail_verifies:
  assumes "lib_laws L" "length key = 32"
    and "\<forall>ic \<in> set (ics @ [ic]). au_signer (ic_settings ic) \<in> {None, Some key}"
    and "timely 0 (concat (map life (ics @ [ic])))" "added_records (concat (map life (ics @ [ic]))) < 2 ^ 64"
    and "ic_close ic \<noteq> None"
    and "pub = None
         \<or> pub = Some (public_hex L key) \<and> au_signer (ic_settings ic) = Some key \<and> has_record (concat (map served (ic_rounds ic)))"
  shows "\<exists>rep. verify_dir L (fold (incarnate L) (ics @ [ic]) []) pub = Inr rep \<and> vr_chain_ok rep"
proof -
  let ?ms = "concat (map life ics)" and ?fs = "fold (incarnate L) ics []"
  have "dir_in_order L key (0 + added_records (life ic) + added_records ?ms) 0 []"
    using assms(5) by (simp add: dir_in_order_def add.commute)
  then have "dir_in_order L key (0 + added_records (life ic)) (time_after 0 ?ms) ?fs"
    using assms(3,4) by (intro incarnations_ok[OF assms(1)]) (simp_all add: timely_append)
  from incarnate_ok[OF assms(1) this] assms(3,4,6)
  have "closed_ok L key (has_record (concat (map served (ic_rounds ic))) \<and> au_signer (ic_settings ic) = Some key)
      (incarnate L ic ?fs)"
    by (simp add: timely_append)
  from closed_verifies[OF assms(1,2) this, of pub] assms(7) show ?thesis by auto
qed

text \<open>The daemon is killed after one record, started again, and shut down in order after another one.\<close>

theorem audit_trail_verifies_witness:
  "\<exists>rep. verify_dir sample_libs (fold (incarnate sample_libs) ([sample_life\<lparr>ic_close := None\<rparr>] @ [sample_life]) [])
      (Some (public_hex sample_libs sample_key)) = Inr rep \<and> vr_chain_ok rep"
  by (rule audit_trail_verifies[OF sample_laws])
    (simp_all add: sample_life_def life_def served_def added_records_def msg_records_def has_record_def
      readings_after_def record_valid_def sample_readings_def sample_record_def sample_key_def)

section \<open>Failures during a rotation\<close>

text \<open>
  C35. A crash in a rotation loses a number.  The writer numbers a record before it makes room for it, and
  the anchor that ends the rotation already counts the record.  If the daemon stops there, before the
  record is written, the directory holds every record but that one, is no longer accepted by the
  verifier, and makes the next daemon continue after the record that does not exist, so that its number
  stays missing.
\<close>

theorem rotation_crash_loses_number:
  assumes "lib_laws L" "writer_ok L key w tr cls" "tr_active tr \<noteq> []" "Suc (length (trail_records tr)) < 2 ^ 64"
    and "chain_append L r (ws_chain w) = (r', chain)" "rotate L (w\<lparr>ws_chain := chain\<rparr>) = (ok, w1)"
  shows "(\<exists>rs. stream_files L (ws_files w1) (collect_log_files (ws_files w1)) = Inr rs \<and> suffix rs (trail_records tr))
    \<and> (\<nexists>rep. verify_dir L (ws_files w1) pub = Inr rep \<and> vr_chain_ok rep)
    \<and> reconstruct_chain_state L (ws_files w1) = Some chain \<and> unat (cs_last_seq chain) = length (trail_records tr) + 1"
proof -
  let ?gs = "trail_records tr" and ?tr = "trail_rotate (ws_rotate_keep_files w) tr"
  let ?w = "w\<lparr>ws_chain := chain\<rparr>"
  have dir: "dir_ok L key (ws_files w) tr cls" and w: "ws_outcomes w = []" "ws_file w = ACTIVE_LOG" "ws_chain w = tip L ?gs"
    using assms(2) by (simp_all add: writer_ok_def writer_core_def)
  have link: "linked L GENESIS_HASH 0 ?gs" using dir by (simp add: dir_ok_def)
  have "chain = tip L (?gs @ [r'])" using assms(5) by (auto simp: w(3) chain_append_tip)
  then have seq: "cs_last_seq chain = of_nat (Suc (length ?gs))" by (simp add: tip_def)
  define t where "t = anchor_text L (?w\<lparr>ws_file_bytes := 0\<rparr>)"
  have anchor: "lib_anchor_in L t = Some \<lparr>an_last_hash = cs_last_hash chain, an_last_seq = cs_last_seq chain, an_active_bytes = 0\<rparr>"
    using assms(1) by (simp add: t_def anchor_text_def lib_lawsD)
  obtain fs where fs: "ws_files w1 = anchor_put t fs" "holds_trail L fs ?tr"
    using rotate_quiet[of L ?w tr] dir w assms(3,6) by (auto simp: dir_ok_def t_def)
  define rs where "rs = concat (tr_rotated ?tr) @ tr_active ?tr"
  have gs: "?gs = tr_pruned ?tr @ rs"
    using trail_records_rotate[of "ws_rotate_keep_files w" tr] by (simp add: trail_records_def rs_def)
  have stream: "stream_files L (ws_files w1) (collect_log_files (ws_files w1)) = Inr rs"
    unfolding fs(1) rs_def using dir holds_trail_anchor_put[OF fs(2)]
    by (intro stream_files_trail[OF assms(1)]) (simp_all add: dir_ok_def)
  have n: "unat (of_nat (Suc (length ?gs)) :: u64) = Suc (length ?gs)" using assms(4) by (rule of_nat_u64)
  have "check_anchor L (ws_files w1) (replay L needed rs) \<noteq> Inr True" for needed
  proof (cases "rs = []")
    case True
    have "cs_last_seq chain \<noteq> 0" using n unfolding seq by (metis unat_0 nat.distinct(1))
    then show ?thesis using True anchor by (simp add: check_anchor_def fs(1))
  next
    case False
    then have "?gs \<noteq> []" "last ?gs = last rs" unfolding gs by simp_all
    then have "unat (ar_seq (last rs)) = length ?gs - 1" "length ?gs > 0"
      using linked_length[OF link] by simp_all
    moreover have "unat (cs_last_seq chain) = Suc (length ?gs)" unfolding seq by (rule n)
    ultimately have "unat (cs_last_seq chain) \<noteq> unat (ar_seq (last rs) + 1)" if "ar_seq (last rs) \<noteq> - 1"
      using unat_add_one[OF that] by linarith
    then have "cs_last_seq chain \<noteq> ar_seq (last rs) + 1" if "ar_seq (last rs) \<noteq> - 1" using that by auto
    then show ?thesis using False anchor by (auto simp: check_anchor_def fs(1))
  qed
  then have "\<nexists>rep. verify_dir L (ws_files w1) pub = Inr rep \<and> vr_chain_ok rep"
    unfolding verify_dir_ok_iff stream by auto
  moreover have "utf8 []" "lines_of [] = []" by (simp_all add: utf8.simps[of "[]"] lines_of_def)
  then have "reconstruct_chain_state L (ws_files w1) = Some chain"
    using fs(2) anchor
    by (simp add: reconstruct_chain_state_def read_anchor_tail_def read_active_suffix_def fs(1) holds_trail_def
        trail_rotate_def Let_def)
  ultimately show ?thesis using stream n seq by (auto simp: gs suffix_def)
qed

definition sample_writer :: WriterState where
  "sample_writer =
     \<lparr>ws_chain = tip sample_libs sample_log, ws_file = ACTIVE_LOG, ws_file_bytes = length (log_text sample_libs sample_log),
      ws_signer = None, ws_rotate_max_bytes = 1, ws_rotate_keep_files = 0, ws_record_count = 0,
      ws_records_since_checkpoint = 0, ws_last_seen_dropped = 0, ws_files = sample_dir, ws_outcomes = []\<rparr>"

lemma sample_writer_ok: "writer_ok sample_libs sample_key sample_writer sample_trail [sample_line]"
  using sample_dir_ok by (simp add: writer_ok_def writer_core_def sample_writer_def CHECKPOINT_INTERVAL_def)

text \<open>The daemon stops while it makes room for its second record.\<close>

theorem rotation_crash_loses_number_witness:
  "\<exists>chain r' w1. chain_append sample_libs sample_record (ws_chain sample_writer) = (r', chain)
     \<and> rotate sample_libs (sample_writer\<lparr>ws_chain := chain\<rparr>) = (True, w1)
     \<and> reconstruct_chain_state sample_libs (ws_files w1) = Some chain \<and> unat (cs_last_seq chain) = 2"
proof -
  obtain r' chain where append: "chain_append sample_libs sample_record (ws_chain sample_writer) = (r', chain)"
    by (meson surj_pair)
  have "sample_log \<noteq> []" by (simp add: sample_log_def)
  moreover have "holds_trail sample_libs sample_dir sample_trail" "trail_ok sample_trail"
    using sample_dir_ok by (simp_all add: dir_ok_def)
  ultimately obtain w1 where "rotate sample_libs (sample_writer\<lparr>ws_chain := chain\<rparr>) = (True, w1)"
    using rotate_quiet[of sample_libs "sample_writer\<lparr>ws_chain := chain\<rparr>" sample_trail] sample_linked(2)
    by (auto simp: sample_writer_def)
  with append rotation_crash_loses_number[OF sample_laws sample_writer_ok _ _ append this, of None]
  show ?thesis by (auto simp: sample_linked(2) sample_log_def)
qed

text \<open>A writer whose active file has been renamed and could not be opened again.\<close>

definition stranded :: "WriterState \<Rightarrow> bool" where
  "stranded w \<longleftrightarrow> hget (ws_files w) ACTIVE_LOG = None \<and> 0 < ws_file_bytes w"

lemma io_sync_kept: "io_sync w = (ok, w') \<Longrightarrow> ws_files w' = ws_files w \<and> ws_file_bytes w' = ws_file_bytes w \<and> ws_rotate_max_bytes w' = ws_rotate_max_bytes w"
  by (auto simp: io_sync_def attempt_def split: list.splits outcome.splits)

lemma io_read_dir_kept: "io_read_dir w = (ok, w') \<Longrightarrow> ws_files w' = ws_files w \<and> ws_file_bytes w' = ws_file_bytes w \<and> ws_rotate_max_bytes w' = ws_rotate_max_bytes w"
  by (auto simp: io_read_dir_def attempt_def split: list.splits outcome.splits)

lemma rotate_stranded:
  assumes "hget (ws_files w) ACTIVE_LOG = None"
  shows "\<exists>w'. rotate L w = (False, w') \<and> ws_files w' = ws_files w \<and> ws_file_bytes w' = ws_file_bytes w
    \<and> ws_rotate_max_bytes w' = ws_rotate_max_bytes w"
proof -
  obtain ok1 w1 where w1: "io_sync w = (ok1, w1)" by (meson surj_pair)
  obtain ok2 w2 where w2: "io_read_dir w1 = (ok2, w2)" by (meson surj_pair)
  note kept = io_sync_kept[OF w1] io_read_dir_kept[OF w2]
  then have "io_rename ACTIVE_LOG n w2 = (False, w2)" for n using assms by (simp add: io_rename_def)
  with w1 w2 kept show ?thesis by (auto simp: rotate_def then_try_def)
qed

text \<open>
  C36. A failed rotation strands the writer.  If the new file cannot be opened once the active file has
  been renamed, the record is lost; and from then on, whatever the file system does, every record that
  does not fit behind the renamed file is lost as well, because each attempt fails to rename a file that
  is no longer there.
\<close>

theorem failed_rotation_strands_writer:
  assumes "0 < ws_file_bytes w" "chain_append L r (ws_chain w) = (r', chain)"
    and "ws_file_bytes w + length (to_jsonl L r') > ws_rotate_max_bytes w"
    and "hget (ws_files w) ACTIVE_LOG = Some content"
    and "ws_outcomes w = [Completed, Completed, Completed, Completed, Failed k] @ os"
  shows "(\<exists>w1. write_record_raw L now r w = (False, w1) \<and> stranded w1
            \<and> ws_file_bytes w1 = ws_file_bytes w \<and> ws_rotate_max_bytes w1 = ws_rotate_max_bytes w)
    \<and> (\<forall>w2 r2 now2. stranded w2
          \<and> ws_file_bytes w2 + length (to_jsonl L (fst (chain_append L r2 (ws_chain w2)))) > ws_rotate_max_bytes w2
          \<longrightarrow> (\<exists>w3. write_record_raw L now2 r2 w2 = (False, w3) \<and> stranded w3 \<and> ws_files w3 = ws_files w2))"
proof (intro conjI allI impI)
  let ?w = "w\<lparr>ws_chain := chain\<rparr>"
  have "ACTIVE_LOG \<noteq> rotated_name n" for n by (simp add: rotated_name_eq)
  then have "\<exists>w1. rotate L ?w = (False, w1) \<and> hget (ws_files w1) ACTIVE_LOG = None
      \<and> ws_file_bytes w1 = ws_file_bytes w \<and> ws_rotate_max_bytes w1 = ws_rotate_max_bytes w"
    using assms(4,5)
    by (simp add: rotate_def then_try_def io_sync_def io_read_dir_def io_rename_def io_create_def attempt_def rename_file_def)
  then show "\<exists>w1. write_record_raw L now r w = (False, w1) \<and> stranded w1
            \<and> ws_file_bytes w1 = ws_file_bytes w \<and> ws_rotate_max_bytes w1 = ws_rotate_max_bytes w"
    using assms(1-3) by (auto simp: write_record_raw_stages make_room_def then_try_def stranded_def)
next
  fix w2 r2 now2
  assume w2: "stranded w2 \<and> ws_file_bytes w2 + length (to_jsonl L (fst (chain_append L r2 (ws_chain w2)))) > ws_rotate_max_bytes w2"
  obtain r2' chain2 where append: "chain_append L r2 (ws_chain w2) = (r2', chain2)" by (meson surj_pair)
  with w2 rotate_stranded[of "w2\<lparr>ws_chain := chain2\<rparr>" L]
  show "\<exists>w3. write_record_raw L now2 r2 w2 = (False, w3) \<and> stranded w3 \<and> ws_files w3 = ws_files w2"
    by (auto simp: write_record_raw_stages make_room_def then_try_def stranded_def)
qed

theorem failed_rotation_strands_writer_witness:
  "\<exists>w1. write_record_raw sample_libs 9 sample_record
        (sample_writer\<lparr>ws_outcomes := [Completed, Completed, Completed, Completed, Failed 0] @ []\<rparr>) = (False, w1)
     \<and> stranded w1"
proof -
  let ?w = "sample_writer\<lparr>ws_outcomes := [Completed, Completed, Completed, Completed, Failed 0] @ []\<rparr>"
  obtain r' chain where append: "chain_append sample_libs sample_record (ws_chain ?w) = (r', chain)"
    by (meson surj_pair)
  have "0 < ws_file_bytes ?w" "ws_file_bytes ?w + length (to_jsonl sample_libs r') > ws_rotate_max_bytes ?w"
    "hget (ws_files ?w) ACTIVE_LOG = Some (log_text sample_libs sample_log)"
    by (simp_all add: sample_writer_def sample_log_def to_jsonl_def)
  from failed_rotation_strands_writer[OF this(1) append this(2,3), of 0 "[]" 9] show ?thesis by auto
qed

end
