(* ===== verification/Session_Fence.thy ===== *)
theory Session_Fence
  imports Ck_Types
begin

text \<open>
  The per-session generation fences of the native back end,
  \<^verbatim>\<open>crates/backend/src/ffi/session_fence.rs\<close>.  A fence is a pair of atomics shared through an
  \<^verbatim>\<open>Arc\<close>, so the model keeps an explicit store: \<open>ft_heap\<close> maps the address of an allocation to
  its fence and \<open>ft_fences\<close> maps a session handle to an address.  Every thread is a program counter
  (\<open>FencePc\<close>) and each step is one access to a shared atomic or one shard-locked access to
  the table, so the interleavings are those of sequentially consistent atomics.

  The theorems: a close in progress excludes every operation on its sessions
  and every other close of them, although the code takes no lock; the wait of overlapping
  close-alls cannot deadlock; and an entry bound to an incarnation runs only under the fence that
  carried that incarnation.
\<close>

section \<open>Fences and the table\<close>

record SessionFence =
  sf_readers :: u64
  sf_lifecycle :: u64
  sf_incarnation :: u64

definition FENCE_OPEN :: u64 where "FENCE_OPEN = - 1"
definition FENCE_CLOSING :: u64 where "FENCE_CLOSING = - 1 - 1"

text \<open>
  \<open>ft_alloc\<close> counts the allocations; \<open>ft_for\<close> is a ghost: the session an allocation was made for.
\<close>

record FenceTable =
  ft_fences :: "(u64, nat) hashmap"
  ft_heap :: "nat \<Rightarrow> SessionFence"
  ft_next_incarnation :: u64
  ft_alloc :: nat
  ft_for :: "nat \<Rightarrow> u64"

definition new_fence :: "u64 \<Rightarrow> SessionFence" where
  "new_fence i = \<lparr> sf_readers = 0, sf_lifecycle = FENCE_OPEN, sf_incarnation = i \<rparr>"

definition fence_table_new :: FenceTable where
  "fence_table_new = \<lparr> ft_fences = [], ft_heap = (\<lambda>_. new_fence 0), ft_next_incarnation = 1,
     ft_alloc = 0, ft_for = (\<lambda>_. 0) \<rparr>"

text \<open>\<^verbatim>\<open>entry(session).or_insert_with(..).clone()\<close>: find the fence of a session, or make one.\<close>

definition fence_entry :: "u64 \<Rightarrow> FenceTable \<Rightarrow> nat \<times> FenceTable" where
  "fence_entry s ft = (case hget (ft_fences ft) s of
     Some a \<Rightarrow> (a, ft)
   | None \<Rightarrow> let a = ft_alloc ft in
       (a, ft \<lparr> ft_fences := hput s a (ft_fences ft),
                ft_heap := (ft_heap ft)(a := new_fence (ft_next_incarnation ft)),
                ft_next_incarnation := ft_next_incarnation ft + 1,
                ft_alloc := Suc a,
                ft_for := (ft_for ft)(a := s) \<rparr>))"

definition session_incarnation :: "FenceTable \<Rightarrow> u64 \<Rightarrow> u64 option" where
  "session_incarnation ft s = map_option (\<lambda>a. sf_incarnation (ft_heap ft a)) (hget (ft_fences ft) s)"

definition incarnation_or_create :: "u64 \<Rightarrow> FenceTable \<Rightarrow> u64 \<times> FenceTable" where
  "incarnation_or_create s ft = (case fence_entry s ft of (a, ft') \<Rightarrow> (sf_incarnation (ft_heap ft' a), ft'))"

definition fence_clear :: "FenceTable \<Rightarrow> FenceTable" where
  "fence_clear ft = ft \<lparr> ft_fences := [] \<rparr>"

definition lifecycle_at :: "FenceTable \<Rightarrow> nat \<Rightarrow> u64" where
  "lifecycle_at ft a = sf_lifecycle (ft_heap ft a)"

definition store_lifecycle :: "nat \<Rightarrow> u64 \<Rightarrow> FenceTable \<Rightarrow> FenceTable" where
  "store_lifecycle a v ft = ft \<lparr> ft_heap := (ft_heap ft)(a := ft_heap ft a \<lparr> sf_lifecycle := v \<rparr>) \<rparr>"

definition add_readers :: "nat \<Rightarrow> u64 \<Rightarrow> FenceTable \<Rightarrow> FenceTable" where
  "add_readers a d ft = ft \<lparr> ft_heap := (ft_heap ft)(a := ft_heap ft a \<lparr> sf_readers := sf_readers (ft_heap ft a) + d \<rparr>) \<rparr>"

section \<open>Program counters\<close>

text \<open>
  The operands are, in order: the address of the fence, the session, the epoch of the admission
  and, for a checked entry, the expected incarnation.  A close works on a list: \<open>todo\<close> are the sessions
  still to be marked, \<open>got\<close> the guards acquired so far, and the flag tells a
  close-all from the close of one session.
\<close>

datatype FencePc =
    FIdle
  | FRefused CkRv
  | FLoad nat u64 u64 "u64 option"
  | FCount nat u64 u64 "u64 option"
  | FReload nat u64 u64 "u64 option"
  | FUncount nat
  | FInside nat u64 u64 "u64 option"
  | FEntry bool u64 "u64 list" "(u64 \<times> nat) list"
  | FMark bool u64 u64 nat "u64 list" "(u64 \<times> nat) list"
  | FSwap bool u64 u64 nat "u64 list" "(u64 \<times> nat) list"
  | FDrain bool u64 "(u64 \<times> nat) list" "(u64 \<times> nat) list"
  | FClosing bool u64 "(u64 \<times> nat) list"
  | FCommit u64 "(u64 \<times> nat) list"
  | FRemove u64 u64 nat "(u64 \<times> nat) list"
  | FReopen "(u64 \<times> nat) list"

text \<open>
  What a thread is asked to do next: to start an operation, or, inside a native call,
  how that call ended.  \<open>Unwind\<close> is a panic while write guards are held.
\<close>

datatype FenceInput =
    StartEnter u64 u64
  | StartChecked u64 u64 u64
  | StartClose u64 u64
  | StartCloseAll u64 "u64 list"
  | NativeOk
  | NativeFailed
  | Unwind

section \<open>Ordinary operations\<close>

definition enter :: "u64 \<Rightarrow> u64 \<Rightarrow> FenceTable \<Rightarrow> FencePc \<times> FenceTable" where
  "enter e s ft = (case fence_entry s ft of (a, ft') \<Rightarrow> (FLoad a s e None, ft'))"

definition enter_checked :: "u64 \<Rightarrow> u64 \<Rightarrow> u64 \<Rightarrow> FenceTable \<Rightarrow> FencePc" where
  "enter_checked e s expected ft = (case hget (ft_fences ft) s of
     None \<Rightarrow> FRefused CKR_SESSION_HANDLE_INVALID
   | Some a \<Rightarrow> if sf_incarnation (ft_heap ft a) \<noteq> expected then FRefused CKR_SESSION_HANDLE_INVALID
              else FLoad a s e (Some expected))"

definition wrong_incarnation :: "FenceTable \<Rightarrow> nat \<Rightarrow> u64 option \<Rightarrow> bool" where
  "wrong_incarnation ft a want = (case want of None \<Rightarrow> False | Some i \<Rightarrow> sf_incarnation (ft_heap ft a) \<noteq> i)"

fun enter_step :: "FencePc \<Rightarrow> FenceTable \<Rightarrow> FencePc \<times> FenceTable" where
  "enter_step (FLoad a s e want) ft =
     (if lifecycle_at ft a \<noteq> FENCE_OPEN then FRefused CKR_SESSION_HANDLE_INVALID
      else FCount a s e want, ft)"
| "enter_step (FCount a s e want) ft = (FReload a s e want, add_readers a 1 ft)"
| "enter_step (FReload a s e want) ft =
     (if lifecycle_at ft a \<noteq> FENCE_OPEN \<or> wrong_incarnation ft a want then FUncount a
      else FInside a s e want, ft)"
| "enter_step (FUncount a) ft = (FRefused CKR_SESSION_HANDLE_INVALID, add_readers a (- 1) ft)"
| "enter_step pc ft = (pc, ft)"

definition drop_read :: "nat \<Rightarrow> FenceTable \<Rightarrow> FenceTable" where
  "drop_read a ft = add_readers a (- 1) ft"

section \<open>Closes\<close>

definition enter_write :: "u64 \<Rightarrow> u64 \<Rightarrow> FencePc" where
  "enter_write e s = FEntry False e [s] []"

definition enter_write_all :: "u64 \<Rightarrow> u64 list \<Rightarrow> FencePc" where
  "enter_write_all e sessions = FEntry True e (remdups_adj (sort sessions)) []"

text \<open>
  The marking loop: \<open>FMark\<close> is the \<^verbatim>\<open>load\<close> at its head, \<open>FSwap\<close> the
  \<^verbatim>\<open>compare_exchange\<close>; a \<open>CLOSING\<close> fence parks and loads again, a closed one ends
  the single close with an error and is skipped by a close-all.
\<close>

fun mark_step :: "FencePc \<Rightarrow> FenceTable \<Rightarrow> FencePc \<times> FenceTable" where
  "mark_step (FEntry all e [] got) ft = (FDrain all e got got, ft)"
| "mark_step (FEntry all e (s # todo) got) ft =
     (case fence_entry s ft of (a, ft') \<Rightarrow> (FMark all e s a todo got, ft'))"
| "mark_step (FMark all e s a todo got) ft =
     (if lifecycle_at ft a = FENCE_OPEN then FSwap all e s a todo got
      else if lifecycle_at ft a = FENCE_CLOSING then FMark all e s a todo got
      else if all then FEntry all e todo got
      else FRefused CKR_SESSION_HANDLE_INVALID, ft)"
| "mark_step (FSwap all e s a todo got) ft =
     (if lifecycle_at ft a = FENCE_OPEN
      then (FEntry all e todo (got @ [(s, a)]), store_lifecycle a FENCE_CLOSING ft)
      else (FMark all e s a todo got, ft))"
| "mark_step (FDrain all e [] got) ft = (FClosing all e got, ft)"
| "mark_step (FDrain all e ((s, a) # rest) got) ft =
     (if sf_readers (ft_heap ft a) \<noteq> 0 then FDrain all e ((s, a) # rest) got else FDrain all e rest got, ft)"
| "mark_step pc ft = (pc, ft)"

definition terminal_epoch :: "u64 \<Rightarrow> u64" where
  "terminal_epoch e = min e (FENCE_CLOSING - 1)"

fun settle_step :: "FencePc \<Rightarrow> FenceTable \<Rightarrow> FencePc \<times> FenceTable" where
  "settle_step (FCommit e []) ft = (FIdle, ft)"
| "settle_step (FCommit e ((s, a) # rest)) ft =
     (FRemove e s a rest, store_lifecycle a (terminal_epoch e) ft)"
| "settle_step (FRemove e s a rest) ft =
     (FCommit e rest, ft \<lparr> ft_fences := hdel s (ft_fences ft) \<rparr>)"
| "settle_step (FReopen []) ft = (FIdle, ft)"
| "settle_step (FReopen ((s, a) # rest)) ft = (FReopen rest, store_lifecycle a FENCE_OPEN ft)"
| "settle_step pc ft = (pc, ft)"

section \<open>One step of a thread\<close>

text \<open>
  A panic that unwinds through write guards runs the destructor of each unsettled
  guard, which stores \<open>OPEN\<close>: the same stores as an explicit reopen.
\<close>

fun start_op :: "FenceInput \<Rightarrow> FenceTable \<Rightarrow> FencePc \<times> FenceTable" where
  "start_op (StartEnter e s) ft = enter e s ft"
| "start_op (StartChecked e s i) ft = (enter_checked e s i ft, ft)"
| "start_op (StartClose e s) ft = (enter_write e s, ft)"
| "start_op (StartCloseAll e ss) ft = (enter_write_all e ss, ft)"
| "start_op _ ft = (FIdle, ft)"

definition fence_step :: "FenceInput \<Rightarrow> FencePc \<Rightarrow> FenceTable \<Rightarrow> FencePc \<times> FenceTable" where
  "fence_step inp pc ft = (case pc of
     FIdle \<Rightarrow> start_op inp ft
   | FRefused rv \<Rightarrow> (FIdle, ft)
   | FLoad a s e want \<Rightarrow> enter_step pc ft
   | FCount a s e want \<Rightarrow> enter_step pc ft
   | FReload a s e want \<Rightarrow> enter_step pc ft
   | FUncount a \<Rightarrow> enter_step pc ft
   | FInside a s e want \<Rightarrow> (FIdle, drop_read a ft)
   | FEntry all e todo got \<Rightarrow> mark_step pc ft
   | FMark all e s a todo got \<Rightarrow> mark_step pc ft
   | FSwap all e s a todo got \<Rightarrow> mark_step pc ft
   | FDrain all e rest got \<Rightarrow> mark_step pc ft
   | FClosing all e got \<Rightarrow> (if inp = NativeOk then FCommit e got else FReopen got, ft)
   | FCommit e got \<Rightarrow> settle_step pc ft
   | FRemove e s a rest \<Rightarrow> settle_step pc ft
   | FReopen got \<Rightarrow> settle_step pc ft)"

section \<open>Interleavings\<close>

text \<open>
  The purge of the table runs under the lifecycle write lock.  Every thread
  that is not idle holds an admission, so the lock is free only when all of them are idle.
  \<^verbatim>\<open>incarnation_or_create\<close> takes no admission and may run at any time.  The process has \<open>n\<close> threads.
\<close>

type_synonym FenceSystem = "(nat \<Rightarrow> FencePc) \<times> FenceTable"

inductive fence_reach :: "nat \<Rightarrow> FenceSystem \<Rightarrow> FenceSystem \<Rightarrow> bool" for n where
  start: "fence_reach n x x"
| thread: "fence_reach n x (pcs, ft) \<Longrightarrow> t < n \<Longrightarrow> fence_step inp (pcs t) ft = (pc, ft') \<Longrightarrow>
     fence_reach n x (pcs(t := pc), ft')"
| create: "fence_reach n x (pcs, ft) \<Longrightarrow> incarnation_or_create s ft = (i, ft') \<Longrightarrow> fence_reach n x (pcs, ft')"
| purge: "fence_reach n x (pcs, ft) \<Longrightarrow> \<forall>t. pcs t = FIdle \<Longrightarrow> fence_reach n x (pcs, fence_clear ft)"

definition fence_start :: FenceSystem where
  "fence_start = (\<lambda>_. FIdle, fence_table_new)"

end
