(* ===== verification/Fence_Exclusion.thy ===== *)
theory Fence_Exclusion
  imports Session_Fence
begin

text \<open>
  What the session fences guarantee.  The invariant \<open>fences_ok\<close> ties each program counter to the store:
  the reader count of a fence is the number of threads that counted themselves in,
  a \<open>CLOSING\<close> word has exactly one owner, a fence that an operation can still use is the one
  in the table, and no operation is inside a fence whose owner has finished draining.
\<close>

section \<open>What a program counter holds\<close>

fun held :: "FencePc \<Rightarrow> (u64 \<times> nat) list" where
  "held (FLoad a s e want) = [(s, a)]"
| "held (FCount a s e want) = [(s, a)]"
| "held (FReload a s e want) = [(s, a)]"
| "held (FInside a s e want) = [(s, a)]"
| "held (FEntry all e todo got) = got"
| "held (FMark all e s a todo got) = (s, a) # got"
| "held (FSwap all e s a todo got) = (s, a) # got"
| "held (FDrain all e rest got) = got"
| "held (FClosing all e got) = got"
| "held (FCommit e got) = got"
| "held (FRemove e s a rest) = (s, a) # rest"
| "held (FReopen got) = got"
| "held _ = []"

text \<open>The fences a close has marked and not yet settled, and those it has claimed at all.\<close>

fun owned :: "FencePc \<Rightarrow> (u64 \<times> nat) list" where
  "owned (FEntry all e todo got) = got"
| "owned (FMark all e s a todo got) = got"
| "owned (FSwap all e s a todo got) = got"
| "owned (FDrain all e rest got) = got"
| "owned (FClosing all e got) = got"
| "owned (FCommit e got) = got"
| "owned (FRemove e s a rest) = rest"
| "owned (FReopen got) = got"
| "owned _ = []"

fun removing :: "FencePc \<Rightarrow> (u64 \<times> nat) list" where
  "removing (FRemove e s a rest) = [(s, a)]"
| "removing _ = []"

definition claimed :: "FencePc \<Rightarrow> nat list" where
  "claimed pc = map snd (removing pc @ owned pc)"

fun drained :: "FencePc \<Rightarrow> nat set" where
  "drained (FDrain all e rest got) = snd ` set got - snd ` set rest"
| "drained (FClosing all e got) = snd ` set got"
| "drained (FCommit e got) = snd ` set got"
| "drained (FRemove e s a rest) = insert a (snd ` set rest)"
| "drained (FReopen got) = snd ` set got"
| "drained _ = {}"

fun inside :: "FencePc \<Rightarrow> nat option" where
  "inside (FInside a s e want) = Some a"
| "inside _ = None"

fun counted :: "FencePc \<Rightarrow> nat option" where
  "counted (FReload a s e want) = Some a"
| "counted (FUncount a) = Some a"
| "counted (FInside a s e want) = Some a"
| "counted _ = None"

definition usable :: "FenceTable \<Rightarrow> nat \<Rightarrow> bool" where
  "usable ft a = (lifecycle_at ft a = FENCE_OPEN \<or> lifecycle_at ft a = FENCE_CLOSING)"

section \<open>The invariant\<close>

definition table_ok :: "FenceTable \<Rightarrow> bool" where
  "table_ok ft = (\<forall>s a. hget (ft_fences ft) s = Some a \<longrightarrow> a < ft_alloc ft \<and> ft_for ft a = s)"

definition hold_ok :: "FenceTable \<Rightarrow> u64 \<Rightarrow> nat \<Rightarrow> bool" where
  "hold_ok ft s a = (a < ft_alloc ft \<and> ft_for ft a = s
     \<and> (usable ft a \<longrightarrow> hget (ft_fences ft) s = Some a))"

definition held_ok :: "FenceTable \<Rightarrow> FencePc \<Rightarrow> bool" where
  "held_ok ft pc = ((\<forall>(s, a) \<in> set (held pc). hold_ok ft s a)
     \<and> (\<forall>a. counted pc = Some a \<longrightarrow> a < ft_alloc ft))"

definition owned_ok :: "FenceTable \<Rightarrow> FencePc \<Rightarrow> bool" where
  "owned_ok ft pc = ((\<forall>(s, a) \<in> set (owned pc). lifecycle_at ft a = FENCE_CLOSING)
     \<and> (\<forall>(s, a) \<in> set (removing pc). \<not> usable ft a \<and> hget (ft_fences ft) s = Some a)
     \<and> distinct (claimed pc))"

definition inside_ok :: "FenceTable \<Rightarrow> FencePc \<Rightarrow> bool" where
  "inside_ok ft pc = (\<forall>a. inside pc = Some a \<longrightarrow> usable ft a)"

text \<open>A close-all marks in strictly ascending order; a single close has one session.\<close>

fun well_shaped :: "FencePc \<Rightarrow> bool" where
  "well_shaped (FEntry all e todo got) =
     (sorted_wrt (<) (map fst got @ todo) \<and> (all \<or> length got + length todo = 1))"
| "well_shaped (FMark all e s a todo got) =
     (sorted_wrt (<) (map fst got @ s # todo) \<and> (all \<or> todo = [] \<and> got = []))"
| "well_shaped (FSwap all e s a todo got) =
     (sorted_wrt (<) (map fst got @ s # todo) \<and> (all \<or> todo = [] \<and> got = []))"
| "well_shaped (FDrain all e rest got) = (set rest \<subseteq> set got)"
| "well_shaped _ = True"

definition pc_ok :: "FenceTable \<Rightarrow> FencePc \<Rightarrow> bool" where
  "pc_ok ft pc = (held_ok ft pc \<and> owned_ok ft pc \<and> inside_ok ft pc \<and> well_shaped pc)"

definition apart :: "FencePc \<Rightarrow> FencePc \<Rightarrow> bool" where
  "apart p q = (set (claimed p) \<inter> set (claimed q) = {})"

definition readers_ok :: "(nat \<Rightarrow> FencePc) \<Rightarrow> FenceTable \<Rightarrow> bool" where
  "readers_ok pcs ft = (\<forall>a. sf_readers (ft_heap ft a) = of_nat (card {t. counted (pcs t) = Some a}))"

definition closing_owned :: "(nat \<Rightarrow> FencePc) \<Rightarrow> FenceTable \<Rightarrow> bool" where
  "closing_owned pcs ft = (\<forall>a < ft_alloc ft. lifecycle_at ft a = FENCE_CLOSING \<longrightarrow>
     (\<exists>t. a \<in> snd ` set (owned (pcs t))))"

definition drained_ok :: "FencePc \<Rightarrow> FencePc \<Rightarrow> bool" where
  "drained_ok p q = (\<forall>a. inside q = Some a \<longrightarrow> a \<notin> drained p)"

definition fences_ok :: "nat \<Rightarrow> FenceSystem \<Rightarrow> bool" where
  "fences_ok n x = (case x of (pcs, ft) \<Rightarrow> table_ok ft \<and> (\<forall>t. pc_ok ft (pcs t))
     \<and> (\<forall>t u. t \<noteq> u \<longrightarrow> apart (pcs t) (pcs u))
     \<and> (\<forall>t u. drained_ok (pcs t) (pcs u))
     \<and> (\<forall>t \<ge> n. pcs t = FIdle) \<and> readers_ok pcs ft \<and> closing_owned pcs ft)"

lemma fence_words [simp]:
  "FENCE_OPEN \<noteq> FENCE_CLOSING" "FENCE_CLOSING \<noteq> FENCE_OPEN"
  by (simp_all add: FENCE_OPEN_def FENCE_CLOSING_def)

lemma terminal_not_open [simp]:
  "terminal_epoch e \<noteq> FENCE_OPEN" "terminal_epoch e \<noteq> FENCE_CLOSING"
proof -
  have "terminal_epoch e \<le> FENCE_CLOSING - 1" by (simp add: terminal_epoch_def)
  moreover have "(FENCE_CLOSING - 1 :: u64) < FENCE_CLOSING" "FENCE_CLOSING < FENCE_OPEN"
    by (simp_all add: FENCE_OPEN_def FENCE_CLOSING_def)
  ultimately have "terminal_epoch e < FENCE_CLOSING" "terminal_epoch e < FENCE_OPEN" by auto
  then show "terminal_epoch e \<noteq> FENCE_OPEN" "terminal_epoch e \<noteq> FENCE_CLOSING" by auto
qed

section \<open>Effects on the store\<close>

lemma lifecycle_store [simp]:
  "lifecycle_at (store_lifecycle a v ft) b = (if b = a then v else lifecycle_at ft b)"
  by (simp add: lifecycle_at_def store_lifecycle_def)

lemma store_lifecycle_simps [simp]:
  "ft_fences (store_lifecycle a v ft) = ft_fences ft"
  "ft_alloc (store_lifecycle a v ft) = ft_alloc ft"
  "ft_for (store_lifecycle a v ft) = ft_for ft"
  "sf_readers (ft_heap (store_lifecycle a v ft) b) = sf_readers (ft_heap ft b)"
  "sf_incarnation (ft_heap (store_lifecycle a v ft) b) = sf_incarnation (ft_heap ft b)"
  by (simp_all add: store_lifecycle_def)

lemma add_readers_simps [simp]:
  "lifecycle_at (add_readers a d ft) b = lifecycle_at ft b"
  "ft_fences (add_readers a d ft) = ft_fences ft"
  "ft_alloc (add_readers a d ft) = ft_alloc ft"
  "ft_for (add_readers a d ft) = ft_for ft"
  "sf_readers (ft_heap (add_readers a d ft) b) = sf_readers (ft_heap ft b) + (if b = a then d else 0)"
  "sf_incarnation (ft_heap (add_readers a d ft) b) = sf_incarnation (ft_heap ft b)"
  by (simp_all add: add_readers_def lifecycle_at_def)

lemma lifecycle_table [simp]: "lifecycle_at (ft \<lparr> ft_fences := m \<rparr>) b = lifecycle_at ft b"
  by (simp add: lifecycle_at_def)

lemma usable_simps [simp]:
  "usable (add_readers a d ft) b = usable ft b"
  "usable (store_lifecycle a FENCE_OPEN ft) b = (b = a \<or> usable ft b)"
  "usable (store_lifecycle a FENCE_CLOSING ft) b = (b = a \<or> usable ft b)"
  "usable (store_lifecycle a (terminal_epoch e) ft) b = (b \<noteq> a \<and> usable ft b)"
  "usable (ft \<lparr> ft_fences := m \<rparr>) b = usable ft b"
  by (auto simp: usable_def)

lemma usable_words [simp]:
  "lifecycle_at ft a = FENCE_OPEN \<Longrightarrow> usable ft a" "lifecycle_at ft a = FENCE_CLOSING \<Longrightarrow> usable ft a"
  by (simp_all add: usable_def)

text \<open>Looking a fence up never disturbs the fences that exist.\<close>

lemma fence_entry_cases:
  assumes "fence_entry s ft = (a, ft')"
  obtains (found) "hget (ft_fences ft) s = Some a" "ft' = ft"
  | (fresh) "hget (ft_fences ft) s = None" "a = ft_alloc ft" "ft_alloc ft' = Suc a"
      "hget (ft_fences ft') = (hget (ft_fences ft))(s \<mapsto> a)" "ft_for ft' = (ft_for ft)(a := s)"
      "ft_heap ft' = (ft_heap ft)(a := new_fence (ft_next_incarnation ft))"
      "ft_next_incarnation ft' = ft_next_incarnation ft + 1"
  using assms by (auto simp: fence_entry_def Let_def split: option.splits)

lemma held_parts:
  "set (owned pc) \<subseteq> set (held pc)" "set (removing pc) \<subseteq> set (held pc)"
  "inside pc = Some b \<Longrightarrow> counted pc = Some b"
  by (cases pc; auto)+

lemma pc_ok_mono:
  assumes "pc_ok ft pc"
    and "\<And>s b. (s, b) \<in> set (held pc) \<Longrightarrow> hold_ok ft s b \<Longrightarrow> hold_ok ft' s b"
    and "\<And>s b. (s, b) \<in> set (owned pc) \<Longrightarrow> hold_ok ft s b \<Longrightarrow> lifecycle_at ft b = FENCE_CLOSING \<Longrightarrow>
          lifecycle_at ft' b = FENCE_CLOSING"
    and "\<And>s b. (s, b) \<in> set (removing pc) \<Longrightarrow> hold_ok ft s b \<Longrightarrow> \<not> usable ft b \<Longrightarrow>
          hget (ft_fences ft) s = Some b \<Longrightarrow> \<not> usable ft' b \<and> hget (ft_fences ft') s = Some b"
    and "\<And>b. inside pc = Some b \<Longrightarrow> b < ft_alloc ft \<Longrightarrow> usable ft b \<Longrightarrow> usable ft' b"
    and "ft_alloc ft \<le> ft_alloc ft'"
  shows "pc_ok ft' pc"
proof -
  have "held_ok ft pc" "owned_ok ft pc" "inside_ok ft pc" "well_shaped pc"
    using assms(1) by (simp_all add: pc_ok_def)
  then have hold: "hold_ok ft s b" if "(s, b) \<in> set (held pc)" for s b
    using that by (auto simp: held_ok_def)
  have "held_ok ft' pc"
    using \<open>held_ok ft pc\<close> assms(2,6) unfolding held_ok_def by fastforce
  moreover have "owned_ok ft' pc"
    using \<open>owned_ok ft pc\<close> assms(3,4) hold held_parts(1,2)[of pc] unfolding owned_ok_def by blast
  moreover have "inside_ok ft' pc"
    using \<open>inside_ok ft pc\<close> \<open>held_ok ft pc\<close> assms(5) held_parts(3)[of pc]
    unfolding inside_ok_def held_ok_def by blast
  ultimately show ?thesis using \<open>well_shaped pc\<close> by (simp add: pc_ok_def)
qed

lemma pc_ok_entry:
  assumes "fence_entry s ft = (a, ft')" "pc_ok ft pc"
  shows "pc_ok ft' pc"
  using assms(1)
proof (cases rule: fence_entry_cases)
  case found
  then show ?thesis using assms(2) by simp
next
  case fresh
  have same: "lifecycle_at ft' b = lifecycle_at ft b" "usable ft' b = usable ft b" if "b < ft_alloc ft" for b
    using that fresh by (simp_all add: lifecycle_at_def usable_def)
  show ?thesis
    by (rule pc_ok_mono[OF assms(2)]) (use fresh same in \<open>auto simp: hold_ok_def\<close>)
qed

lemma pc_ok_readers: "pc_ok ft pc \<Longrightarrow> pc_ok (add_readers a d ft) pc"
  by (erule pc_ok_mono) (simp_all add: hold_ok_def)

lemma pc_ok_mark:
  assumes "pc_ok ft pc" "lifecycle_at ft a = FENCE_OPEN"
  shows "pc_ok (store_lifecycle a FENCE_CLOSING ft) pc"
  by (rule pc_ok_mono[OF assms(1)]) (use assms(2) in \<open>auto simp: hold_ok_def\<close>)

lemma pc_ok_reopen:
  assumes "pc_ok ft pc" "lifecycle_at ft a = FENCE_CLOSING" "a \<notin> set (claimed pc)"
  shows "pc_ok (store_lifecycle a FENCE_OPEN ft) pc"
  by (rule pc_ok_mono[OF assms(1)]) (use assms(2,3) in \<open>force simp: hold_ok_def claimed_def\<close>)+

lemma pc_ok_terminal:
  assumes "pc_ok ft pc" "a \<notin> set (claimed pc)" "inside pc \<noteq> Some a"
  shows "pc_ok (store_lifecycle a (terminal_epoch e) ft) pc"
  by (rule pc_ok_mono[OF assms(1)]) (use assms(2,3) in \<open>force simp: hold_ok_def claimed_def\<close>)+

lemma pc_ok_remove:
  assumes "pc_ok ft pc" "hget (ft_fences ft) s = Some a" "\<not> usable ft a" "a \<notin> set (claimed pc)"
  shows "pc_ok (ft \<lparr> ft_fences := hdel s (ft_fences ft) \<rparr>) pc"
  by (rule pc_ok_mono[OF assms(1)]) (use assms(2,3,4) in \<open>force simp: hold_ok_def claimed_def\<close>)+

section \<open>The invariant is kept\<close>

lemma counted_sub: "\<forall>t \<ge> (n :: nat). pcs t = FIdle \<Longrightarrow> {t. counted (pcs t) = Some a} \<subseteq> {..<n}"
  by (metis (mono_tags, lifting) counted.simps(4) lessThan_iff mem_Collect_eq not_le option.distinct(1) subsetI)

lemma counted_finite: "\<forall>t \<ge> (n :: nat). pcs t = FIdle \<Longrightarrow> finite {t. counted (pcs t) = Some a}"
  by (rule finite_subset[OF counted_sub]) simp_all

lemma counted_bound: "\<forall>t \<ge> (n :: nat). pcs t = FIdle \<Longrightarrow> card {t. counted (pcs t) = Some a} \<le> n"
  using card_mono[OF _ counted_sub, of n pcs a] by simp

lemma card_flip:
  assumes "finite {u. P (f u)}"
  shows "card {u. P ((f(t := v)) u)} + (if P (f t) then 1 else 0) = card {u. P (f u)} + (if P v then 1 else 0)"
proof -
  define S where "S = {u. P (f u)} - {t}"
  have S: "finite S" "t \<notin> S" using assms by (auto simp: S_def)
  have "{u. P (f u)} = (if P (f t) then insert t S else S)" by (auto simp: S_def)
  moreover have "{u. P ((f(t := v)) u)} = (if P v then insert t S else S)" by (auto simp: S_def)
  ultimately show ?thesis using S by simp
qed

lemma readers_ok_upd:
  assumes "\<forall>t \<ge> n. pcs t = FIdle" "readers_ok pcs ft"
    and "\<And>a. sf_readers (ft_heap ft' a) + (if counted (pcs t) = Some a then 1 else 0) =
              sf_readers (ft_heap ft a) + (if counted pc = Some a then 1 else 0)"
  shows "readers_ok (pcs(t := pc)) ft'"
  unfolding readers_ok_def
proof
  fix a
  define A B where "A = card {u. counted ((pcs(t := pc)) u) = Some a}" and "B = card {u. counted (pcs u) = Some a}"
  have "A + (if counted (pcs t) = Some a then 1 else 0) = B + (if counted pc = Some a then 1 else 0)"
    unfolding A_def B_def
    by (rule card_flip[where P = "\<lambda>q. counted q = Some a"]) (rule counted_finite[OF assms(1)])
  from arg_cong[OF this, of "of_nat :: nat \<Rightarrow> u64"]
  have "of_nat A + (if counted (pcs t) = Some a then 1 else 0) =
        of_nat B + (if counted pc = Some a then 1 else (0 :: u64))"
    by (simp split: if_splits)
  moreover have "sf_readers (ft_heap ft a) = of_nat B" using assms(2) by (simp add: readers_ok_def B_def)
  ultimately have "sf_readers (ft_heap ft' a) = of_nat A" using assms(3)[of a] by (metis add_right_cancel)
  then show "sf_readers (ft_heap ft' a) = of_nat (card {u. counted ((pcs(t := pc)) u) = Some a})"
    by (simp add: A_def)
qed

lemma drained_claimed: "well_shaped pc \<Longrightarrow> a \<in> drained pc \<Longrightarrow> a \<in> set (claimed pc)"
  by (cases pc) (auto simp: claimed_def)

lemma claimed_word:
  assumes "pc_ok ft pc" "a \<in> set (claimed pc)"
  shows "lifecycle_at ft a \<noteq> FENCE_OPEN"
  using assms by (auto simp: pc_ok_def owned_ok_def claimed_def)

lemma fences_ok_upd:
  assumes inv: "fences_ok n (pcs, ft)" and t: "t < n"
    and table: "table_ok ft'" and own: "pc_ok ft' pc"
    and others: "\<And>u. u \<noteq> t \<Longrightarrow> pc_ok ft' (pcs u)"
    and fresh: "\<And>a. a \<in> set (claimed pc) \<Longrightarrow> a \<in> set (claimed (pcs t)) \<or> lifecycle_at ft a = FENCE_OPEN"
    and drain: "\<And>u a. a \<in> drained pc \<Longrightarrow> a \<in> drained (pcs t) \<or> (\<forall>u. inside (pcs u) \<noteq> Some a)"
    and ins: "\<And>a. inside pc = Some a \<Longrightarrow> drained pc = {} \<and> lifecycle_at ft a = FENCE_OPEN"
    and readers: "\<And>a. sf_readers (ft_heap ft' a) + (if counted (pcs t) = Some a then 1 else 0) =
              sf_readers (ft_heap ft a) + (if counted pc = Some a then 1 else 0)"
    and closing: "\<And>a. a < ft_alloc ft' \<Longrightarrow> lifecycle_at ft' a = FENCE_CLOSING \<Longrightarrow>
        a \<in> snd ` set (owned pc) \<or> (a < ft_alloc ft \<and> lifecycle_at ft a = FENCE_CLOSING \<and> a \<notin> snd ` set (owned (pcs t)))"
  shows "fences_ok n (pcs(t := pc), ft')"
proof -
  have ok: "pc_ok ft (pcs u)" for u using inv by (simp add: fences_ok_def)
  have ap: "apart (pcs u) (pcs v)" if "u \<noteq> v" for u v using inv that by (simp add: fences_ok_def)
  have idle: "\<forall>t \<ge> n. pcs t = FIdle" using inv by (simp add: fences_ok_def)
  have notopen: "lifecycle_at ft a \<noteq> FENCE_OPEN" if "a \<in> set (claimed (pcs u))" for a u
    using claimed_word[OF ok that] .
  have new: "apart pc (pcs u)" if "u \<noteq> t" for u
    using ap[OF that] fresh notopen[of _ u] by (fastforce simp: apart_def)
  have d1: "drained_ok pc (pcs u)" for u
    using drain inv unfolding drained_ok_def fences_ok_def by blast
  have d2: "drained_ok (pcs u) pc" for u
  proof (unfold drained_ok_def, intro allI impI)
    fix a assume "inside pc = Some a"
    from ins[OF this] show "a \<notin> drained (pcs u)"
      using notopen drained_claimed ok[of u] by (auto simp: pc_ok_def)
  qed
  have d3: "drained_ok pc pc" using ins by (auto simp: drained_ok_def)
  have own_ft: "closing_owned pcs ft" and rd_ft: "readers_ok pcs ft" using inv by (simp_all add: fences_ok_def)
  have "closing_owned (pcs(t := pc)) ft'"
    unfolding closing_owned_def
  proof (intro allI impI)
    fix a assume "a < ft_alloc ft'" "lifecycle_at ft' a = FENCE_CLOSING"
    then consider "a \<in> snd ` set (owned pc)"
      | "a < ft_alloc ft" "lifecycle_at ft a = FENCE_CLOSING" "a \<notin> snd ` set (owned (pcs t))"
      using closing by blast
    then show "\<exists>u. a \<in> snd ` set (owned ((pcs(t := pc)) u))"
    proof cases
      case 1
      then show ?thesis by (intro exI[of _ t]) simp
    next
      case 2
      then obtain u where "a \<in> snd ` set (owned (pcs u))"
        using own_ft unfolding closing_owned_def by blast
      with 2 show ?thesis by (intro exI[of _ u]) auto
    qed
  qed
  moreover have "apart ((pcs(t := pc)) u) ((pcs(t := pc)) v)" if "u \<noteq> v" for u v
    using that new ap by (auto simp: apart_def)
  moreover have "drained_ok ((pcs(t := pc)) u) ((pcs(t := pc)) v)" for u v
    using d1 d2 d3 inv by (simp add: fences_ok_def)
  moreover have "pc_ok ft' ((pcs(t := pc)) u)" for u using own others by simp
  moreover have "\<forall>u \<ge> n. (pcs(t := pc)) u = FIdle" using idle t by simp
  ultimately show ?thesis
    using table readers_ok_upd[OF idle rd_ft readers] unfolding fences_ok_def by simp
qed

lemma fences_okD:
  assumes "fences_ok n (pcs, ft)"
  shows "table_ok ft" "pc_ok ft (pcs t)" "t \<noteq> u \<Longrightarrow> apart (pcs t) (pcs u)" "drained_ok (pcs t) (pcs u)"
    "\<forall>t \<ge> n. pcs t = FIdle" "readers_ok pcs ft" "closing_owned pcs ft"
  using assms by (simp_all add: fences_ok_def)

lemma entry_effect:
  assumes inv: "fences_ok n (pcs, ft)" and entry: "fence_entry s ft = (a, ft')"
  shows "table_ok ft'" "hold_ok ft' s a" "pc_ok ft' (pcs u)"
    "sf_readers (ft_heap ft' b) = sf_readers (ft_heap ft b)"
    "b < ft_alloc ft' \<Longrightarrow> lifecycle_at ft' b = FENCE_CLOSING \<Longrightarrow> b < ft_alloc ft \<and> lifecycle_at ft b = FENCE_CLOSING"
proof -
  note D = fences_okD[OF inv]
  have unread: "sf_readers (ft_heap ft (ft_alloc ft)) = 0"
  proof -
    have "{t. counted (pcs t) = Some (ft_alloc ft)} = {}" using D(2) by (auto simp: pc_ok_def held_ok_def)
    then have "card {t. counted (pcs t) = Some (ft_alloc ft)} = 0" by (simp only: card.empty)
    then show ?thesis using D(6) by (simp only: readers_ok_def) simp
  qed
  show "pc_ok ft' (pcs u)" using pc_ok_entry[OF entry D(2)] .
  show "table_ok ft'" "hold_ok ft' s a" "sf_readers (ft_heap ft' b) = sf_readers (ft_heap ft b)"
    "b < ft_alloc ft' \<Longrightarrow> lifecycle_at ft' b = FENCE_CLOSING \<Longrightarrow> b < ft_alloc ft \<and> lifecycle_at ft b = FENCE_CLOSING"
    using entry D(1) unread
    by (cases rule: fence_entry_cases;
        force simp: table_ok_def hold_ok_def new_fence_def lifecycle_at_def split: if_splits)+
qed

lemma step_entry:
  assumes inv: "fences_ok n (pcs, ft)" and t: "t < n" and entry: "fence_entry s ft = (a, ft')"
    and shape: "held pc = (s, a) # held (pcs t)" "owned pc = owned (pcs t)" "removing pc = []" "removing (pcs t) = []"
      "inside pc = None" "counted pc = None" "counted (pcs t) = None" "drained pc = {}" "well_shaped pc"
  shows "fences_ok n (pcs(t := pc), ft')"
proof (rule fences_ok_upd[OF inv t])
  note E = entry_effect[OF inv entry]
  show "pc_ok ft' pc"
    using E(2) E(3)[of t] shape
    by (simp add: pc_ok_def held_ok_def owned_ok_def inside_ok_def claimed_def)
  show "a < ft_alloc ft' \<Longrightarrow> lifecycle_at ft' a = FENCE_CLOSING \<Longrightarrow>
      a \<in> snd ` set (owned pc) \<or> (a < ft_alloc ft \<and> lifecycle_at ft a = FENCE_CLOSING \<and> a \<notin> snd ` set (owned (pcs t)))" for a
    using E(5) shape by auto
qed (use entry_effect[OF inv entry] shape in \<open>simp_all add: claimed_def\<close>)

text \<open>Steps that leave the store alone and acquire nothing.\<close>

lemma step_quiet:
  assumes inv: "fences_ok n (pcs, ft)" and t: "t < n"
    and shape: "set (held pc) \<subseteq> set (held (pcs t))" "owned pc = owned (pcs t)" "removing pc = []" "removing (pcs t) = []"
      "inside pc = None" "counted pc = counted (pcs t)" "drained pc \<subseteq> drained (pcs t)" "well_shaped pc"
  shows "fences_ok n (pcs(t := pc), ft)"
proof (rule fences_ok_upd[OF inv t])
  note D = fences_okD[OF inv]
  show "pc_ok ft pc"
    using D(2)[of t] shape
    by (auto simp: pc_ok_def held_ok_def owned_ok_def inside_ok_def claimed_def)
qed (use fences_okD[OF inv] shape in \<open>auto simp: claimed_def\<close>)

lemma step_count:
  assumes inv: "fences_ok n (pcs, ft)" and t: "t < n" and at: "pcs t = FCount a s e want"
  shows "fences_ok n (pcs(t := FReload a s e want), add_readers a 1 ft)"
proof (rule fences_ok_upd[OF inv t])
  note D = fences_okD[OF inv]
  show "pc_ok (add_readers a 1 ft) (FReload a s e want)"
    using D(2)[of t] at
    by (simp add: pc_ok_def held_ok_def owned_ok_def inside_ok_def claimed_def hold_ok_def)
  show "table_ok (add_readers a 1 ft)" using D(1) by (simp add: table_ok_def)
qed (use fences_okD[OF inv] at in \<open>simp_all add: claimed_def pc_ok_readers\<close>)

lemma step_uncount:
  assumes inv: "fences_ok n (pcs, ft)" and t: "t < n" and at: "counted (pcs t) = Some a"
    and shape: "owned (pcs t) = []" "pc = FIdle \<or> pc = FRefused rv"
  shows "fences_ok n (pcs(t := pc), add_readers a (- 1) ft)"
proof (rule fences_ok_upd[OF inv t])
  note D = fences_okD[OF inv]
  show "pc_ok (add_readers a (- 1) ft) pc"
    using shape(2) by (auto simp: pc_ok_def held_ok_def owned_ok_def inside_ok_def claimed_def)
  show "table_ok (add_readers a (- 1) ft)" using D(1) by (simp add: table_ok_def)
qed (use fences_okD[OF inv] at shape in \<open>auto simp: claimed_def pc_ok_readers\<close>)

lemma step_reload:
  assumes inv: "fences_ok n (pcs, ft)" and t: "t < n" and at: "pcs t = FReload a s e want"
    and "lifecycle_at ft a = FENCE_OPEN"
  shows "fences_ok n (pcs(t := FInside a s e want), ft)"
proof (rule fences_ok_upd[OF inv t])
  note D = fences_okD[OF inv]
  show "pc_ok ft (FInside a s e want)"
    using D(2)[of t] at assms(4)
    by (simp add: pc_ok_def held_ok_def owned_ok_def inside_ok_def claimed_def)
qed (use fences_okD[OF inv] at assms(4) in \<open>auto simp: claimed_def\<close>)

lemma u64_len: "LENGTH(64) = (64 :: nat)"
  by simp

lemma no_readers:
  assumes inv: "fences_ok n (pcs, ft)" and "n < 2 ^ 64" and "sf_readers (ft_heap ft a) = 0"
  shows "counted (pcs u) \<noteq> Some a"
proof -
  define k where "k = card {t. counted (pcs t) = Some a}"
  have "of_nat k = (0 :: u64)" using fences_okD(6)[OF inv] assms(3) by (simp add: readers_ok_def k_def)
  moreover have "k < 2 ^ 64" using counted_bound[OF fences_okD(5)[OF inv], of a] assms(2) unfolding k_def by linarith
  ultimately have "k = 0" by (metis nat_dvd_not_less neq0_conv word_of_nat_eq_0_iff u64_len)
  then have "{t. counted (pcs t) = Some a} = {}"
    using counted_finite[OF fences_okD(5)[OF inv]] by (simp only: k_def card_0_eq)
  then show ?thesis by blast
qed

lemma step_drain:
  assumes inv: "fences_ok n (pcs, ft)" and n: "n < 2 ^ 64" and t: "t < n"
    and at: "pcs t = FDrain all e ((s, a) # rest) got" and zero: "sf_readers (ft_heap ft a) = 0"
  shows "fences_ok n (pcs(t := FDrain all e rest got), ft)"
proof (rule fences_ok_upd[OF inv t])
  note D = fences_okD[OF inv]
  show "pc_ok ft (FDrain all e rest got)"
    using D(2)[of t] at
    by (simp add: pc_ok_def held_ok_def owned_ok_def inside_ok_def claimed_def)
  have "inside (pcs u) \<noteq> Some a" for u using no_readers[OF inv n zero, of u] held_parts(3) by blast
  then show "b \<in> drained (FDrain all e rest got) \<Longrightarrow> b \<in> drained (pcs t) \<or> (\<forall>u. inside (pcs u) \<noteq> Some b)" for b
    using at by auto
qed (use fences_okD[OF inv] at in \<open>auto simp: claimed_def\<close>)

lemma step_swap:
  assumes inv: "fences_ok n (pcs, ft)" and t: "t < n" and at: "pcs t = FSwap all e s a todo got"
    and "open": "lifecycle_at ft a = FENCE_OPEN"
  shows "fences_ok n (pcs(t := FEntry all e todo (got @ [(s, a)])), store_lifecycle a FENCE_CLOSING ft)"
proof (rule fences_ok_upd[OF inv t])
  note D = fences_okD[OF inv]
  have "pc_ok (store_lifecycle a FENCE_CLOSING ft) (pcs t)" using pc_ok_mark[OF D(2) "open"] .
  moreover have "a \<notin> snd ` set got" using claimed_word[OF D(2)[of t], of a] at "open" by (auto simp: claimed_def)
  ultimately show "pc_ok (store_lifecycle a FENCE_CLOSING ft) (FEntry all e todo (got @ [(s, a)]))"
    using at by (auto simp: pc_ok_def held_ok_def owned_ok_def inside_ok_def claimed_def)
  show "table_ok (store_lifecycle a FENCE_CLOSING ft)" using D(1) by (simp add: table_ok_def)
  show "pc_ok (store_lifecycle a FENCE_CLOSING ft) (pcs u)" for u using pc_ok_mark[OF D(2) "open"] .
qed (use at "open" in \<open>auto simp: claimed_def split: if_splits\<close>)

lemma claimed_other:
  assumes "fences_ok n (pcs, ft)" "a \<in> set (claimed (pcs t))" "u \<noteq> t"
  shows "a \<notin> set (claimed (pcs u))"
  using fences_okD(3)[OF assms(1), of t u] assms(2,3) by (auto simp: apart_def)

lemma step_commit:
  assumes inv: "fences_ok n (pcs, ft)" and t: "t < n" and at: "pcs t = FCommit e ((s, a) # rest)"
  shows "fences_ok n (pcs(t := FRemove e s a rest), store_lifecycle a (terminal_epoch e) ft)"
proof (rule fences_ok_upd[OF inv t])
  note D = fences_okD[OF inv]
  have ok: "pc_ok ft (FCommit e ((s, a) # rest))" using D(2)[of t] at by simp
  then have "hold_ok ft s a" "lifecycle_at ft a = FENCE_CLOSING" "a \<notin> snd ` set rest"
    by (simp_all add: pc_ok_def held_ok_def owned_ok_def claimed_def)
  then show "pc_ok (store_lifecycle a (terminal_epoch e) ft) (FRemove e s a rest)"
    using ok by (auto simp: pc_ok_def held_ok_def owned_ok_def inside_ok_def claimed_def hold_ok_def image_iff)
  show "table_ok (store_lifecycle a (terminal_epoch e) ft)" using D(1) by (simp add: table_ok_def)
  show "pc_ok (store_lifecycle a (terminal_epoch e) ft) (pcs u)" if "u \<noteq> t" for u
  proof (rule pc_ok_terminal[OF D(2)])
    show "a \<notin> set (claimed (pcs u))" using claimed_other[OF inv _ that, of a] at by (simp add: claimed_def)
    show "inside (pcs u) \<noteq> Some a" using D(4)[of t u] at by (auto simp: drained_ok_def)
  qed
qed (use at in \<open>auto simp: claimed_def split: if_splits\<close>)

lemma step_remove:
  assumes inv: "fences_ok n (pcs, ft)" and t: "t < n" and at: "pcs t = FRemove e s a rest"
  shows "fences_ok n (pcs(t := FCommit e rest), ft \<lparr> ft_fences := hdel s (ft_fences ft) \<rparr>)"
proof (rule fences_ok_upd[OF inv t])
  note D = fences_okD[OF inv]
  have ok: "pc_ok ft (FRemove e s a rest)" using D(2)[of t] at by simp
  then have gone: "hget (ft_fences ft) s = Some a" "\<not> usable ft a" and "a \<notin> snd ` set rest"
    by (simp_all add: pc_ok_def owned_ok_def claimed_def)
  then have "pc_ok (ft \<lparr> ft_fences := hdel s (ft_fences ft) \<rparr>) (FCommit e rest)"
    using ok by (intro pc_ok_remove[OF _ gone])
      (simp_all add: pc_ok_def held_ok_def owned_ok_def inside_ok_def claimed_def)
  then show "pc_ok (ft \<lparr> ft_fences := hdel s (ft_fences ft) \<rparr>) (FCommit e rest)" .
  show "table_ok (ft \<lparr> ft_fences := hdel s (ft_fences ft) \<rparr>)" using D(1) by (simp add: table_ok_def)
  show "pc_ok (ft \<lparr> ft_fences := hdel s (ft_fences ft) \<rparr>) (pcs u)" if "u \<noteq> t" for u
    using claimed_other[OF inv _ that, of a] at by (intro pc_ok_remove[OF D(2) gone]) (simp add: claimed_def)
qed (use at in \<open>auto simp: claimed_def\<close>)

lemma step_reopen:
  assumes inv: "fences_ok n (pcs, ft)" and t: "t < n" and at: "pcs t = FReopen ((s, a) # rest)"
  shows "fences_ok n (pcs(t := FReopen rest), store_lifecycle a FENCE_OPEN ft)"
proof (rule fences_ok_upd[OF inv t])
  note D = fences_okD[OF inv]
  have ok: "pc_ok ft (FReopen ((s, a) # rest))" using D(2)[of t] at by simp
  then have closing: "lifecycle_at ft a = FENCE_CLOSING" and "a \<notin> snd ` set rest"
    by (simp_all add: pc_ok_def owned_ok_def claimed_def)
  then show "pc_ok (store_lifecycle a FENCE_OPEN ft) (FReopen rest)"
    using ok by (intro pc_ok_reopen[OF _ closing])
      (simp_all add: pc_ok_def held_ok_def owned_ok_def inside_ok_def claimed_def)
  show "table_ok (store_lifecycle a FENCE_OPEN ft)" using D(1) by (simp add: table_ok_def)
  show "pc_ok (store_lifecycle a FENCE_OPEN ft) (pcs u)" if "u \<noteq> t" for u
    using claimed_other[OF inv _ that, of a] at by (intro pc_ok_reopen[OF D(2) closing]) (simp add: claimed_def)
qed (use at in \<open>auto simp: claimed_def split: if_splits\<close>)

lemma strictly_sorted: "sorted_wrt (<) (remdups_adj (sort (xs :: u64 list)))"
proof -
  have "sorted_wrt (<) (remdups_adj ys)" if "sorted ys" for ys :: "u64 list"
    using that
  proof (induction ys rule: remdups_adj.induct)
    case (3 x y xs)
    then show ?case by (cases "x = y") (auto simp: remdups_adj_set simp del: remdups_adj.simps(3) simp add: remdups_adj.simps(3))
  qed simp_all
  then show ?thesis by simp
qed

lemma step_start:
  assumes inv: "fences_ok n (pcs, ft)" and t: "t < n" and at: "pcs t = FIdle"
    and step: "start_op inp ft = (pc, ft')"
  shows "fences_ok n (pcs(t := pc), ft')"
proof (cases inp)
  case (StartEnter e s)
  obtain a where "fence_entry s ft = (a, ft')" "pc = FLoad a s e None"
    using step StartEnter by (auto simp: enter_def split: prod.splits)
  then show ?thesis using step_entry[OF inv t, of s a ft' pc] at by simp
next
  case (StartChecked e s i)
  show ?thesis
  proof (cases "enter_checked e s i ft")
    case (FLoad a s' e' want)
    then have found: "hget (ft_fences ft) s = Some a" "pc = FLoad a s e (Some i)" "ft' = ft"
      using step StartChecked by (auto simp: enter_checked_def split: option.splits if_splits)
    then have "fence_entry s ft = (a, ft')" by (simp add: fence_entry_def)
    then show ?thesis using step_entry[OF inv t, of s a ft' pc] found at by simp
  qed (use step StartChecked step_quiet[OF inv t, of pc] at in
      \<open>auto simp: enter_checked_def split: option.splits if_splits\<close>)
qed (use step step_quiet[OF inv t, of pc] at strictly_sorted in \<open>auto simp: enter_write_def enter_write_all_def\<close>)

lemma fences_ok_step:
  assumes inv: "fences_ok n (pcs, ft)" and n: "n < 2 ^ 64" and t: "t < n"
    and step: "fence_step inp (pcs t) ft = (pc, ft')"
  shows "fences_ok n (pcs(t := pc), ft')"
proof (cases "pcs t")
  case FIdle
  then show ?thesis using step step_start[OF inv t FIdle] by (simp add: fence_step_def)
next
  case (FReload a s e want)
  then show ?thesis
    using step step_reload[OF inv t FReload] step_quiet[OF inv t, of pc]
    by (auto simp: fence_step_def split: if_splits)
next
  case (FEntry all e todo got)
  then have shape: "well_shaped (FEntry all e todo got)" using fences_okD(2)[OF inv, of t] by (simp add: pc_ok_def)
  show ?thesis
  proof (cases todo)
    case Nil
    then show ?thesis using FEntry step step_quiet[OF inv t, of pc] by (auto simp: fence_step_def)
  next
    case (Cons s rest)
    obtain a where "fence_entry s ft = (a, ft')" "pc = FMark all e s a rest got"
      using step FEntry Cons by (auto simp: fence_step_def split: prod.splits)
    then show ?thesis using step_entry[OF inv t, of s a ft' pc] FEntry shape Cons by auto
  qed
next
  case (FMark all e s a todo got)
  then have "well_shaped (FMark all e s a todo got)" using fences_okD(2)[OF inv, of t] by (simp add: pc_ok_def)
  then show ?thesis
    using FMark step step_quiet[OF inv t, of pc] inv subset_insertI[of "set got" "(s, a)"]
    by (auto simp: fence_step_def sorted_wrt_append split: if_splits)
next
  case (FSwap all e s a todo got)
  then have "well_shaped (FSwap all e s a todo got)" using fences_okD(2)[OF inv, of t] by (simp add: pc_ok_def)
  then show ?thesis
    using FSwap step step_swap[OF inv t FSwap] step_quiet[OF inv t, of pc]
    by (auto simp: fence_step_def split: if_splits)
next
  case (FDrain all e rest got)
  then show ?thesis
    using step step_drain[OF inv n t] step_quiet[OF inv t, of pc] fences_okD(2)[OF inv, of t] inv
    by (cases rest) (auto simp: fence_step_def pc_ok_def split: if_splits)
next
  case (FCommit e got)
  then show ?thesis
    using step step_commit[OF inv t] step_quiet[OF inv t, of pc]
    by (cases got) (auto simp: fence_step_def)
next
  case (FReopen got)
  then show ?thesis
    using step step_reopen[OF inv t] step_quiet[OF inv t, of pc]
    by (cases got) (auto simp: fence_step_def)
qed (use step step_quiet[OF inv t, of pc] step_count[OF inv t] step_uncount[OF inv t, where pc = pc]
      step_remove[OF inv t] in \<open>auto simp: fence_step_def drop_read_def split: if_splits\<close>)

lemma fences_ok_reach:
  assumes "fence_reach n fence_start x" "n < 2 ^ 64"
  shows "fences_ok n x"
  using assms
proof (induction "fence_start" x)
  case start
  show ?case
    by (simp add: fence_start_def fences_ok_def fence_table_new_def table_ok_def pc_ok_def held_ok_def owned_ok_def
        claimed_def inside_ok_def apart_def drained_ok_def readers_ok_def closing_owned_def new_fence_def)
next
  case (thread pcs ft t inp pc ft')
  then show ?case using fences_ok_step by blast
next
  case (create pcs ft s i ft')
  then have inv: "fences_ok n (pcs, ft)" by simp
  obtain a where entry: "fence_entry s ft = (a, ft')"
    using create by (auto simp: incarnation_or_create_def split: prod.splits)
  note D = fences_okD[OF inv] and E = entry_effect[OF inv entry]
  have "closing_owned pcs ft'" using D(7) E(5) unfolding closing_owned_def by blast
  moreover have "readers_ok pcs ft'" using D(6) E(4) by (simp add: readers_ok_def)
  ultimately show ?case using D E(1,3) by (simp add: fences_ok_def)
next
  case (purge pcs ft)
  then show ?case
    by (auto simp: fences_ok_def fence_clear_def table_ok_def pc_ok_def held_ok_def owned_ok_def claimed_def
        inside_ok_def apart_def drained_ok_def readers_ok_def closing_owned_def)
qed

section \<open>Waiting never deadlocks\<close>

text \<open>
  A thread waits in two places: at the head of the marking loop while another close owns the fence, and while
  it drains the operations inside a fence it owns.
\<close>

definition moves :: "FenceTable \<Rightarrow> FencePc \<Rightarrow> bool" where
  "moves ft pc = (\<exists>inp. fst (fence_step inp pc ft) \<noteq> pc)"

fun waits_for :: "FencePc \<Rightarrow> (u64 \<times> nat) option" where
  "waits_for (FMark all e s a todo got) = Some (s, a)"
| "waits_for _ = None"

fun drains :: "FencePc \<Rightarrow> nat option" where
  "drains (FDrain all e ((s, a) # rest) got) = Some a"
| "drains _ = None"

lemma moves_cases:
  assumes "pc \<noteq> FIdle"
  shows "moves ft pc \<or> (\<exists>s a. waits_for pc = Some (s, a) \<and> lifecycle_at ft a = FENCE_CLOSING)
    \<or> (\<exists>a. drains pc = Some a \<and> sf_readers (ft_heap ft a) \<noteq> 0)"
proof (cases pc)
  case (FEntry all e todo got)
  then show ?thesis by (cases todo) (auto simp: moves_def fence_step_def split: prod.splits)
next
  case (FDrain all e rest got)
  then show ?thesis by (cases rest) (auto simp: moves_def fence_step_def)
next
  case (FCommit e got)
  then show ?thesis by (cases got) (auto simp: moves_def fence_step_def)
next
  case (FReopen got)
  then show ?thesis by (cases got) (auto simp: moves_def fence_step_def)
qed (use assms in \<open>auto simp: moves_def fence_step_def\<close>)

lemma counted_moves: "counted pc = Some a \<Longrightarrow> moves ft pc"
  using moves_cases[of pc ft] by (cases pc) auto

lemma drain_helped:
  assumes inv: "fences_ok n (pcs, ft)" and "sf_readers (ft_heap ft a) \<noteq> 0"
  shows "\<exists>u. pcs u \<noteq> FIdle \<and> moves ft (pcs u)"
proof -
  have "\<exists>u. counted (pcs u) = Some a"
  proof (rule ccontr)
    assume "\<nexists>u. counted (pcs u) = Some a"
    then have "{t. counted (pcs t) = Some a} = {}" by blast
    then have "sf_readers (ft_heap ft a) = of_nat (card ({} :: nat set))"
      using fences_okD(6)[OF inv] by (simp only: readers_ok_def)
    then show False using assms(2) by simp
  qed
  then obtain u where "counted (pcs u) = Some a" ..
  then show ?thesis using counted_moves by (intro exI[of _ u]) auto
qed

text \<open>The owner of a fence that somebody waits for either moves or waits for a larger session.\<close>

lemma owner_progress:
  assumes inv: "fences_ok n (pcs, ft)" and wait: "waits_for (pcs t) = Some (s, a)"
    and closing: "lifecycle_at ft a = FENCE_CLOSING"
  shows "(\<exists>u. pcs u \<noteq> FIdle \<and> moves ft (pcs u)) \<or>
    (\<exists>u s' a'. waits_for (pcs u) = Some (s', a') \<and> lifecycle_at ft a' = FENCE_CLOSING \<and> s < s')"
proof -
  have hold: "hold_ok ft s a" using fences_okD(2)[OF inv, of t] wait
    by (cases "pcs t") (auto simp: pc_ok_def held_ok_def)
  then obtain u where "a \<in> snd ` set (owned (pcs u))"
    using fences_okD(7)[OF inv] closing unfolding closing_owned_def hold_ok_def by blast
  then obtain s1 where own: "(s1, a) \<in> set (owned (pcs u))" by auto
  have ok: "pc_ok ft (pcs u)" using fences_okD(2)[OF inv] .
  have "hold_ok ft s1 a" using ok own held_parts(1)[of "pcs u"] by (auto simp: pc_ok_def held_ok_def)
  then have [simp]: "s1 = s" using hold by (simp add: hold_ok_def)
  have busy: "pcs u \<noteq> FIdle" using own by auto
  from moves_cases[OF busy, of ft] show ?thesis
  proof (elim disjE exE conjE)
    assume "moves ft (pcs u)"
    then show ?thesis using busy by (intro disjI1 exI[of _ u]) simp
  next
    fix s' a' assume w: "waits_for (pcs u) = Some (s', a')" "lifecycle_at ft a' = FENCE_CLOSING"
    then have "s < s'" using ok own by (cases "pcs u") (auto simp: pc_ok_def sorted_wrt_append)
    then show ?thesis using w by (intro disjI2 exI[of _ u] exI[of _ s'] exI[of _ a']) simp
  next
    fix b assume "drains (pcs u) = Some b" "sf_readers (ft_heap ft b) \<noteq> 0"
    then show ?thesis by (intro disjI1 drain_helped[OF inv])
  qed
qed

lemma someone_moves:
  assumes inv: "fences_ok n (pcs, ft)" and "waits_for (pcs t) = Some (s, a)" "lifecycle_at ft a = FENCE_CLOSING"
  shows "\<exists>u. pcs u \<noteq> FIdle \<and> moves ft (pcs u)"
  using assms(2,3)
proof (induction "2 ^ 64 - unat s" arbitrary: t s a rule: less_induct)
  case less
  have smaller: "(2 :: nat) ^ 64 - unat s' < 2 ^ 64 - unat s" if "s < s'" for s' :: u64
  proof -
    have "unat s' < 2 ^ LENGTH(64)" by (rule unsigned_less)
    then have "unat s' < 2 ^ 64" by simp
    then show ?thesis using that unfolding word_less_nat_alt by linarith
  qed
  from owner_progress[OF inv less.prems] show ?case
  proof (elim disjE exE conjE)
    fix u s' a' assume "waits_for (pcs u) = Some (s', a')" "lifecycle_at ft a' = FENCE_CLOSING" "s < s'"
    then show ?thesis by (intro less.hyps[OF smaller])
  qed (intro exI conjI)
qed

lemma fence_progress:
  assumes inv: "fences_ok n (pcs, ft)" and busy: "pcs t \<noteq> FIdle"
  shows "\<exists>u. pcs u \<noteq> FIdle \<and> moves ft (pcs u)"
  using moves_cases[OF busy, of ft]
proof (elim disjE exE conjE)
  assume "moves ft (pcs t)"
  then show ?thesis using busy by (intro exI[of _ t]) simp
next
  fix s a assume "waits_for (pcs t) = Some (s, a)" "lifecycle_at ft a = FENCE_CLOSING"
  then show ?thesis by (rule someone_moves[OF inv])
next
  fix a assume "sf_readers (ft_heap ft a) \<noteq> 0"
  then show ?thesis by (rule drain_helped[OF inv])
qed

end
