(* ===== verification/Fence_Claims.thy ===== *)
theory Fence_Claims
  imports Fence_Exclusion
begin

text \<open>
  The properties of the session fences: exclusion, termination and incarnation binding.
\<close>

section \<open>Termination\<close>

text \<open>
  One unit of work is a step in which a busy thread changes its program counter: a parked
  close or a drain that is not finished does not count.  \<open>major\<close> bounds the
  work that is left to a thread apart from the marking loop, \<open>minor\<close> that inside the loop.
\<close>

inductive fence_work :: "nat \<Rightarrow> FenceSystem \<Rightarrow> nat \<Rightarrow> FenceSystem \<Rightarrow> bool" for n where
  none: "fence_work n x 0 x"
| more: "fence_work n x k (pcs, ft) \<Longrightarrow> t < n \<Longrightarrow> pcs t \<noteq> FIdle \<Longrightarrow>
     fence_step inp (pcs t) ft = (pc, ft') \<Longrightarrow> pc \<noteq> pcs t \<Longrightarrow> fence_work n x (Suc k) (pcs(t := pc), ft')"

fun major :: "FencePc \<Rightarrow> nat" where
  "major FIdle = 0"
| "major (FRefused rv) = 1"
| "major (FLoad a s e want) = 5"
| "major (FCount a s e want) = 4"
| "major (FReload a s e want) = 3"
| "major (FUncount a) = 2"
| "major (FInside a s e want) = 2"
| "major (FEntry all e todo got) = 10 * length todo + 4 * length got + 5"
| "major (FMark all e s a todo got) = 10 * length todo + 4 * length got + 14"
| "major (FSwap all e s a todo got) = 10 * length todo + 4 * length got + 14"
| "major (FDrain all e rest got) = length rest + 3 * length got + 4"
| "major (FClosing all e got) = 3 * length got + 3"
| "major (FCommit e got) = 3 * length got + 2"
| "major (FRemove e s a rest) = 3 * length rest + 4"
| "major (FReopen got) = 3 * length got + 2"

fun minor :: "FenceTable \<Rightarrow> FencePc \<Rightarrow> nat" where
  "minor ft (FMark all e s a todo got) = 2"
| "minor ft (FSwap all e s a todo got) = (if lifecycle_at ft a = FENCE_OPEN then 1 else 3)"
| "minor ft _ = 0"

definition fence_bound :: "nat \<Rightarrow> FenceSystem \<Rightarrow> nat" where
  "fence_bound n x = (case x of (pcs, ft) \<Rightarrow>
     (\<Sum>t < n. major (pcs t)) * (3 * n + 1) + (\<Sum>t < n. minor ft (pcs t)))"

lemma minor_le: "minor ft pc \<le> 3"
  by (cases pc) auto

lemma sum_flip:
  fixes f :: "nat \<Rightarrow> nat"
  assumes "t < n"
  shows "(\<Sum>u < n. (f(t := v)) u) + f t = (\<Sum>u < n. f u) + v"
proof -
  have "(\<Sum>u < n. f u) = f t + (\<Sum>u \<in> {..<n} - {t}. f u)"
    using assms by (simp add: sum.remove[of "{..<n}" t])
  moreover have "(\<Sum>u < n. (f(t := v)) u) = v + (\<Sum>u \<in> {..<n} - {t}. (f(t := v)) u)"
    using assms by (simp add: sum.remove[of "{..<n}" t])
  moreover have "(\<Sum>u \<in> {..<n} - {t}. (f(t := v)) u) = (\<Sum>u \<in> {..<n} - {t}. f u)"
    by (rule sum.cong) auto
  ultimately show ?thesis by simp
qed

lemma step_measure:
  assumes "fence_step inp pc ft = (pc', ft')" "pc' \<noteq> pc" "pc \<noteq> FIdle"
  shows "major pc' < major pc \<or> (ft' = ft \<and> major pc' = major pc \<and> minor ft pc' < minor ft pc)"
proof (cases pc)
  case (FEntry all e todo got)
  then show ?thesis using assms by (cases todo) (auto simp: fence_step_def split: prod.splits)
next
  case (FDrain all e rest got)
  then show ?thesis using assms by (cases rest) (auto simp: fence_step_def split: if_splits)
next
  case (FCommit e got)
  then show ?thesis using assms by (cases got) (auto simp: fence_step_def)
next
  case (FReopen got)
  then show ?thesis using assms by (cases got) (auto simp: fence_step_def)
qed (use assms in \<open>auto simp: fence_step_def split: if_splits\<close>)

lemma work_shrinks:
  assumes "fence_step inp (pcs t) ft = (pc, ft')" "pc \<noteq> pcs t" "pcs t \<noteq> FIdle" "t < n"
  shows "fence_bound n (pcs(t := pc), ft') < fence_bound n (pcs, ft)"
proof -
  define A where "A = (\<Sum>u < n. major (pcs u))"
  define A' where "A' = (\<Sum>u < n. major ((pcs(t := pc)) u))"
  define B where "B = (\<Sum>u < n. minor ft (pcs u))"
  define B' where "B' = (\<Sum>u < n. minor ft' ((pcs(t := pc)) u))"
  have A: "A' + major (pcs t) = A + major pc"
    using sum_flip[OF assms(4), of "\<lambda>u. major (pcs u)" "major pc"]
    unfolding A_def A'_def by (simp add: if_distrib fun_upd_def cong: if_cong)
  have B'_le: "B' \<le> 3 * n"
    using sum_mono[of "{..<n}" "\<lambda>u. minor ft' ((pcs(t := pc)) u)" "\<lambda>_. 3"] minor_le by (simp add: B'_def)
  from step_measure[OF assms(1-3)] have "A' * (3 * n + 1) + B' < A * (3 * n + 1) + B"
  proof (elim disjE conjE)
    assume "major pc < major (pcs t)"
    then have "Suc A' \<le> A" using A by linarith
    then have "Suc A' * (3 * n + 1) \<le> A * (3 * n + 1)" by (rule mult_le_mono1)
    then show ?thesis using B'_le by (simp add: algebra_simps)
  next
    assume same: "ft' = ft" "major pc = major (pcs t)" and less: "minor ft pc < minor ft (pcs t)"
    have "B' + minor ft (pcs t) = B + minor ft pc"
      using sum_flip[OF assms(4), of "\<lambda>u. minor ft (pcs u)" "minor ft pc"] same(1)
      unfolding B_def B'_def by (simp add: if_distrib fun_upd_def cong: if_cong)
    then show ?thesis using A same less by simp
  qed
  then show ?thesis by (simp add: fence_bound_def A_def A'_def B_def B'_def)
qed

lemma work_bound: "fence_work n x k y \<Longrightarrow> k + fence_bound n y \<le> fence_bound n x"
proof (induction rule: fence_work.induct)
  case (more x k pcs ft t inp pc ft')
  then show ?case using work_shrinks[of inp pcs t ft pc ft' n] by simp
qed simp

lemma work_trans: "fence_work n y j z \<Longrightarrow> fence_work n x k y \<Longrightarrow> fence_work n x (k + j) z"
proof (induction rule: fence_work.induct)
  case (more y j pcs ft t inp pc ft')
  then show ?case using fence_work.more[of n x "k + j" pcs ft t inp pc ft'] by simp
qed simp

lemma work_keeps:
  assumes "fence_work n x k y" "fences_ok n x" "n < 2 ^ 64"
  shows "fences_ok n y"
  using assms by (induction rule: fence_work.induct) (use fences_ok_step in blast)+

lemma work_finishes:
  assumes "fences_ok n x" "n < 2 ^ 64"
  shows "\<exists>j z. fence_work n x j z \<and> (\<forall>t. fst z t = FIdle)"
  using assms(1)
proof (induction "fence_bound n x" arbitrary: x rule: less_induct)
  case less
  obtain pcs ft where x: "x = (pcs, ft)" by (cases x)
  show ?case
  proof (cases "\<forall>t. pcs t = FIdle")
    case True
    then show ?thesis using fence_work.none[of n x] x by auto
  next
    case False
    then obtain t where "pcs t \<noteq> FIdle" by blast
    then obtain u inp where u: "pcs u \<noteq> FIdle" "fst (fence_step inp (pcs u) ft) \<noteq> pcs u"
      using fence_progress[OF less.prems[unfolded x]] unfolding moves_def by blast
    then have un: "u < n" using fences_okD(5)[OF less.prems[unfolded x]] not_less by blast
    obtain pc ft' where step: "fence_step inp (pcs u) ft = (pc, ft')" by (meson surj_pair)
    then have moved: "pc \<noteq> pcs u" using u(2) by simp
    define y where "y = (pcs(u := pc), ft')"
    have one: "fence_work n x 1 y"
      using fence_work.more[of n x 0 pcs ft u inp pc ft'] fence_work.none[of n x] un u(1) step moved
      by (simp add: x y_def)
    have "fences_ok n y" using fences_ok_step[OF less.prems[unfolded x] assms(2) un step] by (simp add: y_def)
    moreover have "fence_bound n y < fence_bound n x" using work_shrinks[of inp pcs u ft pc ft' n] step moved u(1) un by (simp add: x y_def)
    ultimately obtain j z where "fence_work n y j z" "\<forall>t. fst z t = FIdle" using less.hyps by blast
    then show ?thesis using work_trans[OF _ one] by blast
  qed
qed

section \<open>Incarnations\<close>

text \<open>
  Addresses are never reused and every allocation draws the next incarnation, so an incarnation
  names one fence as long as fewer than \<open>2 ^ 64\<close> fences have been made.
\<close>

fun bound_to :: "FencePc \<Rightarrow> (nat \<times> u64) option" where
  "bound_to (FLoad a s e (Some i)) = Some (a, i)"
| "bound_to (FCount a s e (Some i)) = Some (a, i)"
| "bound_to (FReload a s e (Some i)) = Some (a, i)"
| "bound_to (FInside a s e (Some i)) = Some (a, i)"
| "bound_to _ = None"

definition later :: "FenceTable \<Rightarrow> FenceTable \<Rightarrow> bool" where
  "later ft ft' = (ft_alloc ft \<le> ft_alloc ft' \<and> (\<forall>a < ft_alloc ft. ft_for ft' a = ft_for ft a
     \<and> sf_incarnation (ft_heap ft' a) = sf_incarnation (ft_heap ft a)))"

lemma later_simps [simp]:
  "later ft ft" "later ft (store_lifecycle a v ft)" "later ft (add_readers a d ft)"
  "later ft (ft \<lparr> ft_fences := m \<rparr>)"
  by (simp_all add: later_def)

lemma later_trans: "later x y \<Longrightarrow> later y z \<Longrightarrow> later x z"
  by (fastforce simp: later_def)

lemma later_entry: "fence_entry s ft = (a, ft') \<Longrightarrow> later ft ft'"
  by (erule fence_entry_cases) (simp_all add: later_def)

lemma later_step: "fence_step inp pc ft = (pc', ft') \<Longrightarrow> later ft ft'"
proof (cases pc)
  case FIdle
  moreover assume "fence_step inp pc ft = (pc', ft')"
  ultimately show ?thesis
    by (cases inp) (auto simp: fence_step_def enter_def intro: later_entry split: prod.splits)
next
  case (FEntry all e todo got)
  moreover assume "fence_step inp pc ft = (pc', ft')"
  ultimately show ?thesis
    by (cases todo) (auto simp: fence_step_def intro: later_entry split: prod.splits)
next
  case (FDrain all e rest got)
  moreover assume "fence_step inp pc ft = (pc', ft')"
  ultimately show ?thesis by (cases rest) (auto simp: fence_step_def)
next
  case (FCommit e got)
  moreover assume "fence_step inp pc ft = (pc', ft')"
  ultimately show ?thesis by (cases got) (auto simp: fence_step_def)
next
  case (FReopen got)
  moreover assume "fence_step inp pc ft = (pc', ft')"
  ultimately show ?thesis by (cases got) (auto simp: fence_step_def)
qed (auto simp: fence_step_def drop_read_def split: if_splits)

lemma later_reach:
  assumes "fence_reach n x y"
  shows "later (snd x) (snd y)"
  using assms
proof induction
  case (thread x pcs ft t inp pc ft')
  then show ?case using later_step later_trans by fastforce
next
  case (create x pcs ft s i ft')
  then show ?case using later_entry later_trans by (fastforce simp: incarnation_or_create_def split: prod.splits)
next
  case (purge x pcs ft)
  then show ?case using later_trans by (fastforce simp: fence_clear_def)
qed simp

lemma bound_step:
  assumes "fence_step inp pc ft = (pc', ft')" "bound_to pc' = Some (a, i)"
  shows "bound_to pc = Some (a, i) \<or>
    (\<exists>s. hget (ft_fences ft) s = Some a \<and> sf_incarnation (ft_heap ft a) = i)"
proof (cases pc)
  case FIdle
  then show ?thesis using assms
    by (cases inp) (auto simp: fence_step_def enter_def enter_checked_def enter_write_def enter_write_all_def
        split: prod.splits option.splits if_splits)
next
  case (FEntry all e todo got)
  then show ?thesis using assms by (cases todo) (auto simp: fence_step_def split: prod.splits)
next
  case (FDrain all e rest got)
  then show ?thesis using assms by (cases rest) (auto simp: fence_step_def split: if_splits)
next
  case (FCommit e got)
  then show ?thesis using assms by (cases got) (auto simp: fence_step_def)
next
  case (FReopen got)
  then show ?thesis using assms by (cases got) (auto simp: fence_step_def)
next
  case (FLoad b s e want)
  then show ?thesis using assms by (cases want) (auto simp: fence_step_def split: if_splits)
next
  case (FCount b s e want)
  then show ?thesis using assms by (cases want) (auto simp: fence_step_def)
next
  case (FReload b s e want)
  then show ?thesis using assms by (cases want) (auto simp: fence_step_def split: if_splits)
qed (use assms in \<open>auto simp: fence_step_def split: if_splits\<close>)

definition numbered :: "FenceTable \<Rightarrow> bool" where
  "numbered ft = ((\<forall>a < ft_alloc ft. sf_incarnation (ft_heap ft a) = of_nat (Suc a))
     \<and> ft_next_incarnation ft = of_nat (Suc (ft_alloc ft)))"

lemma numbered_simps [simp]:
  "numbered (store_lifecycle a v ft) = numbered ft" "numbered (add_readers a d ft) = numbered ft"
  "numbered (ft \<lparr> ft_fences := m \<rparr>) = numbered ft"
  by (auto simp: numbered_def) (simp_all add: store_lifecycle_def add_readers_def)

lemma numbered_entry: "fence_entry s ft = (a, ft') \<Longrightarrow> numbered ft \<Longrightarrow> numbered ft'"
  by (erule fence_entry_cases) (auto simp: numbered_def new_fence_def less_Suc_eq add.commute)

lemma numbered_step: "fence_step inp pc ft = (pc', ft') \<Longrightarrow> numbered ft \<Longrightarrow> numbered ft'"
proof (cases pc)
  case FIdle
  moreover assume "fence_step inp pc ft = (pc', ft')" "numbered ft"
  ultimately show ?thesis
    by (cases inp) (auto simp: fence_step_def enter_def intro: numbered_entry split: prod.splits)
next
  case (FEntry all e todo got)
  moreover assume "fence_step inp pc ft = (pc', ft')" "numbered ft"
  ultimately show ?thesis
    by (cases todo) (auto simp: fence_step_def intro: numbered_entry split: prod.splits)
next
  case (FDrain all e rest got)
  moreover assume "fence_step inp pc ft = (pc', ft')" "numbered ft"
  ultimately show ?thesis by (cases rest) (auto simp: fence_step_def)
next
  case (FCommit e got)
  moreover assume "fence_step inp pc ft = (pc', ft')" "numbered ft"
  ultimately show ?thesis by (cases got) (auto simp: fence_step_def)
next
  case (FReopen got)
  moreover assume "fence_step inp pc ft = (pc', ft')" "numbered ft"
  ultimately show ?thesis by (cases got) (auto simp: fence_step_def)
qed (auto simp: fence_step_def drop_read_def split: if_splits)

definition bounds_ok :: "FenceSystem \<Rightarrow> bool" where
  "bounds_ok x = (case x of (pcs, ft) \<Rightarrow> \<forall>t a i. bound_to (pcs t) = Some (a, i) \<longrightarrow>
     sf_incarnation (ft_heap ft a) = i \<and> a < ft_alloc ft)"

lemma incarnations_reach:
  assumes "fence_reach n fence_start x" "n < 2 ^ 64"
  shows "numbered (snd x) \<and> bounds_ok x"
  using assms
proof (induction "fence_start" x)
  case start
  show ?case by (simp add: fence_start_def fence_table_new_def numbered_def bounds_ok_def)
next
  case (thread pcs ft t inp pc ft')
  then have inv: "fences_ok n (pcs, ft)" "bounds_ok (pcs, ft)" "numbered ft" using fences_ok_reach by auto
  have l: "later ft ft'" using later_step thread.hyps(4) by blast
  have "sf_incarnation (ft_heap ft a) = i \<and> a < ft_alloc ft"
    if "bound_to ((pcs(t := pc)) u) = Some (a, i)" for u a i
    using that inv(2) bound_step[OF thread.hyps(4), of a i] fences_okD(1)[OF inv(1)]
    by (cases "u = t") (auto simp: bounds_ok_def table_ok_def)
  then have "bounds_ok (pcs(t := pc), ft')"
    using l unfolding bounds_ok_def later_def prod.case by (metis order_less_le_trans)
  then show ?case using numbered_step[OF thread.hyps(4)] inv(3) by simp
next
  case (create pcs ft s i ft')
  then obtain a where entry: "fence_entry s ft = (a, ft')" by (auto simp: incarnation_or_create_def split: prod.splits)
  have "bounds_ok (pcs, ft)" "numbered ft" using create by auto
  then show ?case using later_entry[OF entry] numbered_entry[OF entry] by (fastforce simp: bounds_ok_def later_def)
next
  case (purge pcs ft)
  then show ?case by (simp add: fence_clear_def bounds_ok_def)
qed

section \<open>Scripts\<close>

text \<open>A schedule names the thread that takes each step, and its input.\<close>

fun fence_run :: "(nat \<times> FenceInput) list \<Rightarrow> FenceSystem \<Rightarrow> FenceSystem" where
  "fence_run [] x = x"
| "fence_run ((t, inp) # script) (pcs, ft) =
     (case fence_step inp (pcs t) ft of (pc, ft') \<Rightarrow> fence_run script (pcs(t := pc), ft'))"

lemma run_reach:
  assumes "fence_reach n x y" "\<forall>(t, inp) \<in> set script. t < n"
  shows "fence_reach n x (fence_run script y)"
  using assms
proof (induction script y rule: fence_run.induct)
  case (2 t inp script pcs ft)
  obtain pc ft' where step: "fence_step inp (pcs t) ft = (pc, ft')" by (meson surj_pair)
  then have "fence_reach n x (pcs(t := pc), ft')" using fence_reach.thread 2(2,3) by auto
  then show ?case using 2 step by simp
qed simp

section \<open>Exclusion\<close>

lemma closing_excludes:
  assumes inv: "fences_ok n (pcs, ft)" and closing: "pcs t = FClosing all e got" and s: "(s, a) \<in> set got"
  shows "pcs u \<noteq> FInside b s e' want" "u \<noteq> t \<Longrightarrow> pcs u = FClosing all' e' got' \<Longrightarrow> s \<notin> fst ` set got'"
proof -
  have hold: "hold_ok ft s a" "usable ft a"
    using fences_okD(2)[OF inv, of t] closing s by (auto simp: pc_ok_def held_ok_def owned_ok_def)
  have same: "b = a" if "hold_ok ft s b" "usable ft b" for b
    using that hold by (simp add: hold_ok_def)
  show "pcs u \<noteq> FInside b s e' want"
  proof
    assume at: "pcs u = FInside b s e' want"
    then have "b = a" using fences_okD(2)[OF inv, of u] by (intro same) (auto simp: pc_ok_def held_ok_def inside_ok_def)
    then show False using fences_okD(4)[OF inv, of t u] at closing s by (force simp: drained_ok_def)
  qed
  assume ut: "u \<noteq> t" and at: "pcs u = FClosing all' e' got'"
  show "s \<notin> fst ` set got'"
  proof
    assume "s \<in> fst ` set got'"
    then obtain b where b: "(s, b) \<in> set got'" by auto
    then have "b = a" using fences_okD(2)[OF inv, of u] at
      by (intro same) (auto simp: pc_ok_def held_ok_def owned_ok_def)
    then show False using fences_okD(3)[OF inv ut] at closing s b by (force simp: apart_def claimed_def)
  qed
qed

lemma same_incarnation:
  assumes "of_nat (Suc a) = (of_nat (Suc b) :: u64)" "a < n" "b < n" "n < 2 ^ 64"
  shows "a = b"
proof -
  have "of_nat a + 1 = (of_nat b + 1 :: u64)" using assms(1) by (simp add: add.commute)
  then have "of_nat a = (of_nat b :: u64)" by simp
  then have "unat (of_nat a :: u64) = unat (of_nat b :: u64)" by simp
  moreover have "unat (of_nat k :: u64) = k" if "k < n" for k
    using that assms(4) by (simp add: unat_of_nat)
  ultimately show ?thesis using assms(2,3) by simp
qed

lemma fence_reach_trans: "fence_reach n y z \<Longrightarrow> fence_reach n x y \<Longrightarrow> fence_reach n x z"
  by (induction rule: fence_reach.induct) (auto intro: fence_reach.intros)

section \<open>Claims\<close>

text \<open>
  C37. Exclusion.  While a thread is inside the native close of a session, or of a slot with that session on it, no
  ordinary operation is inside a native call on the session and no other thread is inside a native close of it,
  in every interleaving of any number of threads below \<open>2 ^ 64\<close>, with panics, failed closes,
  purges and concurrent settlement arming.
\<close>

theorem fence_excludes:
  assumes "fence_reach n fence_start (pcs, ft)" "n < 2 ^ 64"
    and "pcs t = FClosing all e got" "s \<in> fst ` set got"
  shows "(\<forall>u a e' want. pcs u \<noteq> FInside a s e' want)
    \<and> (\<forall>u all' e' got'. u \<noteq> t \<longrightarrow> pcs u = FClosing all' e' got' \<longrightarrow> s \<notin> fst ` set got')"
proof -
  obtain a where "(s, a) \<in> set got" using assms(4) by auto
  with closing_excludes[OF fences_ok_reach[OF assms(1,2)] assms(3)] show ?thesis by blast
qed

definition excluding_script :: "(nat \<times> FenceInput) list" where
  "excluding_script = [(0, StartEnter 2 5), (0, NativeOk), (0, NativeOk), (0, NativeOk),
     (1, StartClose 2 5), (1, NativeOk), (1, NativeOk), (1, NativeOk), (1, NativeOk), (1, NativeOk),
     (2, StartEnter 2 6), (2, NativeOk), (2, NativeOk), (2, NativeOk),
     (0, NativeOk), (1, NativeOk), (1, NativeOk), (0, StartEnter 2 5), (0, NativeOk)]"

lemma excluding_script_state:
  "fst (fence_run excluding_script fence_start) 0 = FRefused CKR_SESSION_HANDLE_INVALID"
  "fst (fence_run excluding_script fence_start) 1 = FClosing False 2 [(5, 0)]"
  "fst (fence_run excluding_script fence_start) 2 = FInside 1 6 2 None"
  by (simp_all add: excluding_script_def fence_start_def fence_table_new_def fence_step_def enter_def fence_entry_def
      new_fence_def enter_write_def lifecycle_at_def store_lifecycle_def add_readers_def drop_read_def
      FENCE_OPEN_def FENCE_CLOSING_def wrong_incarnation_def)

theorem fence_excludes_witness:
  "fst (fence_run excluding_script fence_start) 1 = FClosing False 2 [(5, 0)]
   \<and> (\<forall>u a e' want. fst (fence_run excluding_script fence_start) u \<noteq> FInside a 5 e' want)"
proof -
  have "fence_reach 3 fence_start (fence_run excluding_script fence_start)"
    by (rule run_reach[OF fence_reach.start]) (simp add: excluding_script_def)
  then have "fence_reach 3 fence_start (fst (fence_run excluding_script fence_start), snd (fence_run excluding_script fence_start))"
    by simp
  from fence_excludes[OF this, of 1 False 2 "[(5, 0)]" 5] show ?thesis
    using excluding_script_state by simp
qed

text \<open>
  C38. Termination.  From every reachable state, the steps in which some busy thread advances are bounded by
  \<open>fence_bound\<close>, and every such run extends to one in which all operations and closes have returned: overlapping
  closes and close-alls neither deadlock nor chase each other for ever, provided the native calls return.
\<close>

theorem closes_terminate:
  assumes "fence_reach n fence_start x" "n < 2 ^ 64" "fence_work n x k y"
  shows "k \<le> fence_bound n x \<and> (\<exists>j z. fence_work n y j z \<and> (\<forall>t. fst z t = FIdle))"
  using work_bound[OF assms(3)] work_finishes[OF work_keeps[OF assms(3) fences_ok_reach[OF assms(1,2)] assms(2)] assms(2)]
  by simp

text \<open>Two close-alls over the same two sessions, listed in opposite orders, each having marked what it could.\<close>

definition crossing_script :: "(nat \<times> FenceInput) list" where
  "crossing_script = [(0, StartCloseAll 2 [7, 5]), (1, StartCloseAll 2 [5, 7, 5]),
     (0, NativeOk), (1, NativeOk), (0, NativeOk), (1, NativeOk), (0, NativeOk), (1, NativeOk)]"

lemma crossing_script_state:
  "fst (fence_run crossing_script fence_start) 0 = FEntry True 2 [7] [(5, 0)]"
  "fst (fence_run crossing_script fence_start) 1 = FMark True 2 5 0 [7] []"
  by (simp_all add: crossing_script_def fence_start_def fence_table_new_def fence_step_def fence_entry_def
      new_fence_def enter_write_all_def lifecycle_at_def store_lifecycle_def FENCE_OPEN_def FENCE_CLOSING_def)

theorem closes_terminate_witness:
  "fst (fence_run crossing_script fence_start) 1 = FMark True 2 5 0 [7] []
   \<and> (\<exists>j z. fence_work 2 (fence_run crossing_script fence_start) j z \<and> (\<forall>t. fst z t = FIdle))"
proof -
  have "fence_reach 2 fence_start (fence_run crossing_script fence_start)"
    by (rule run_reach[OF fence_reach.start]) (simp add: crossing_script_def)
  from closes_terminate[OF this _ fence_work.none] show ?thesis
    using crossing_script_state by simp
qed

text \<open>
  C39. Incarnation binding.  If a session's incarnation \<open>i\<close> was read in a reachable state, then whenever an entry bound
  to \<open>i\<close> is inside its native call, it is inside the very fence that carried \<open>i\<close>, that fence is
  still the table's fence of the same session, and no close of that session has been committed in the meantime.
  A destroy bound to a closed session therefore never reaches a session that reuses its handle.
\<close>

theorem bound_entry_same_session:
  assumes "fence_reach n fence_start (pcs, ft)" "n < 2 ^ 64" "session_incarnation ft s = Some i"
    and "fence_reach n (pcs, ft) (pcs', ft')" "ft_alloc ft' < 2 ^ 64"
    and "pcs' t = FInside a s' e (Some i)"
  shows "hget (ft_fences ft) s = Some a \<and> s' = s \<and> hget (ft_fences ft') s = Some a
    \<and> (lifecycle_at ft' a = FENCE_OPEN \<or> lifecycle_at ft' a = FENCE_CLOSING)"
proof -
  have there: "fence_reach n fence_start (pcs', ft')" using fence_reach_trans[OF assms(4,1)] .
  note inv = fences_ok_reach[OF assms(1,2)] and inv' = fences_ok_reach[OF there assms(2)]
  obtain b where b: "hget (ft_fences ft) s = Some b" "sf_incarnation (ft_heap ft b) = i"
    using assms(3) by (auto simp: session_incarnation_def)
  then have small: "b < ft_alloc ft" "ft_for ft b = s" using fences_okD(1)[OF inv] by (auto simp: table_ok_def)
  have l: "later ft ft'" using later_reach[OF assms(4)] by simp
  have "bound_to (pcs' t) = Some (a, i)" using assms(6) by simp
  then have "sf_incarnation (ft_heap ft' a) = i" "a < ft_alloc ft'"
    using incarnations_reach[OF there assms(2)] unfolding bounds_ok_def by auto
  moreover have "sf_incarnation (ft_heap ft' b) = i" "b < ft_alloc ft'" "ft_for ft' b = s"
    using l b small by (auto simp: later_def)
  ultimately have "of_nat (Suc a) = (of_nat (Suc b) :: u64)" "Suc a < 2 ^ 64 + 1" "Suc b < 2 ^ 64 + 1"
    using incarnations_reach[OF there assms(2)] assms(5) by (auto simp: numbered_def simp del: of_nat_Suc)
  then have "a = b" using same_incarnation[OF _ \<open>a < ft_alloc ft'\<close> \<open>b < ft_alloc ft'\<close> assms(5)] by simp
  moreover have "hold_ok ft' s' a" "usable ft' a"
    using fences_okD(2)[OF inv', of t] assms(6) by (auto simp: pc_ok_def held_ok_def inside_ok_def)
  ultimately show ?thesis using b \<open>ft_for ft' b = s\<close> by (auto simp: hold_ok_def usable_def)
qed

definition binding_script :: "(nat \<times> FenceInput) list" where
  "binding_script = [(0, StartChecked 2 5 1), (0, NativeOk), (0, NativeOk), (0, NativeOk)]"

definition bound_start :: FenceTable where
  "bound_start = snd (incarnation_or_create 5 fence_table_new)"

lemma binding_script_state:
  "session_incarnation bound_start 5 = Some 1"
  "fst (fence_run binding_script (\<lambda>_. FIdle, bound_start)) 0 = FInside 0 5 2 (Some 1)"
  "ft_alloc (snd (fence_run binding_script (\<lambda>_. FIdle, bound_start))) = 1"
  by (simp_all add: binding_script_def bound_start_def incarnation_or_create_def session_incarnation_def
      fence_table_new_def fence_step_def enter_checked_def fence_entry_def new_fence_def lifecycle_at_def add_readers_def
      FENCE_OPEN_def FENCE_CLOSING_def wrong_incarnation_def)

theorem bound_entry_same_session_witness:
  "session_incarnation bound_start 5 = Some 1
   \<and> fst (fence_run binding_script (\<lambda>_. FIdle, bound_start)) 0 = FInside 0 5 2 (Some 1)
   \<and> hget (ft_fences (snd (fence_run binding_script (\<lambda>_. FIdle, bound_start)))) 5 = Some 0"
proof -
  define y where "y = fence_run binding_script (\<lambda>_. FIdle, bound_start)"
  have first: "fence_reach 1 fence_start (\<lambda>_. FIdle, bound_start)"
    using fence_reach.create[of 1 fence_start "\<lambda>_. FIdle" fence_table_new 5 _ bound_start] fence_reach.start[of 1 fence_start]
    by (cases "incarnation_or_create 5 fence_table_new") (simp add: bound_start_def fence_start_def)
  have "fence_reach 1 (\<lambda>_. FIdle, bound_start) y"
    unfolding y_def by (rule run_reach[OF fence_reach.start]) (simp add: binding_script_def)
  then have "fence_reach 1 (\<lambda>_. FIdle, bound_start) (fst y, snd y)" by simp
  from bound_entry_same_session[OF first _ _ this, of 5 1 0 0 5 2] show ?thesis
    using binding_script_state by (simp add: y_def)
qed

end
