(* ===== verification/Native_Domain.thy ===== *)
theory Native_Domain
  imports Ck_Types
begin

text \<open>
  The constructor domain and the module life cycle of the native back end,
  \<^verbatim>\<open>crates/backend/src/ffi/native_domain.rs\<close>: the process-wide reservation of the one
  provider chain, the tracker that decides whether a dropped back end may release that
  reservation, the state machine that admits ordinary calls and seals them out around
  \<^verbatim>\<open>C_Initialize\<close> and \<^verbatim>\<open>C_Finalize\<close>, and the record of the sole slot-event waiter.
  Operations that run under a lock are functions on the protected data; \<^verbatim>\<open>Native_Chain\<close> interleaves those of
  the registry.
\<close>

section \<open>The constructor registry\<close>

datatype DomainError =
    UnsupportedPlatform string
  | AlreadyReserved u64
  | DomainPoisoned
  | MutexPoisoned
  | EpochExhausted
  | NotReserved u64

datatype RegistryState =
    Vacant u64
  | Reserved u64 u64
  | Active u64 u64
  | Retiring u64 u64
  | Poisoned u64

fun reg_epoch :: "RegistryState \<Rightarrow> u64" where
  "reg_epoch (Vacant next) = next"
| "reg_epoch (Reserved e _) = e"
| "reg_epoch (Active e _) = e"
| "reg_epoch (Retiring e _) = e"
| "reg_epoch (Poisoned e) = e"

fun reserve :: "RegistryState \<Rightarrow> (DomainError + u64) \<times> RegistryState" where
  "reserve (Vacant next) =
     (if next = - 1 then (Inl EpochExhausted, Vacant next) else (Inr next, Reserved next (next + 1)))"
| "reserve (Poisoned e) = (Inl DomainPoisoned, Poisoned e)"
| "reserve st = (Inl (AlreadyReserved (reg_epoch st)), st)"

fun activate :: "u64 \<Rightarrow> RegistryState \<Rightarrow> (DomainError + unit) \<times> RegistryState" where
  "activate e (Reserved live next) =
     (if live = e then (Inr (), Active e next) else (Inl (NotReserved e), Reserved live next))"
| "activate e st = (Inl (NotReserved e), st)"

fun rollback :: "u64 \<Rightarrow> RegistryState \<Rightarrow> RegistryState" where
  "rollback e (Reserved live next) = (if live = e then Vacant next else Reserved live next)"
| "rollback e st = st"

fun poison :: "u64 \<Rightarrow> RegistryState \<Rightarrow> RegistryState" where
  "poison e (Reserved live next) = (if live = e then Poisoned e else Reserved live next)"
| "poison e (Active live next) = (if live = e then Poisoned e else Active live next)"
| "poison e (Retiring live next) = (if live = e then Poisoned e else Retiring live next)"
| "poison e st = st"

fun begin_retirement :: "u64 \<Rightarrow> RegistryState \<Rightarrow> bool \<times> RegistryState" where
  "begin_retirement e (Active live next) =
     (if live = e then (True, Retiring e next) else (False, Active live next))"
| "begin_retirement e st = (False, st)"

fun release_if_owner :: "u64 \<Rightarrow> RegistryState \<Rightarrow> bool \<times> RegistryState" where
  "release_if_owner e (Active live next) = (if live = e then (True, Vacant next) else (False, Active live next))"
| "release_if_owner e (Retiring live next) = (if live = e then (True, Vacant next) else (False, Retiring live next))"
| "release_if_owner e st = (False, st)"

text \<open>The registry behind its mutex; a poisoned mutex poisons the state and denies the caller.\<close>

record DomainRegistry =
  dr_state :: RegistryState
  dr_mutex_poisoned :: bool

definition with_registry ::
  "(RegistryState \<Rightarrow> 'r \<times> RegistryState) \<Rightarrow> DomainRegistry \<Rightarrow> (DomainError + 'r) \<times> DomainRegistry" where
  "with_registry op reg =
     (if dr_mutex_poisoned reg
      then (Inl MutexPoisoned, reg \<lparr> dr_state := Poisoned (reg_epoch (dr_state reg)) \<rparr>)
      else (case op (dr_state reg) of (r, st) \<Rightarrow> (Inr r, reg \<lparr> dr_state := st \<rparr>)))"

definition reserve_for_construction :: "DomainRegistry \<Rightarrow> (DomainError + u64) \<times> DomainRegistry" where
  "reserve_for_construction reg = (case with_registry reserve reg of
     (Inl e, reg') \<Rightarrow> (Inl e, reg') | (Inr r, reg') \<Rightarrow> (r, reg'))"

definition permit_activate :: "u64 \<Rightarrow> DomainRegistry \<Rightarrow> (DomainError + unit) \<times> DomainRegistry" where
  "permit_activate e reg = (case with_registry (activate e) reg of
     (Inl err, reg') \<Rightarrow> (Inl err, reg') | (Inr r, reg') \<Rightarrow> (r, reg'))"

definition rollback_before_native :: "u64 \<Rightarrow> DomainRegistry \<Rightarrow> DomainRegistry" where
  "rollback_before_native e reg = snd (with_registry (\<lambda>st. ((), rollback e st)) reg)"

definition permit_poison :: "u64 \<Rightarrow> DomainRegistry \<Rightarrow> DomainRegistry" where
  "permit_poison e reg = snd (with_registry (\<lambda>st. ((), poison e st)) reg)"

definition permit_begin_retirement :: "u64 \<Rightarrow> DomainRegistry \<Rightarrow> DomainRegistry" where
  "permit_begin_retirement e reg = snd (with_registry (begin_retirement e) reg)"

definition sentinel_drop :: "u64 \<Rightarrow> DomainRegistry \<Rightarrow> DomainRegistry" where
  "sentinel_drop e reg = snd (with_registry (release_if_owner e) reg)"

section \<open>The life-cycle tracker\<close>

record LifecycleTracker =
  lt_init_attempted :: bool
  lt_since_finalize :: bool
  lt_initialized :: bool
  lt_finalized_ok :: bool
  lt_open_sessions :: u64
  lt_generation :: u64
  lt_init_completions :: u64
  lt_finalize_failed :: bool

definition tracker_new :: LifecycleTracker where
  "tracker_new = \<lparr> lt_init_attempted = False, lt_since_finalize = False, lt_initialized = False,
     lt_finalized_ok = False, lt_open_sessions = 0, lt_generation = 0, lt_init_completions = 0,
     lt_finalize_failed = False \<rparr>"

datatype LifecycleRefusal = FailedFinalizeUnresolved | GenerationExhausted
datatype RetirementDecision = Release | Poison

definition note_init_attempted :: "LifecycleTracker \<Rightarrow> LifecycleTracker" where
  "note_init_attempted lt = lt \<lparr> lt_init_attempted := True, lt_since_finalize := True \<rparr>"

definition note_init_native_failed :: "LifecycleTracker \<Rightarrow> LifecycleTracker" where
  "note_init_native_failed lt = note_init_attempted (lt \<lparr> lt_init_completions := lt_init_completions lt + 1 \<rparr>)"

definition new_cycle :: "LifecycleTracker \<Rightarrow> bool" where
  "new_cycle lt = (\<not> lt_initialized lt \<or> lt_finalized_ok lt)"

definition check_reinitialize :: "LifecycleTracker \<Rightarrow> LifecycleRefusal + unit" where
  "check_reinitialize lt =
     (if lt_finalize_failed lt then Inl FailedFinalizeUnresolved
      else if new_cycle lt \<and> lt_generation lt = - 1 then Inl GenerationExhausted else Inr ())"

definition note_initialized :: "LifecycleTracker \<Rightarrow> (LifecycleRefusal + unit) \<times> LifecycleTracker" where
  "note_initialized lt0 = (let lt = lt0 \<lparr> lt_init_completions := lt_init_completions lt0 + 1 \<rparr> in
     if lt_finalize_failed lt then (Inl FailedFinalizeUnresolved, lt)
     else if new_cycle lt
     then if lt_generation lt = - 1 then (Inl GenerationExhausted, lt)
          else (Inr (), lt \<lparr> lt_generation := lt_generation lt + 1, lt_initialized := True,
                             lt_finalized_ok := False, lt_open_sessions := 0 \<rparr>)
     else (Inr (), lt))"

definition note_finalized_bounded :: "u64 \<Rightarrow> LifecycleTracker \<Rightarrow> LifecycleTracker" where
  "note_finalized_bounded at_seal lt =
     (let lt1 = lt \<lparr> lt_finalized_ok := True, lt_finalize_failed := False \<rparr>;
          lt2 = (if lt_init_completions lt1 = at_seal then lt1 \<lparr> lt_since_finalize := False \<rparr> else lt1)
      in lt2 \<lparr> lt_open_sessions := 0 \<rparr>)"

definition note_finalize_failed :: "LifecycleTracker \<Rightarrow> LifecycleTracker" where
  "note_finalize_failed lt = lt \<lparr> lt_finalize_failed := True \<rparr>"

definition note_session_opened :: "LifecycleTracker \<Rightarrow> LifecycleTracker" where
  "note_session_opened lt = lt \<lparr> lt_open_sessions := lt_open_sessions lt + 1 \<rparr>"

definition note_sessions_closed :: "u64 \<Rightarrow> LifecycleTracker \<Rightarrow> LifecycleTracker" where
  "note_sessions_closed count lt =
     (if count \<le> lt_open_sessions lt then lt \<lparr> lt_open_sessions := lt_open_sessions lt - count \<rparr> else lt)"

definition retirement_decision :: "LifecycleTracker \<Rightarrow> RetirementDecision" where
  "retirement_decision lt =
     (let never_exposed = \<not> lt_init_attempted lt \<and> \<not> lt_initialized lt;
          fresh_finalize = lt_finalized_ok lt \<and> \<not> lt_since_finalize lt
      in if (never_exposed \<or> fresh_finalize) \<and> lt_open_sessions lt = 0 then Release else Poison)"

definition stop_fire_condition :: "RetirementDecision \<Rightarrow> bool \<Rightarrow> bool" where
  "stop_fire_condition d holds_slot = (d = Poison \<and> holds_slot)"

section \<open>The life-cycle domain\<close>

datatype ModuleState =
    LoadedUninitialized
  | Initializing
  | Open
  | Draining
  | Finalizing
  | Finalized
  | Uncertain

record LifecycleInner =
  li_state :: ModuleState
  li_epoch :: u64

text \<open>A detached ticket of a control transition: the state before it and the epoch that it stamped.\<close>

record Ticket =
  tk_prior :: ModuleState
  tk_epoch :: u64

definition domain_new :: LifecycleInner where
  "domain_new = \<lparr> li_state = LoadedUninitialized, li_epoch = 0 \<rparr>"

definition checked_inc :: "u64 \<Rightarrow> u64 option" where
  "checked_inc n = (if n = - 1 then None else Some (n + 1))"

definition admit_ordinary :: "LifecycleInner \<Rightarrow> u64 CkResult" where
  "admit_ordinary li = (case li_state li of
     Open \<Rightarrow> Inr (li_epoch li)
   | Uncertain \<Rightarrow> Inl CKR_GENERAL_ERROR
   | _ \<Rightarrow> Inl CKR_CRYPTOKI_NOT_INITIALIZED)"

definition begin_initialize :: "LifecycleInner \<Rightarrow> (Ticket CkResult) \<times> LifecycleInner" where
  "begin_initialize li =
     (if li_state li = Draining \<or> li_state li = Finalizing then (Inl CKR_CRYPTOKI_NOT_INITIALIZED, li)
      else case checked_inc (li_epoch li) of
        None \<Rightarrow> (Inl CKR_GENERAL_ERROR, li)
      | Some e \<Rightarrow> (Inr \<lparr> tk_prior = li_state li, tk_epoch = e \<rparr>,
                  li \<lparr> li_state := Initializing, li_epoch := e \<rparr>))"

definition begin_finalize :: "LifecycleInner \<Rightarrow> (Ticket CkResult) \<times> LifecycleInner" where
  "begin_finalize li = (case li_state li of
     Open \<Rightarrow> (case checked_inc (li_epoch li) of
        None \<Rightarrow> (Inl CKR_GENERAL_ERROR, li)
      | Some e \<Rightarrow> (Inr \<lparr> tk_prior = Open, tk_epoch = e \<rparr>, li \<lparr> li_state := Draining, li_epoch := e \<rparr>))
   | Uncertain \<Rightarrow> (Inl CKR_GENERAL_ERROR, li)
   | _ \<Rightarrow> (Inl CKR_CRYPTOKI_NOT_INITIALIZED, li))"

definition enter_finalizing :: "Ticket \<Rightarrow> LifecycleInner \<Rightarrow> (unit CkResult) \<times> LifecycleInner" where
  "enter_finalizing tk li =
     (if li_epoch li \<noteq> tk_epoch tk \<or> li_state li \<noteq> Draining then (Inl CKR_GENERAL_ERROR, li)
      else (Inr (), li \<lparr> li_state := Finalizing \<rparr>))"

text \<open>
  Publishing a transition: \<open>from\<close> is the transient state the ticket must still own, \<open>to\<close> the state it
  reaches.  The answer says whether the purge of the caller runs, in the same write section.
\<close>

definition settle_publish ::
  "ModuleState \<Rightarrow> ModuleState \<Rightarrow> Ticket \<Rightarrow> LifecycleInner \<Rightarrow> (unit CkResult) \<times> LifecycleInner" where
  "settle_publish from to tk li =
     (if li_epoch li \<noteq> tk_epoch tk \<or> li_state li \<noteq> from then (Inl CKR_GENERAL_ERROR, li)
      else case checked_inc (li_epoch li) of
        Some e \<Rightarrow> (Inr (), li \<lparr> li_state := to, li_epoch := e \<rparr>)
      | None \<Rightarrow> (Inl CKR_GENERAL_ERROR, li \<lparr> li_state := Uncertain \<rparr>))"

definition publish_open :: "Ticket \<Rightarrow> LifecycleInner \<Rightarrow> (unit CkResult) \<times> LifecycleInner" where
  "publish_open = settle_publish Initializing Open"

definition publish_finalized :: "Ticket \<Rightarrow> LifecycleInner \<Rightarrow> (unit CkResult) \<times> LifecycleInner" where
  "publish_finalized = settle_publish Finalizing Finalized"

definition abandon_raw :: "Ticket \<Rightarrow> LifecycleInner \<Rightarrow> bool \<times> LifecycleInner" where
  "abandon_raw tk li =
     (if li_epoch li = tk_epoch tk
      then (True, li \<lparr> li_epoch := (case checked_inc (li_epoch li) of Some e \<Rightarrow> e | None \<Rightarrow> li_epoch li),
                       li_state := (if tk_prior tk \<in> {Initializing, Draining, Finalizing} then Uncertain
                                    else tk_prior tk) \<rparr>)
      else (False, li))"

section \<open>The slot-event waiter\<close>

record WaiterObservation =
  wo_id :: u64
  wo_epoch :: u64
  wo_flags :: u64
  wo_native_rv :: "u64 option"
  wo_slot_written :: bool

record WaiterInner =
  wi_held :: "(u64 \<times> u64) option"
  wi_next_id :: u64
  wi_last_observation :: "WaiterObservation option"

datatype WaiterPhase = WReserved | NativeCallCommitted | Returned

record WaiterReservation =
  wr_id :: u64
  wr_epoch :: u64
  wr_flags :: u64
  wr_phase :: WaiterPhase
  wr_native_rv :: "u64 option"
  wr_slot_written :: bool

definition waiter_commit_allowed :: "ModuleState \<Rightarrow> u64 \<Rightarrow> u64 \<Rightarrow> unit CkResult" where
  "waiter_commit_allowed st current_epoch record_epoch =
     (if st = Open \<and> current_epoch = record_epoch then Inr ()
      else if st = Uncertain then Inl CKR_DEVICE_ERROR
      else Inl CKR_CRYPTOKI_NOT_INITIALIZED)"

definition reserve_waiter :: "u64 \<Rightarrow> u64 \<Rightarrow> WaiterInner \<Rightarrow> (WaiterReservation CkResult) \<times> WaiterInner" where
  "reserve_waiter epoch flags wi =
     (if wi_held wi \<noteq> None then (Inl CKR_FUNCTION_FAILED, wi)
      else case checked_inc (wi_next_id wi) of
        None \<Rightarrow> (Inl CKR_GENERAL_ERROR, wi)
      | Some next \<Rightarrow>
          (Inr \<lparr> wr_id = wi_next_id wi, wr_epoch = epoch, wr_flags = flags, wr_phase = WReserved,
                 wr_native_rv = None, wr_slot_written = False \<rparr>,
           wi \<lparr> wi_next_id := next, wi_held := Some (wi_next_id wi, epoch) \<rparr>))"

definition release_waiter :: "WaiterReservation \<Rightarrow> u64 option \<Rightarrow> bool \<Rightarrow> WaiterInner \<Rightarrow> WaiterInner" where
  "release_waiter wr rv written wi =
     (if wi_held wi = Some (wr_id wr, wr_epoch wr)
      then wi \<lparr> wi_held := None,
                wi_last_observation := Some \<lparr> wo_id = wr_id wr, wo_epoch = wr_epoch wr, wo_flags = wr_flags wr,
                  wo_native_rv = rv, wo_slot_written = written \<rparr> \<rparr>
      else wi)"

definition release_uncompleted :: "WaiterReservation \<Rightarrow> WaiterInner \<Rightarrow> WaiterInner" where
  "release_uncompleted wr wi = release_waiter wr None False wi"

definition drop_waiter :: "WaiterReservation \<Rightarrow> WaiterInner \<Rightarrow> WaiterInner" where
  "drop_waiter wr wi = release_waiter wr (wr_native_rv wr) (wr_slot_written wr) wi"

text \<open>\<open>peek\<close> is what \<^verbatim>\<open>try_read\<close> of the domain shows: nothing while a writer holds or the lock is poisoned.\<close>

definition commit_native ::
  "LifecycleInner option \<Rightarrow> WaiterReservation \<Rightarrow> WaiterInner \<Rightarrow> (unit CkResult) \<times> WaiterReservation \<times> WaiterInner" where
  "commit_native peek wr wi = (case peek of
     None \<Rightarrow> (Inl CKR_GENERAL_ERROR, wr, release_uncompleted wr wi)
   | Some li \<Rightarrow> (case waiter_commit_allowed (li_state li) (li_epoch li) (wr_epoch wr) of
       Inl err \<Rightarrow> (Inl err, wr, release_uncompleted wr wi)
     | Inr _ \<Rightarrow> (Inr (), wr \<lparr> wr_phase := NativeCallCommitted \<rparr>, wi)))"

definition note_returned :: "u64 \<Rightarrow> bool \<Rightarrow> WaiterReservation \<Rightarrow> WaiterReservation" where
  "note_returned rv written wr =
     wr \<lparr> wr_phase := Returned, wr_native_rv := Some rv, wr_slot_written := written \<rparr>"

section \<open>Stale tickets\<close>

lemma stale_ticket_changes_nothing:
  assumes "li_epoch li \<noteq> tk_epoch tk"
  shows "snd (publish_open tk li) = li" "snd (publish_finalized tk li) = li" "snd (enter_finalizing tk li) = li"
    "abandon_raw tk li = (False, li)"
  using assms
  by (simp_all add: publish_open_def publish_finalized_def settle_publish_def enter_finalizing_def abandon_raw_def)

end
