(* ===== verification/Native_Chain.thy ===== *)
theory Native_Chain
  imports Native_Domain
begin

text \<open>
  Construction and retirement of native back ends, \<^verbatim>\<open>FfiBackend::load_with_init_args\<close> and its
  \<^verbatim>\<open>Drop\<close> in \<^verbatim>\<open>crates/backend/src/ffi/loading.rs\<close>, interleaved over any number of threads of the
  process that share the constructor registry.  Loading the library and discovering its
  interfaces are inputs: the code only branches on whether they succeed.
\<close>

section \<open>Steps\<close>

datatype ChainPc =
    ChIdle
  | ChReserved u64
  | ChOpened u64
  | ChActive u64
  | ChUnloading u64
  | ChRetiring u64
  | ChClosed u64
  | ChStopped u64

datatype ChainInput =
    LoadWith bool bool
  | Succeeds
  | Fails
  | DropWith bool LifecycleTracker bool

definition start_load :: "bool \<Rightarrow> bool \<Rightarrow> DomainRegistry \<Rightarrow> ChainPc \<times> DomainRegistry" where
  "start_load platform_ok args_ok reg =
     (if \<not> platform_ok \<or> \<not> args_ok then (ChIdle, reg)
      else case reserve_for_construction reg of
        (Inl err, reg') \<Rightarrow> (ChIdle, reg')
      | (Inr e, reg') \<Rightarrow> (ChReserved e, reg'))"

definition after_dlopen :: "bool \<Rightarrow> u64 \<Rightarrow> DomainRegistry \<Rightarrow> ChainPc \<times> DomainRegistry" where
  "after_dlopen ok e reg = (if ok then (ChOpened e, reg) else (ChIdle, rollback_before_native e reg))"

definition after_discovery :: "bool \<Rightarrow> u64 \<Rightarrow> DomainRegistry \<Rightarrow> ChainPc \<times> DomainRegistry" where
  "after_discovery ok e reg =
     (if \<not> ok then (ChUnloading e, permit_poison e reg)
      else case permit_activate e reg of
        (Inl err, reg') \<Rightarrow> (ChUnloading e, permit_poison e reg')
      | (Inr _, reg') \<Rightarrow> (ChActive e, reg'))"

text \<open>
  The body of \<^verbatim>\<open>Drop\<close>: \<open>qualified\<close> tells whether the target can stop the process, \<open>domain_poisoned\<close> what the
  quiescence probe of the life-cycle lock reports.  The fields drop afterwards, the
  library before the sentinel.
\<close>

definition drop_backend :: "bool \<Rightarrow> LifecycleTracker \<Rightarrow> bool \<Rightarrow> u64 \<Rightarrow> DomainRegistry \<Rightarrow> ChainPc \<times> DomainRegistry" where
  "drop_backend qualified lt domain_poisoned e reg =
     (let decision = retirement_decision lt in
      if qualified \<and> stop_fire_condition decision True then (ChStopped e, reg)
      else if qualified \<and> domain_poisoned then (ChStopped e, reg)
      else case decision of
        Release \<Rightarrow> (ChRetiring e, permit_begin_retirement e reg)
      | Poison \<Rightarrow> (ChRetiring e, permit_poison e reg))"

definition chain_step :: "ChainInput \<Rightarrow> ChainPc \<Rightarrow> DomainRegistry \<Rightarrow> ChainPc \<times> DomainRegistry" where
  "chain_step inp pc reg = (case pc of
     ChIdle \<Rightarrow> (case inp of LoadWith p a \<Rightarrow> start_load p a reg | _ \<Rightarrow> (ChIdle, reg))
   | ChReserved e \<Rightarrow> after_dlopen (inp = Succeeds) e reg
   | ChOpened e \<Rightarrow> after_discovery (inp = Succeeds) e reg
   | ChActive e \<Rightarrow> (case inp of DropWith q lt p \<Rightarrow> drop_backend q lt p e reg | _ \<Rightarrow> (ChActive e, reg))
   | ChUnloading e \<Rightarrow> (ChIdle, reg)
   | ChRetiring e \<Rightarrow> (ChClosed e, reg)
   | ChClosed e \<Rightarrow> (ChIdle, sentinel_drop e reg)
   | ChStopped e \<Rightarrow> (ChStopped e, reg))"

type_synonym ChainSystem = "(nat \<Rightarrow> ChainPc) \<times> DomainRegistry"

inductive chain_reach :: "ChainSystem \<Rightarrow> ChainSystem \<Rightarrow> bool" where
  start: "chain_reach x x"
| thread: "chain_reach x (pcs, reg) \<Longrightarrow> chain_step inp (pcs t) reg = (pc, reg') \<Longrightarrow>
     chain_reach x (pcs(t := pc), reg')"
| panic: "chain_reach x (pcs, reg) \<Longrightarrow> chain_reach x (pcs, reg \<lparr> dr_mutex_poisoned := True \<rparr>)"

definition chain_start :: ChainSystem where
  "chain_start = (\<lambda>_. ChIdle, \<lparr> dr_state = Vacant 0, dr_mutex_poisoned = False \<rparr>)"

text \<open>The provider library is mapped between a successful \<^verbatim>\<open>dlopen\<close> and the drop of the handle.\<close>

fun library_open :: "ChainPc \<Rightarrow> bool" where
  "library_open (ChOpened e) = True"
| "library_open (ChActive e) = True"
| "library_open (ChUnloading e) = True"
| "library_open (ChRetiring e) = True"
| "library_open (ChStopped e) = True"
| "library_open _ = False"

section \<open>The invariant\<close>

fun chain_epoch :: "ChainPc \<Rightarrow> u64 option" where
  "chain_epoch ChIdle = None"
| "chain_epoch (ChReserved e) = Some e"
| "chain_epoch (ChOpened e) = Some e"
| "chain_epoch (ChActive e) = Some e"
| "chain_epoch (ChUnloading e) = Some e"
| "chain_epoch (ChRetiring e) = Some e"
| "chain_epoch (ChClosed e) = Some e"
| "chain_epoch (ChStopped e) = Some e"

fun occupied :: "RegistryState \<Rightarrow> bool" where
  "occupied (Vacant _) = False"
| "occupied _ = True"

fun poisoned :: "RegistryState \<Rightarrow> bool" where
  "poisoned (Poisoned _) = True"
| "poisoned _ = False"

definition chains_ok :: "ChainSystem \<Rightarrow> bool" where
  "chains_ok x = (case x of (pcs, reg) \<Rightarrow>
     (\<forall>t e. chain_epoch (pcs t) = Some e \<longrightarrow> occupied (dr_state reg) \<and> reg_epoch (dr_state reg) = e)
     \<and> (\<forall>t u. chain_epoch (pcs t) \<noteq> None \<longrightarrow> chain_epoch (pcs u) \<noteq> None \<longrightarrow> t = u)
     \<and> (\<forall>t e. pcs t = ChUnloading e \<longrightarrow> poisoned (dr_state reg)))"

text \<open>What the owner of the reserved epoch does to the registry.\<close>

lemma owner_ops:
  assumes "occupied (dr_state reg)" "reg_epoch (dr_state reg) = e"
  shows "occupied (dr_state (permit_poison e reg))" "reg_epoch (dr_state (permit_poison e reg)) = e"
    "poisoned (dr_state (permit_poison e reg))"
    "occupied (dr_state (permit_begin_retirement e reg))" "reg_epoch (dr_state (permit_begin_retirement e reg)) = e"
    "occupied (dr_state (snd (permit_activate e reg)))" "reg_epoch (dr_state (snd (permit_activate e reg))) = e"
  using assms
  by (cases "dr_state reg"; auto simp: permit_poison_def permit_begin_retirement_def permit_activate_def with_registry_def
      split: prod.splits sum.splits)+

lemma reserve_vacant:
  assumes "reserve_for_construction reg = (Inr e, reg')"
  shows "\<not> occupied (dr_state reg)" "occupied (dr_state reg')" "reg_epoch (dr_state reg') = e"
  using assms
  by (cases "dr_state reg"; auto simp: reserve_for_construction_def with_registry_def split: if_splits prod.splits sum.splits)+

lemma reserve_refused:
  assumes "reserve_for_construction reg = (Inl err, reg')" "occupied (dr_state reg)"
  shows "occupied (dr_state reg')" "reg_epoch (dr_state reg') = reg_epoch (dr_state reg)"
    "poisoned (dr_state reg) \<Longrightarrow> poisoned (dr_state reg')"
  using assms
  by (cases "dr_state reg"; auto simp: reserve_for_construction_def with_registry_def split: if_splits prod.splits sum.splits)+

lemma chains_ok_upd:
  assumes inv: "chains_ok (pcs, reg)"
    and owner: "\<And>e. chain_epoch pc = Some e \<Longrightarrow> occupied (dr_state reg') \<and> reg_epoch (dr_state reg') = e"
    and sole: "chain_epoch pc \<noteq> None \<Longrightarrow> chain_epoch (pcs t) \<noteq> None \<or> \<not> occupied (dr_state reg)"
    and others: "chain_epoch (pcs t) = None \<Longrightarrow> chain_epoch pc = None \<Longrightarrow> occupied (dr_state reg) \<Longrightarrow>
      occupied (dr_state reg') \<and> reg_epoch (dr_state reg') = reg_epoch (dr_state reg)
      \<and> (poisoned (dr_state reg) \<longrightarrow> poisoned (dr_state reg'))"
    and unl: "\<And>e. pc = ChUnloading e \<Longrightarrow> poisoned (dr_state reg')"
  shows "chains_ok (pcs(t := pc), reg')"
proof -
  have one: "u = v" if "chain_epoch (pcs u) \<noteq> None" "chain_epoch (pcs v) \<noteq> None" for u v
    using inv that unfolding chains_ok_def prod.case by blast
  have occ: "occupied (dr_state reg)" "Some (reg_epoch (dr_state reg)) = chain_epoch (pcs u)"
    if "chain_epoch (pcs u) \<noteq> None" for u
    using inv that by (auto simp: chains_ok_def)
  have quiet: "chain_epoch (pcs t) = None \<and> chain_epoch pc = None" if "chain_epoch (pcs u) \<noteq> None" "u \<noteq> t" for u
    using that one sole occ by blast
  have epoch: "occupied (dr_state reg') \<and> reg_epoch (dr_state reg') = e"
    if "chain_epoch ((pcs(t := pc)) u) = Some e" for u e
  proof (cases "u = t")
    case True
    then show ?thesis using that owner by simp
  next
    case False
    then have here: "chain_epoch (pcs u) = Some e" using that by simp
    then show ?thesis using quiet[of u] False occ[of u] others by auto
  qed
  moreover have "u = v" if "chain_epoch ((pcs(t := pc)) u) \<noteq> None" "chain_epoch ((pcs(t := pc)) v) \<noteq> None" for u v
  proof (rule ccontr)
    assume uv: "u \<noteq> v"
    consider "u = t" | "v = t" | "u \<noteq> t" "v \<noteq> t" by blast
    then show False
    proof cases
      case 1
      then show ?thesis using that uv quiet[of v] by auto
    next
      case 2
      then show ?thesis using that uv quiet[of u] by auto
    next
      case 3
      then show ?thesis using that uv one by auto
    qed
  qed
  moreover have "poisoned (dr_state reg')" if at: "(pcs(t := pc)) u = ChUnloading e" for u e
  proof (cases "u = t")
    case True
    then show ?thesis using at unl by simp
  next
    case False
    then have here: "pcs u = ChUnloading e" using at by simp
    then have "poisoned (dr_state reg)" using inv unfolding chains_ok_def prod.case by blast
    then show ?thesis using quiet[of u] here False occ[of u] others by auto
  qed
  ultimately show ?thesis unfolding chains_ok_def prod.case by blast
qed

lemma chains_ok_owner:
  assumes inv: "chains_ok (pcs, reg)" and own: "chain_epoch (pcs t) = Some e"
    and next_pc: "chain_epoch pc = None \<or> chain_epoch pc = Some e \<and> occupied (dr_state reg') \<and> reg_epoch (dr_state reg') = e"
    and unl: "\<And>e. pc = ChUnloading e \<Longrightarrow> poisoned (dr_state reg')"
  shows "chains_ok (pcs(t := pc), reg')"
  by (rule chains_ok_upd[OF inv]) (use own next_pc unl in auto)

lemma start_load_ok:
  assumes inv: "chains_ok (pcs, reg)" and idle: "pcs t = ChIdle" and step: "start_load p a reg = (pc, reg')"
  shows "chains_ok (pcs(t := pc), reg')"
proof (cases "\<not> p \<or> \<not> a")
  case True
  then have "pc = ChIdle" "reg' = reg" using step by (auto simp: start_load_def)
  then show ?thesis using inv idle by (simp add: fun_upd_idem)
next
  case False
  obtain r reg1 where r: "reserve_for_construction reg = (r, reg1)" by (meson surj_pair)
  show ?thesis
  proof (cases r)
    case (Inl err)
    then have "pc = ChIdle" "reg' = reg1" using False step r by (simp_all add: start_load_def)
    then show ?thesis
      using reserve_refused[of reg err reg1] r Inl idle by (intro chains_ok_upd[OF inv]) auto
  next
    case (Inr e)
    then have "pc = ChReserved e" "reg' = reg1" using False step r by (simp_all add: start_load_def)
    then show ?thesis
      using reserve_vacant[of reg e reg1] r Inr idle by (intro chains_ok_upd[OF inv]) auto
  qed
qed

lemma after_discovery_ok:
  assumes inv: "chains_ok (pcs, reg)" and own: "chain_epoch (pcs t) = Some e" "occupied (dr_state reg)" "reg_epoch (dr_state reg) = e"
    and step: "after_discovery ok e reg = (pc, reg')"
  shows "chains_ok (pcs(t := pc), reg')"
proof (cases ok)
  case False
  then show ?thesis using step owner_ops(1-3)[OF own(2,3)]
    by (intro chains_ok_owner[OF inv own(1)]) (auto simp: after_discovery_def)
next
  case True
  obtain r reg1 where r: "permit_activate e reg = (r, reg1)" by (meson surj_pair)
  then have "occupied (dr_state reg1)" "reg_epoch (dr_state reg1) = e" using owner_ops(6,7)[OF own(2,3)] by simp_all
  then show ?thesis using True step r owner_ops(1-3)[of reg1 e]
    by (intro chains_ok_owner[OF inv own(1)]) (auto simp: after_discovery_def split: sum.splits)
qed

lemma chains_ok_step:
  assumes inv: "chains_ok (pcs, reg)" and step: "chain_step inp (pcs t) reg = (pc, reg')"
  shows "chains_ok (pcs(t := pc), reg')"
proof (cases "chain_epoch (pcs t)")
  case None
  then have idle: "pcs t = ChIdle" by (cases "pcs t") simp_all
  then show ?thesis using step start_load_ok[OF inv idle] inv
    by (cases inp) (auto simp: chain_step_def fun_upd_idem)
next
  case (Some e)
  then have own: "occupied (dr_state reg)" "reg_epoch (dr_state reg) = e" using inv by (auto simp: chains_ok_def)
  note keep = chains_ok_owner[OF inv Some]
  show ?thesis
  proof (cases "pcs t")
    case (ChOpened e')
    then show ?thesis using Some step after_discovery_ok[OF inv Some own] by (simp add: chain_step_def)
  next
    case (ChActive e')
    then have "(pc = ChStopped e \<or> pc = ChRetiring e \<or> pc = ChActive e) \<and>
        (reg' = reg \<or> reg' = permit_begin_retirement e reg \<or> reg' = permit_poison e reg)"
      using Some step
      by (auto simp: chain_step_def drop_backend_def Let_def split: ChainInput.splits if_splits RetirementDecision.splits)
    then show ?thesis using own owner_ops(1,2,4,5)[OF own] by (intro keep) auto
  next
    case (ChStopped e')
    then have "pc = pcs t" "reg' = reg" using step by (simp_all add: chain_step_def)
    then show ?thesis using inv by simp
  next
    case (ChReserved e')
    then have "pc = ChIdle \<or> pc = ChOpened e \<and> reg' = reg"
      using Some step by (auto simp: chain_step_def after_dlopen_def split: if_splits)
    then show ?thesis using own by (intro keep) auto
  next
    case (ChUnloading e')
    then show ?thesis using step by (intro keep) (auto simp: chain_step_def)
  next
    case (ChRetiring e')
    then show ?thesis using Some step own by (intro keep) (auto simp: chain_step_def)
  next
    case (ChClosed e')
    then show ?thesis using step by (intro keep) (auto simp: chain_step_def)
  qed (use Some in simp)
qed

lemma chains_ok_reach:
  assumes "chain_reach chain_start x"
  shows "chains_ok x"
  using assms
proof (induction "chain_start" x)
  case start
  show ?case by (simp add: chain_start_def chains_ok_def)
next
  case (thread pcs reg inp t pc reg')
  then have "chains_ok (pcs, reg)" by simp
  then show ?case using thread.hyps(3) by (rule chains_ok_step)
next
  case (panic pcs reg)
  then show ?case by (simp add: chains_ok_def)
qed

lemma poisoned_ops:
  assumes "poisoned (dr_state reg)"
  shows "poisoned (dr_state (permit_poison e reg))" "poisoned (dr_state (permit_begin_retirement e reg))"
    "poisoned (dr_state (rollback_before_native e reg))" "poisoned (dr_state (sentinel_drop e reg))"
    "permit_activate e reg = (r, reg') \<Longrightarrow> poisoned (dr_state reg') \<and> (\<exists>err. r = Inl err)"
    "reserve_for_construction reg = (r2, reg') \<Longrightarrow> poisoned (dr_state reg') \<and> (\<exists>err. r2 = Inl err)"
  using assms
  by (cases "dr_state reg"; auto simp: permit_poison_def permit_begin_retirement_def rollback_before_native_def
      sentinel_drop_def permit_activate_def reserve_for_construction_def with_registry_def split: if_splits)+

lemma poisoned_step:
  assumes "chain_step inp pc reg = (pc', reg')" "poisoned (dr_state reg)"
  shows "poisoned (dr_state reg') \<and> (chain_epoch pc' \<noteq> None \<longrightarrow> chain_epoch pc = chain_epoch pc')"
proof (cases pc)
  case ChIdle
  then show ?thesis using assms poisoned_ops(6)[OF assms(2)]
    by (cases inp) (auto simp: chain_step_def start_load_def split: if_splits prod.splits sum.splits)
next
  case (ChOpened e)
  obtain r reg1 where r: "permit_activate e reg = (r, reg1)" by (meson surj_pair)
  then obtain err where "r = Inl err" "poisoned (dr_state reg1)" using poisoned_ops(5)[OF assms(2)] by blast
  then show ?thesis using assms ChOpened r poisoned_ops(1)[of reg1 e] poisoned_ops(1)[OF assms(2), of e]
    by (auto simp: chain_step_def after_discovery_def split: if_splits)
next
  case (ChActive e)
  then show ?thesis using assms poisoned_ops(1,2)[OF assms(2), of e]
    by (auto simp: chain_step_def drop_backend_def Let_def split: ChainInput.splits if_splits RetirementDecision.splits)
qed (use assms poisoned_ops(3,4)[OF assms(2)] in \<open>auto simp: chain_step_def after_dlopen_def split: if_splits\<close>)

lemma poisoned_reach:
  assumes "chain_reach x y" "poisoned (dr_state (snd x))"
  shows "poisoned (dr_state (snd y)) \<and> (\<forall>t. chain_epoch (fst y t) \<noteq> None \<longrightarrow> chain_epoch (fst x t) = chain_epoch (fst y t))"
  using assms
proof induction
  case (thread x pcs reg inp t pc reg')
  then have "poisoned (dr_state reg)" "\<forall>u. chain_epoch (pcs u) \<noteq> None \<longrightarrow> chain_epoch (fst x u) = chain_epoch (pcs u)" by auto
  then show ?case using poisoned_step[OF thread.hyps(2)] by auto
qed auto

section \<open>Claims\<close>

text \<open>
  C40. One provider chain.  Whatever threads construct and drop back ends, in any interleaving and with the registry mutex
  poisoned at any moment, two provider libraries are never mapped at the same time.
\<close>

theorem one_native_chain:
  assumes "chain_reach chain_start (pcs, reg)" "library_open (pcs t)" "u \<noteq> t"
  shows "\<not> library_open (pcs u)"
proof
  assume "library_open (pcs u)"
  then have "chain_epoch (pcs u) \<noteq> None" by (cases "pcs u") simp_all
  moreover have "chain_epoch (pcs t) \<noteq> None" using assms(2) by (cases "pcs t") simp_all
  ultimately show False using chains_ok_reach[OF assms(1)] assms(3) unfolding chains_ok_def prod.case by blast
qed

text \<open>One thread loads and activates, is dropped after a clean finalize, and a second one loads in its place.\<close>

fun chain_run :: "(nat \<times> ChainInput) list \<Rightarrow> ChainSystem \<Rightarrow> ChainSystem" where
  "chain_run [] x = x"
| "chain_run ((t, inp) # script) (pcs, reg) =
     (case chain_step inp (pcs t) reg of (pc, reg') \<Rightarrow> chain_run script (pcs(t := pc), reg'))"

lemma chain_run_reach: "chain_reach x y \<Longrightarrow> chain_reach x (chain_run script y)"
proof (induction script y rule: chain_run.induct)
  case (2 t inp script pcs reg)
  obtain pc reg' where step: "chain_step inp (pcs t) reg = (pc, reg')" by (meson surj_pair)
  then have "chain_reach x (pcs(t := pc), reg')" using chain_reach.thread[OF 2(2)] by blast
  then show ?case using 2(1)[OF step[symmetric]] step by simp
qed simp

definition succession_script :: "(nat \<times> ChainInput) list" where
  "succession_script = [(0, LoadWith True True), (0, Succeeds), (0, Succeeds), (1, LoadWith True True),
     (0, DropWith True tracker_new False), (0, Succeeds), (0, Succeeds),
     (1, LoadWith True True), (1, Succeeds), (1, Succeeds)]"

theorem one_native_chain_witness:
  "fst (chain_run succession_script chain_start) 1 = ChActive 1
   \<and> \<not> library_open (fst (chain_run succession_script chain_start) 0)"
proof -
  let ?y = "chain_run succession_script chain_start"
  have "chain_reach chain_start (fst ?y, snd ?y)" by (simp add: chain_run_reach chain_reach.start)
  moreover have active: "fst ?y 1 = ChActive 1"
    by (simp add: succession_script_def chain_start_def chain_step_def start_load_def after_dlopen_def
        after_discovery_def drop_backend_def retirement_decision_def stop_fire_condition_def tracker_new_def
        reserve_for_construction_def permit_activate_def permit_begin_retirement_def sentinel_drop_def with_registry_def)
  ultimately show ?thesis using one_native_chain[of "fst ?y" "snd ?y" 1 0] by simp
qed

end
