(* ===== verification/Spec2Isabelle.thy ===== *)
theory Spec2Isabelle
  imports Handle_Map Slot_Map Connection_State Context_Manager Session_Quota Rate_Limit Rate_Quota
    Health_Gate Peer_Admission Close_Session Daemon_Config Token_Info
    Close_All Audit_Claims Fence_Claims Native_Chain
begin

text \<open>
  \<^bold>\<open>Verification development for pkcs11-proxy-ng\<close>, a daemon that offers one PKCS\#11 library to
  many remote clients over gRPC.

  \<^bold>\<open>The program.\<close>  A request reaches the daemon on a tracked connection
  (\<^verbatim>\<open>server/connection_state.rs\<close>), passes the rate limiter and the per-peer cap, is given an
  identity (\<^verbatim>\<open>auth/identity.rs\<close>, \<^verbatim>\<open>auth/request_identity.rs\<close>) and is checked against the policy built
  from the configuration (\<^verbatim>\<open>auth/policy.rs\<close>, \<^verbatim>\<open>config.rs\<close>).  The context manager
  (\<^verbatim>\<open>server/context_manager.rs\<close>) holds one context per client; a context translates the virtual
  handles of its client to those of the library (\<^verbatim>\<open>server/handle_map.rs\<close>).  The handlers
  (\<^verbatim>\<open>grpc_service/session_handlers/\<close>) call the library on blocking threads behind a breaker
  (\<^verbatim>\<open>grpc_service/service_utils.rs\<close>), and every security event is appended to a hash chain
  (\<^verbatim>\<open>server/audit.rs\<close>, \<^verbatim>\<open>crates/audit\<close>).  The native back end (\<^verbatim>\<open>crates/backend/src/ffi\<close>) fences
  the calls of one session against its close and admits one provider per process.

  \<^bold>\<open>Theories.\<close>
  \<^item> \<^verbatim>\<open>Prelude\<close>: machine integers, hash maps as association lists, decimal text.
    \<^verbatim>\<open>Registry\<close> and \<^verbatim>\<open>Admission\<close> are the interfaces (locales): a table with insert and lookup
    laws, and a check-and-reserve admission; they are interpreted on the handle map, the slot map,
    the context cap and the session quota.
  \<^item> \<^verbatim>\<open>Ck_Types\<close>: return values, session flags, states (\<^verbatim>\<open>crates/types/src/error.rs\<close>, \<^verbatim>\<open>session.rs\<close>).
  \<^item> \<^verbatim>\<open>Handle_Map\<close>, \<^verbatim>\<open>Slot_Map\<close>: the virtual handle tables.  The three maps of a handle
    table stay inverse, a virtual handle is never rebound, and each operation refines one step of an
    abstract table.
  \<^item> \<^verbatim>\<open>Connection_State\<close>: the connection group of a peer, its two-step removal interleaved with accepts.
  \<^item> \<^verbatim>\<open>Client_Instance\<close>, \<^verbatim>\<open>Context_Manager\<close>, \<^verbatim>\<open>Session_Quota\<close>, \<^verbatim>\<open>Context_Login\<close>, \<^verbatim>\<open>Close_Session\<close>,
    \<^verbatim>\<open>Token_Info\<close>: a client context and the manager over them, caps and quotas under
    interleaved reservations, eviction, the holders of a slot login, the transition of a closing handle,
    the token information cache with its generation guard.
  \<^item> \<^verbatim>\<open>Rate_Limit\<close>, \<^verbatim>\<open>Rate_Quota\<close>, \<^verbatim>\<open>Peer_Admission\<close>, \<^verbatim>\<open>Health_Gate\<close>, \<^verbatim>\<open>Backend_Calls\<close>: the limits, the readiness gate,
    and the accounting of calls that are inside the library.
  \<^item> \<^verbatim>\<open>Rust_Str\<close>, \<^verbatim>\<open>Identity\<close>, \<^verbatim>\<open>Token_Selector\<close>, \<^verbatim>\<open>Grant\<close>, \<^verbatim>\<open>Policy\<close>, \<^verbatim>\<open>Policy_Decisions\<close>, \<^verbatim>\<open>Daemon_Config\<close>: identities and
    their text form, the selector language, the policy, the whole validation of the configuration.
  \<^item> \<^verbatim>\<open>Server_World\<close>, \<^verbatim>\<open>World_View\<close>, \<^verbatim>\<open>Mint_Owner\<close>, \<^verbatim>\<open>Session_Login\<close>, \<^verbatim>\<open>Session_Lifecycle\<close>, \<^verbatim>\<open>Close_All\<close>: the
    handlers for login, logout, open, close and close-all.  A handler runs in a world in which, at every
    suspension point, the other requests may change what they are allowed to; a blocking call may
    complete, time out, be refused or be cancelled.  The library is the parameter record
    \<open>Pkcs11Backend\<close>.
  \<^item> \<^verbatim>\<open>Audit_Chain\<close>, \<^verbatim>\<open>Audit_Writer\<close>, \<^verbatim>\<open>Audit_Names\<close>, \<^verbatim>\<open>Audit_Text\<close>, \<^verbatim>\<open>Audit_Layout\<close>, \<^verbatim>\<open>Audit_Trail\<close>,
    \<^verbatim>\<open>Audit_Sample\<close>, \<^verbatim>\<open>Audit_Claims\<close>: the chain of records, its verifier, the writer with the outcome of every
    I/O step, and what the two promise each other.  SHA-256, Ed25519 and JSON are the
    parameter record \<open>AuditLibs\<close> with the laws \<open>lib_laws\<close>; \<^verbatim>\<open>Audit_Sample\<close> has concrete functions that satisfy them.
  \<^item> \<^verbatim>\<open>Session_Fence\<close>, \<^verbatim>\<open>Fence_Exclusion\<close>, \<^verbatim>\<open>Fence_Claims\<close>: the lock-free fences of the native back end, one
    shared access per step.  A close excludes every operation on its sessions, waiting
    closes always finish, a bound entry never reaches a session that reuses a handle.
  \<^item> \<^verbatim>\<open>Native_Domain\<close>, \<^verbatim>\<open>Native_Chain\<close>: the constructor registry, the life-cycle tracker and state machine; at
    most one provider library is mapped.

  \<^bold>\<open>Correspondence.\<close>  A struct is a record with prefixed fields, an enum a datatype with the
  constructors of the source, a \<^verbatim>\<open>u64\<close> a \<^typ>\<open>64 word\<close>, a \<^verbatim>\<open>HashMap\<close> an association list, a
  \<^verbatim>\<open>CkResult\<close> a sum with the error on the left.  A function that takes a lock is a function on what the lock
  protects; code whose steps interleave is a step relation, with one step per lock section or per atomic access.
  Clocks are arguments.

  \<^bold>\<open>Bounds.\<close>  Counters keep their width.  A theorem that needs a counter not to wrap says so:
  fewer than \<open>2 ^ 64\<close> threads or fences, sequence numbers below the last \<^verbatim>\<open>u64\<close>.  No model uses fuel:
  every function is total, and the waiting loops of the fences are steps whose number is bounded
  by \<open>fence_bound\<close>.

  \<^bold>\<open>Findings.\<close>  Some theorems show what the code does against its comments: the per-connection cap
  can be exceeded, a dropped recovery leaves the daemon unready, a session search overlooks an active session,
  a policy entry in the long certificate form never applies, and a crash or a failed open inside a
  log rotation damages the audit trail.

  \<^bold>\<open>Not modelled.\<close>  The handlers for objects, keys, cryptography and messages
  (\<^verbatim>\<open>grpc_service/object\<close>, \<^verbatim>\<open>key_ops\<close>, \<^verbatim>\<open>sign_verify\<close>, \<^verbatim>\<open>digest_cipher\<close>, \<^verbatim>\<open>message_crypto\<close>), with their
  authorization gates and metadata caches, and the handlers that initialize and finalize a client
  (\<^verbatim>\<open>general/lifecycle.rs\<close>): they have state worth modelling and are left for later; only the operations of
  the context manager that they share with the modelled handlers are covered.  The same holds for the object
  lifetime table and the initialize and finalize transitions of the native back end, whose
  state machine is defined in \<^verbatim>\<open>Native_Domain\<close> without theorems about its interleavings.
  The mechanism parameter types and their conversions (\<^verbatim>\<open>crates/types/src/mechanism.rs\<close>,
  \<^verbatim>\<open>crates/proto/src/convert\<close>): several thousand lines of field-by-field copies against generated protocol
  types.  The C interface of the shim and the raw pointer code of the native back end: their meaning lies in a memory
  model.  The client, the command line tool, transport, metrics and start-up: I/O around
  libraries.  In modelled parts, logging text and test hooks are left out.
\<close>

end
